(* ===== verification/Prelude.thy ===== *)
theory Prelude
  imports Main "HOL-Library.Word" "HOL-Library.List_Lexorder" "HOL-Library.Multiset"
begin

text \<open>
  Shared ground of the development: the machine integers of the source, the outcome type of a
  Rust computation that may return an error or panic, the loop combinator for fallible loop
  bodies, checked \<open>u64\<close> arithmetic, big-endian bytes, and the arithmetic lemmas on floor
  division that the components share.
\<close>

section \<open>Collections of facts\<close>

named_theorems res_simps \<open>unfolding of outcome combinators that succeed\<close>
named_theorems eval_defs \<open>definitions unfolded when an operation is evaluated on an input\<close>

section \<open>Types\<close>

type_synonym byte = "8 word"
type_synonym u32 = "32 word"
type_synonym u64 = "64 word"
type_synonym u128 = "128 word"
type_synonym addr = string

text \<open>
  \<open>StdError\<close> of the source (its constructors that the contracts build or can receive), and the
  outcome of a computation of type \<open>StdResult<T>\<close>: a value, an error value, or a panic. Errors
  and panics are kept apart because \<open>unwrap_or_default\<close>, \<open>if let Ok(_)\<close> and \<open>Err(_) => break\<close>
  recover from the former and never from the latter.
\<close>

datatype std_error = GenericErr string | NotFound string | OverflowErr | ParseErr string

datatype 'a res = Ok 'a | Err std_error | Panic string

section \<open>Combinators\<close>

text \<open>The \<open>?\<close> operator: continue with the value, pass errors and panics on.\<close>

fun and_then :: "'a res \<Rightarrow> ('a \<Rightarrow> 'b res) \<Rightarrow> 'b res" where
  "and_then (Ok x) f = f x"
| "and_then (Err e) f = Err e"
| "and_then (Panic p) f = Panic p"

text \<open>\<open>Result::unwrap\<close>, \<open>Result::unwrap_or\<close>, \<open>Option::expect\<close>, \<open>Option::ok_or_else\<close>.\<close>

fun unwrap :: "'a res \<Rightarrow> 'a res" where
  "unwrap (Ok x) = Ok x"
| "unwrap (Err e) = Panic ''called Result::unwrap on an Err value''"
| "unwrap (Panic p) = Panic p"

fun unwrap_or :: "'a \<Rightarrow> 'a res \<Rightarrow> 'a res" where
  "unwrap_or d (Ok x) = Ok x"
| "unwrap_or d (Err e) = Ok d"
| "unwrap_or d (Panic p) = Panic p"

fun expect :: "string \<Rightarrow> 'a option \<Rightarrow> 'a res" where
  "expect msg (Some x) = Ok x"
| "expect msg None = Panic msg"

fun expect_ok :: "string \<Rightarrow> 'a res \<Rightarrow> 'a res" where
  "expect_ok msg (Ok x) = Ok x"
| "expect_ok msg (Err e) = Panic msg"
| "expect_ok msg (Panic p) = Panic p"

fun ok_or :: "std_error \<Rightarrow> 'a option \<Rightarrow> 'a res" where
  "ok_or e (Some x) = Ok x"
| "ok_or e None = Err e"

text \<open>A loop over a list whose body may fail; the accumulator is the loop's mutable state.\<close>

fun fold_res :: "('a \<Rightarrow> 'b \<Rightarrow> 'b res) \<Rightarrow> 'a list \<Rightarrow> 'b \<Rightarrow> 'b res" where
  "fold_res f [] acc = Ok acc"
| "fold_res f (x # xs) acc = and_then (f x acc) (fold_res f xs)"

definition is_ok :: "'a res \<Rightarrow> bool" where
  "is_ok r = (case r of Ok _ \<Rightarrow> True | Err _ \<Rightarrow> False | Panic _ \<Rightarrow> False)"

definition is_err :: "'a res \<Rightarrow> bool" where
  "is_err r = (case r of Ok _ \<Rightarrow> False | Err _ \<Rightarrow> True | Panic _ \<Rightarrow> False)"

definition is_panic :: "'a res \<Rightarrow> bool" where
  "is_panic r = (case r of Ok _ \<Rightarrow> False | Err _ \<Rightarrow> False | Panic _ \<Rightarrow> True)"

lemma is_res_simps [simp]:
  "is_ok (Ok x)" "\<not> is_ok (Err e)" "\<not> is_ok (Panic p)"
  "\<not> is_err (Ok x)" "is_err (Err e)" "\<not> is_err (Panic p)"
  "\<not> is_panic (Ok x)" "\<not> is_panic (Err e)" "is_panic (Panic p)"
  by (simp_all add: is_ok_def is_err_def is_panic_def)

lemma is_ok_iff: "is_ok r \<longleftrightarrow> (\<exists>x. r = Ok x)"
  by (cases r) simp_all

lemma is_err_iff: "is_err r \<longleftrightarrow> (\<exists>e. r = Err e)"
  by (cases r) simp_all

lemma is_panic_iff: "is_panic r \<longleftrightarrow> (\<exists>p. r = Panic p)"
  by (cases r) simp_all

lemma res_trichotomy: "\<not> is_ok r \<Longrightarrow> \<not> is_err r \<Longrightarrow> is_panic r"
  by (cases r) simp_all

lemma and_then_fundef_cong [fundef_cong]:
  "m = m' \<Longrightarrow> (\<And>x. m' = Ok x \<Longrightarrow> f x = g x) \<Longrightarrow> and_then m f = and_then m' g"
  by (cases m') auto

text \<open>Evaluate the first computation before looking at the continuation.\<close>

lemma and_then_weak_cong: "m = m' \<Longrightarrow> and_then m f = and_then m' f"
  by simp

lemma and_then_eq_Ok [res_simps]:
  "and_then m f = Ok y \<longleftrightarrow> (\<exists>x. m = Ok x \<and> f x = Ok y)"
  by (cases m) auto

lemma and_then_OkE [elim!]:
  assumes "and_then m f = Ok y"
  obtains x where "m = Ok x" and "f x = Ok y"
  using assms by (cases m) auto

lemma and_then_is_err: "is_err (and_then m f) \<longleftrightarrow> is_err m \<or> (\<exists>x. m = Ok x \<and> is_err (f x))"
  by (cases m) auto

lemma and_then_not_ok: "\<not> is_ok m \<Longrightarrow> \<not> is_ok (and_then m f)"
  by (cases m) auto

lemma and_then_assoc: "and_then (and_then m f) g = and_then m (\<lambda>x. and_then (f x) g)"
  by (cases m) auto

lemma unwrap_eq_Ok [res_simps]: "unwrap r = Ok x \<longleftrightarrow> r = Ok x"
  by (cases r) auto

lemma unwrap_or_eq_Ok: "unwrap_or d r = Ok x \<longleftrightarrow> r = Ok x \<or> (is_err r \<and> x = d)"
  by (cases r) auto

lemma expect_eq_Ok [res_simps]: "expect msg v = Ok x \<longleftrightarrow> v = Some x"
  by (cases v) auto

lemma expect_ok_eq_Ok [res_simps]: "expect_ok msg r = Ok x \<longleftrightarrow> r = Ok x"
  by (cases r) auto

lemma ok_or_eq_Ok [res_simps]: "ok_or e v = Ok x \<longleftrightarrow> v = Some x"
  by (cases v) auto

lemma fold_res_append: "fold_res f (xs @ ys) acc = and_then (fold_res f xs acc) (fold_res f ys)"
  by (induction xs arbitrary: acc) (simp_all add: and_then_assoc fun_eq_iff cong: and_then_fundef_cong)

text \<open>A loop invariant for a fallible loop.\<close>

lemma fold_res_invariant:
  assumes "fold_res f xs acc = Ok acc'" and "P acc"
    and "\<And>x a a'. x \<in> set xs \<Longrightarrow> P a \<Longrightarrow> f x a = Ok a' \<Longrightarrow> P a'"
  shows "P acc'"
  using assms
proof (induction xs arbitrary: acc)
  case Nil
  then show ?case by simp
next
  case (Cons x xs)
  then obtain a where "f x acc = Ok a" and rest: "fold_res f xs a = Ok acc'" by auto
  from this(1) have "P a" by (rule Cons.prems(3) [rotated 2]) (simp_all add: Cons.prems(2))
  with rest show ?case by (rule Cons.IH) (auto intro: Cons.prems(3))
qed

text \<open>A loop that adds up one amount per element.\<close>

lemma fold_res_sum:
  assumes "fold_res f xs acc = Ok acc'"
    and "\<And>x a a'. x \<in> set xs \<Longrightarrow> f x a = Ok a' \<Longrightarrow> m a' = m a + g x"
  shows "m acc' = m acc + (\<Sum>x\<leftarrow>xs. g x :: nat)"
  using assms
proof (induction xs arbitrary: acc)
  case Nil
  then show ?case by simp
next
  case (Cons x xs)
  then obtain a where f: "f x acc = Ok a" and rest: "fold_res f xs a = Ok acc'" by auto
  have "m acc' = m a + (\<Sum>x\<leftarrow>xs. g x)"
    using rest by (rule Cons.IH) (simp add: Cons.prems(2))
  moreover from f have "m a = m acc + g x" by (rule Cons.prems(2) [rotated]) simp
  ultimately show ?case by simp
qed

text \<open>A loop whose body always succeeds.\<close>

lemma fold_res_total:
  assumes "\<And>x a. x \<in> set xs \<Longrightarrow> is_ok (f x a)"
  shows "is_ok (fold_res f xs acc)"
  using assms
proof (induction xs arbitrary: acc)
  case (Cons x xs)
  from Cons.prems [of x acc] obtain a where "f x acc = Ok a" by (auto simp: is_ok_iff)
  with Cons show ?case by simp
qed simp

section \<open>Vectors\<close>

text \<open>\<open>Vec::get\<close> and \<open>Vec::remove\<close>.\<close>

definition vec_get :: "'a list \<Rightarrow> nat \<Rightarrow> 'a option" where
  "vec_get xs i = (if i < length xs then Some (xs ! i) else None)"

definition vec_remove :: "'a list \<Rightarrow> nat \<Rightarrow> ('a \<times> 'a list) res" where
  "vec_remove xs i =
     (if i < length xs then Ok (xs ! i, take i xs @ drop (Suc i) xs)
      else Panic ''removal index out of bounds'')"

declare vec_get_def [eval_defs] vec_remove_def [eval_defs]

lemma vec_removeD:
  assumes "vec_remove xs i = Ok (x, ys)"
  shows "length xs = Suc (length ys)" and "mset xs = add_mset x (mset ys)" and "x \<in> set xs"
proof -
  from assms have i: "i < length xs" and x: "x = xs ! i" and ys: "ys = take i xs @ drop (Suc i) xs"
    by (auto simp: vec_remove_def split: if_splits)
  have split: "xs = take i xs @ x # drop (Suc i) xs" using i x by (simp add: id_take_nth_drop)
  show "length xs = Suc (length ys)" using i ys by simp
  show "mset xs = add_mset x (mset ys)" by (subst split) (simp add: ys)
  show "x \<in> set xs" using i x by simp
qed

lemma vec_remove_fits: "i < length xs \<Longrightarrow> \<exists>x ys. vec_remove xs i = Ok (x, ys)"
  by (simp add: vec_remove_def)

section \<open>Checked arithmetic on \<open>u64\<close>\<close>

text \<open>
  The workspace builds with \<open>overflow-checks = true\<close>: \<open>+\<close> and \<open>-\<close> on \<open>u64\<close> panic
  when the result does not fit.
\<close>

definition u64_add :: "u64 \<Rightarrow> u64 \<Rightarrow> u64 res" where
  "u64_add a b = (if unat a + unat b < 2 ^ 64 then Ok (a + b)
                  else Panic ''attempt to add with overflow'')"

definition u64_sub :: "u64 \<Rightarrow> u64 \<Rightarrow> u64 res" where
  "u64_sub a b = (if b \<le> a then Ok (a - b) else Panic ''attempt to subtract with overflow'')"

declare u64_add_def [eval_defs] u64_sub_def [eval_defs]

lemma unat_min: "unat (min a b) = min (unat a) (unat b)" for a b :: "'a :: len word"
  by (simp add: min_def word_le_nat_alt)

lemma unat_less_exp: "unat (a :: 'a :: len word) < 2 ^ LENGTH('a)"
  by (rule unsigned_less)

lemma unat_lt_8 [simp]: "unat (a :: byte) < 256"
  using unat_less_exp [of a] by simp

lemma unat_lt_64 [simp]: "unat (a :: u64) < 18446744073709551616"
  using unat_less_exp [of a] by simp

lemma unat_lt_128 [simp]: "unat (a :: u128) < 340282366920938463463374607431768211456"
  using unat_less_exp [of a] by simp

lemma unat_add_no_overflow:
  fixes a b :: "'a :: len word"
  assumes "unat a + unat b < 2 ^ LENGTH('a)"
  shows "unat (a + b) = unat a + unat b"
  using assms by (simp add: unat_add_lem [THEN iffD1])

lemma u64_add_eq_Ok: "u64_add a b = Ok c \<longleftrightarrow> unat c = unat a + unat b"
proof
  assume "u64_add a b = Ok c"
  then show "unat c = unat a + unat b"
    by (auto simp: u64_add_def unat_add_no_overflow split: if_splits)
next
  assume c: "unat c = unat a + unat b"
  have "unat c < 2 ^ 64" by simp
  with c have less: "unat a + unat b < 2 ^ 64" by simp
  then have "unat (a + b) = unat c" using c by (simp add: unat_add_no_overflow)
  then have "a + b = c" by (simp add: unsigned_word_eqI)
  with less show "u64_add a b = Ok c" by (simp add: u64_add_def)
qed

text \<open>A counter that is incremented under the check comes closer to the end of its range.\<close>

lemma u64_add_one_decreases:
  assumes "u64_add i 1 = Ok j"
  shows "18446744073709551616 - unat j < 18446744073709551616 - unat i"
proof -
  from assms have "unat j = unat i + 1" by (simp add: u64_add_eq_Ok)
  moreover have "unat j < 18446744073709551616" by simp
  ultimately show ?thesis by linarith
qed

lemma u64_add_no_err: "\<not> is_err (u64_add a b)"
  by (simp add: u64_add_def)

lemma u64_sub_eq_Ok: "u64_sub a b = Ok c \<longleftrightarrow> b \<le> a \<and> c = a - b"
  by (auto simp: u64_sub_def)

lemma unat_sub_le:
  fixes a b :: "'a :: len word"
  shows "b \<le> a \<Longrightarrow> unat (a - b) = unat a - unat b"
  by (rule unat_sub)

lemma unat_u64_succ:
  fixes a b :: u64
  assumes "a < b"
  shows "unat (a + 1) = unat a + 1"
proof -
  from assms have "unat a < unat b" by (simp add: word_less_nat_alt)
  then have "unat a + 1 < 18446744073709551616" using unat_lt_64 [of b] by linarith
  then show ?thesis by (simp add: unat_add_no_overflow)
qed

section \<open>Floor division\<close>

text \<open>The scale of the 18-digit fixed-point decimals.\<close>

abbreviation E18 :: nat where
  "E18 \<equiv> 1000000000000000000"

lemma mult_div_le:
  fixes a b n d :: nat
  assumes "n \<le> d"
  shows "a * n div d \<le> a"
proof (cases "d = 0")
  case False
  from assms have "a * n \<le> a * d" by simp
  then have "a * n div d \<le> a * d div d" by (rule div_le_mono)
  with False show ?thesis by simp
qed simp

text \<open>Scaling a ratio down again never gives back more than was put in.\<close>

lemma floor_ratio_times_le:
  fixes a b s :: nat
  shows "b * (a * s div b) div s \<le> a"
proof (cases "s = 0")
  case False
  have "b * (a * s div b) \<le> a * s" by (rule times_div_less_eq_dividend)
  then have "b * (a * s div b) div s \<le> a * s div s" by (rule div_le_mono)
  with False show ?thesis by simp
qed simp

lemma div_add_le:
  fixes a b c :: nat
  shows "a div c + b div c \<le> (a + b) div c"
proof (cases "c = 0")
  case False
  have "c * (a div c) + c * (b div c) \<le> a + b"
    by (intro add_mono times_div_less_eq_dividend)
  then have "c * (a div c + b div c) \<le> a + b" by (simp add: algebra_simps)
  with False show ?thesis by (simp add: less_eq_div_iff_mult_less_eq mult.commute)
qed simp

lemma div_add_le_Suc:
  fixes a b c :: nat
  assumes "0 < c"
  shows "(a + b) div c \<le> a div c + b div c + 1"
proof -
  have "(a + b) div c = a div c + b div c + (a mod c + b mod c) div c" by (rule div_add1_eq)
  moreover have "a mod c + b mod c < 2 * c"
    using mod_less_divisor [OF assms, of a] mod_less_divisor [OF assms, of b] by linarith
  then have "(a mod c + b mod c) div c < 2" using assms by (simp add: div_less_iff_less_mult)
  ultimately show ?thesis by simp
qed

lemma sum_div_le_div_sum:
  fixes f :: "'a \<Rightarrow> nat"
  shows "(\<Sum>x\<in>A. f x div c) \<le> (\<Sum>x\<in>A. f x) div c"
proof (induction A rule: infinite_finite_induct)
  case (insert x A)
  then have "(\<Sum>x\<in>insert x A. f x div c) \<le> f x div c + (\<Sum>x\<in>A. f x) div c" by simp
  also have "\<dots> \<le> (f x + (\<Sum>x\<in>A. f x)) div c" by (rule div_add_le)
  finally show ?case using insert by simp
qed simp_all

lemma sum_list_div_le_div_sum_list:
  fixes f :: "'a \<Rightarrow> nat"
  shows "(\<Sum>x\<leftarrow>xs. f x div c) \<le> (\<Sum>x\<leftarrow>xs. f x) div c"
proof (induction xs)
  case (Cons x xs)
  then have "(\<Sum>x\<leftarrow>x # xs. f x div c) \<le> f x div c + (\<Sum>x\<leftarrow>xs. f x) div c" by simp
  also have "\<dots> \<le> (f x + (\<Sum>x\<leftarrow>xs. f x)) div c" by (rule div_add_le)
  finally show ?case by simp
qed simp

end
