(* ===== verification/ByteStore.thy ===== *)
theory ByteStore
  imports Prelude
begin

text \<open>
  Contract storage: a key/value store whose keys are byte strings and whose iterator runs in
  ascending lexicographic order of the keys. \<open>Bucket\<close> and \<open>PrefixedStorage\<close> give a contract a
  private namespace of such a store; a namespace is modelled as a store of its own. The locale
  states what the contracts rely on; the sorted association list implements it. The second part
  is \<open>u64::to_be_bytes\<close>, the key encoding of the unbond history, whose order is numeric.
\<close>

section \<open>The storage interface\<close>

locale byte_store =
  fixes empty :: "'s"
    and get :: "'s \<Rightarrow> byte list \<Rightarrow> 'v option"
    and put :: "'s \<Rightarrow> byte list \<Rightarrow> 'v \<Rightarrow> 's"
    and remove :: "'s \<Rightarrow> byte list \<Rightarrow> 's"
    and entries :: "'s \<Rightarrow> (byte list \<times> 'v) list"
    and invar :: "'s \<Rightarrow> bool"
  assumes get_empty: "get empty = Map.empty"
    and get_put: "get (put s k v) = (get s)(k \<mapsto> v)"
    and get_remove: "get (remove s k) = (get s)(k := None)"
    and entries_get: "invar s \<Longrightarrow> (k, v) \<in> set (entries s) \<longleftrightarrow> get s k = Some v"
    and entries_sorted: "invar s \<Longrightarrow> sorted_wrt (<) (map fst (entries s))"
    and invar_empty: "invar empty"
    and invar_put: "invar s \<Longrightarrow> invar (put s k v)"
    and invar_remove: "invar s \<Longrightarrow> invar (remove s k)"
begin

lemma entries_distinct: "invar s \<Longrightarrow> distinct (map fst (entries s))"
  using entries_sorted [of s] by (simp add: strict_sorted_iff)

lemma dom_get: "invar s \<Longrightarrow> dom (get s) = fst ` set (entries s)"
  by (force simp: entries_get [symmetric])

lemma finite_dom: "invar s \<Longrightarrow> finite (dom (get s))"
  by (simp add: dom_get)

text \<open>A loop over the iterator adds up one amount per present key.\<close>

lemma sum_entries:
  fixes f :: "byte list \<Rightarrow> 'v \<Rightarrow> nat"
  assumes "invar s" and "finite K" and "dom (get s) \<subseteq> K"
  shows "(\<Sum>(k, v)\<leftarrow>entries s. f k v) = (\<Sum>k\<in>K. case get s k of None \<Rightarrow> 0 | Some v \<Rightarrow> f k v)"
proof -
  have "(\<Sum>(k, v)\<leftarrow>entries s. f k v) = (\<Sum>(k, v)\<in>set (entries s). f k v)"
    using entries_distinct [OF assms(1)]
    by (simp add: sum_list_distinct_conv_sum_set distinct_map)
  also have "\<dots> = (\<Sum>k\<in>dom (get s). case get s k of None \<Rightarrow> 0 | Some v \<Rightarrow> f k v)"
  proof (rule sum.reindex_cong [symmetric, of fst])
    show "inj_on fst (set (entries s))"
      using entries_distinct [OF assms(1)] by (simp add: distinct_map)
    show "dom (get s) = fst ` set (entries s)" by (rule dom_get [OF assms(1)])
  qed (auto simp: entries_get [OF assms(1)])
  also have "\<dots> = (\<Sum>k\<in>K. case get s k of None \<Rightarrow> 0 | Some v \<Rightarrow> f k v)"
    using assms(2,3) by (intro sum.mono_neutral_left) (auto split: option.splits)
  finally show ?thesis .
qed

lemma entries_eq_Nil: "invar s \<Longrightarrow> entries s = [] \<longleftrightarrow> get s = Map.empty"
  using dom_get [of s] by auto

lemma length_entries: "invar s \<Longrightarrow> length (entries s) = card (dom (get s))"
  using distinct_card [OF entries_distinct [of s]] by (simp add: dom_get)

lemma keys_filter:
  assumes "invar s"
  shows "set (map fst (filter (\<lambda>(k, v). P k v) (entries s))) = {k. \<exists>v. get s k = Some v \<and> P k v}"
  using entries_get [OF assms] by force

end

section \<open>Sorted association lists\<close>

type_synonym 'v kv = "(byte list \<times> 'v) list"

definition kv_get :: "'v kv \<Rightarrow> byte list \<Rightarrow> 'v option" where
  "kv_get s k = map_of s k"

fun kv_put :: "'v kv \<Rightarrow> byte list \<Rightarrow> 'v \<Rightarrow> 'v kv" where
  "kv_put [] k v = [(k, v)]"
| "kv_put ((k', v') # s) k v =
     (if k = k' then (k, v) # s
      else if k < k' then (k, v) # (k', v') # s
      else (k', v') # kv_put s k v)"

definition kv_remove :: "'v kv \<Rightarrow> byte list \<Rightarrow> 'v kv" where
  "kv_remove s k = filter (\<lambda>e. fst e \<noteq> k) s"

text \<open>\<open>range(start, None, Order::Ascending)\<close>: the entries from the start key on.\<close>

definition kv_range :: "'v kv \<Rightarrow> byte list option \<Rightarrow> 'v kv" where
  "kv_range s start =
     (case start of None \<Rightarrow> s | Some k \<Rightarrow> filter (\<lambda>e. k \<le> fst e) s)"

definition kv_ok :: "'v kv \<Rightarrow> bool" where
  "kv_ok s = sorted_wrt (<) (map fst s)"

declare kv_get_def [eval_defs] kv_remove_def [eval_defs] kv_range_def [eval_defs]

lemma kv_get_put: "kv_get (kv_put s k v) = (kv_get s)(k \<mapsto> v)"
  by (induction s k v rule: kv_put.induct) (auto simp: kv_get_def fun_eq_iff)

lemma kv_get_remove: "kv_get (kv_remove s k) = (kv_get s)(k := None)"
  by (induction s) (auto simp: kv_get_def kv_remove_def fun_eq_iff)

lemma set_kv_put: "fst ` set (kv_put s k v) = insert k (fst ` set s)"
  by (induction s k v rule: kv_put.induct) auto

lemma kv_ok_put: "kv_ok s \<Longrightarrow> kv_ok (kv_put s k v)"
proof (induction s k v rule: kv_put.induct)
  case (2 k' v' s k v)
  have "k' < x" if "x \<in> fst ` set (kv_put s k v)" "\<not> k < k'" "k \<noteq> k'" for x
    using that 2 by (auto simp: set_kv_put kv_ok_def)
  moreover from 2 have "k < x" if "x \<in> fst ` set s" "k < k'" for x
    using that by (fastforce simp: kv_ok_def intro: less_trans)
  ultimately show ?case using 2 by (auto simp: kv_ok_def)
qed (simp add: kv_ok_def)

lemma kv_ok_remove: "kv_ok s \<Longrightarrow> kv_ok (kv_remove s k)"
  by (induction s) (auto simp: kv_ok_def kv_remove_def)

lemma kv_entries_get: "kv_ok s \<Longrightarrow> (k, v) \<in> set s \<longleftrightarrow> kv_get s k = Some v"
  using map_of_eq_Some_iff [of s k v] by (auto simp: kv_ok_def kv_get_def strict_sorted_iff)

interpretation kv: byte_store "[]" kv_get kv_put kv_remove "\<lambda>s. s" kv_ok
proof (unfold_locales, goal_cases)
  case 1
  show ?case by (simp add: kv_get_def fun_eq_iff)
next
  case 5
  then show ?case by (simp add: kv_ok_def)
next
  case 6
  show ?case by (simp add: kv_ok_def)
qed (simp_all add: kv_get_put kv_get_remove kv_entries_get kv_ok_put kv_ok_remove)

lemmas kv_lookup_simps [simp] = kv.get_put kv.get_remove
lemmas kv_invar_intros [simp, intro] = kv.invar_put kv.invar_remove kv.invar_empty

lemma kv_get_empty [simp]: "kv_get [] k = None"
  by (simp add: kv_get_def)

lemma kv_ok_range: "kv_ok s \<Longrightarrow> kv_ok (kv_range s start)"
  by (auto simp: kv_ok_def kv_range_def sorted_wrt_map sorted_wrt_filter split: option.splits)

lemma kv_get_range:
  shows "kv_get (kv_range s (Some start)) k = (if start \<le> k then kv_get s k else None)"
  by (induction s) (auto simp: kv_range_def kv_get_def)

section \<open>Big-endian bytes\<close>

text \<open>\<open>n\<close> base-256 digits of a number, the most significant first.\<close>

fun be_bytes :: "nat \<Rightarrow> nat \<Rightarrow> byte list" where
  "be_bytes 0 x = []"
| "be_bytes (Suc n) x = of_nat (x div 256 ^ n) # be_bytes n (x mod 256 ^ n)"

definition to_be_bytes :: "u64 \<Rightarrow> byte list" where
  "to_be_bytes x = be_bytes 8 (unat x)"


lemma length_be_bytes [simp]: "length (be_bytes n x) = n"
  by (induction n arbitrary: x) simp_all

lemma byte_less_iff: "a < 256 \<Longrightarrow> b < 256 \<Longrightarrow> (of_nat a :: byte) < of_nat b \<longleftrightarrow> a < b"
  by (simp add: word_less_nat_alt unat_of_nat)

lemma byte_eq_iff: "a < 256 \<Longrightarrow> b < 256 \<Longrightarrow> (of_nat a :: byte) = of_nat b \<longleftrightarrow> a = b"
  by (simp add: word_unat_eq_iff unat_of_nat)

lemma div_exp_less: "x < 256 ^ Suc n \<Longrightarrow> x div 256 ^ n < (256 :: nat)"
  by (simp add: div_less_iff_less_mult)

lemma less_iff_digits:
  fixes x y b :: nat
  shows "x < y \<longleftrightarrow> x div b < y div b \<or> x div b = y div b \<and> x mod b < y mod b"
proof (cases "x div b" "y div b" rule: linorder_cases)
  case less
  then have "\<not> y \<le> x" using div_le_mono [of y x b] by linarith
  with less show ?thesis by simp
next
  case equal
  have "x = b * (x div b) + x mod b" "y = b * (x div b) + y mod b"
    using equal by (metis mult_div_mod_eq)+
  with equal show ?thesis by (metis nat_add_left_cancel_less order_less_irrefl)
next
  case greater
  then have "\<not> x \<le> y" using div_le_mono [of x y b] by linarith
  with greater show ?thesis by simp
qed

text \<open>The digits of the longer of two prefixes decide: byte order is numeric order.\<close>

lemma be_bytes_less_iff:
  "x < 256 ^ n \<Longrightarrow> y < 256 ^ n \<Longrightarrow> be_bytes n x < be_bytes n y \<longleftrightarrow> x < y"
proof (induction n arbitrary: x y)
  case 0
  then show ?case by simp
next
  case (Suc n)
  let ?b = "256 ^ n :: nat"
  from Suc.prems have digits: "x div ?b < 256" "y div ?b < 256" by (simp_all add: div_exp_less)
  have "be_bytes n (x mod ?b) < be_bytes n (y mod ?b) \<longleftrightarrow> x mod ?b < y mod ?b"
    by (rule Suc.IH) simp_all
  moreover have "x < y \<longleftrightarrow> x div ?b < y div ?b \<or> x div ?b = y div ?b \<and> x mod ?b < y mod ?b"
    by (rule less_iff_digits)
  ultimately show ?case using digits by (simp add: byte_less_iff byte_eq_iff)
qed

lemma to_be_bytes_less_iff: "to_be_bytes a < to_be_bytes b \<longleftrightarrow> a < b"
proof -
  have "unat a < 256 ^ 8" "unat b < 256 ^ 8" by simp_all
  then show ?thesis by (simp add: to_be_bytes_def be_bytes_less_iff word_less_nat_alt)
qed

lemma to_be_bytes_inject [simp]: "to_be_bytes a = to_be_bytes b \<longleftrightarrow> a = b"
  using to_be_bytes_less_iff by (metis linorder_neq_iff)

text \<open>
  A key extended by one byte lies strictly between the key and the next key of the same length:
  iterating from there skips exactly the keys up to and including it.
\<close>

lemma extended_key_le_iff:
  "length k = length k' \<Longrightarrow> k @ [b] \<le> k' \<longleftrightarrow> k < (k' :: byte list)"
proof (induction k k' rule: list_induct2)
  case Nil
  then show ?case by simp
next
  case (Cons x xs y ys)
  then show ?case by auto
qed

end
