(* ===== verification/DecimalText.thy ===== *)
theory DecimalText
  imports Prelude
begin

text \<open>
  Decimal numerals as text: the digits of a number, most significant first, and the reading of a
  digit string. Integers are rendered this way by \<open>Display\<close> and by the JSON encoding of storage
  keys, and read back by \<open>from_dec_str\<close> and the JSON decoder.
\<close>

definition digit_char :: "nat \<Rightarrow> char" where
  "digit_char d = char_of (48 + d)"

definition is_digit_char :: "char \<Rightarrow> bool" where
  "is_digit_char c = (48 \<le> (of_char c :: nat) \<and> (of_char c :: nat) \<le> 57)"

definition digit_val :: "char \<Rightarrow> nat" where
  "digit_val c = of_char c - 48"

fun show_nat :: "nat \<Rightarrow> string" where
  "show_nat n = (if n < 10 then [digit_char n] else show_nat (n div 10) @ [digit_char (n mod 10)])"

declare show_nat.simps [simp del]

fun read_digits :: "string \<Rightarrow> nat \<Rightarrow> nat option" where
  "read_digits [] acc = Some acc"
| "read_digits (c # cs) acc =
     (if is_digit_char c then read_digits cs (10 * acc + digit_val c) else None)"

definition read_nat :: "string \<Rightarrow> nat option" where
  "read_nat s = read_digits s 0"

lemma of_char_digit_char: "d < 10 \<Longrightarrow> (of_char (digit_char d) :: nat) = 48 + d"
  by (simp add: digit_char_def)

lemma is_digit_digit_char [simp]: "d < 10 \<Longrightarrow> is_digit_char (digit_char d)"
  by (simp add: is_digit_char_def of_char_digit_char)

lemma digit_val_digit_char [simp]: "d < 10 \<Longrightarrow> digit_val (digit_char d) = d"
  by (simp add: digit_val_def of_char_digit_char)

lemma digit_char_eq_0_iff: "d < 10 \<Longrightarrow> digit_char d = CHR ''0'' \<longleftrightarrow> d = 0"
proof
  assume "d < 10" and "digit_char d = CHR ''0''"
  then have "digit_val (CHR ''0'') = d" using digit_val_digit_char [of d] by simp
  then show "d = 0" by (simp add: digit_val_def)
next
  assume "d = 0"
  moreover have "digit_char 0 = CHR ''0''" by code_simp
  ultimately show "digit_char d = CHR ''0''" by simp
qed

lemma show_nat_nonempty [simp]: "show_nat n \<noteq> []"
  by (subst show_nat.simps) simp

lemma show_nat_digits: "c \<in> set (show_nat n) \<Longrightarrow> is_digit_char c"
proof (induction n rule: show_nat.induct)
  case (1 n)
  then show ?case
    by (cases "n < 10") (auto simp: show_nat.simps [of n])
qed

lemma read_digits_append:
  "read_digits (xs @ ys) acc = Option.bind (read_digits xs acc) (read_digits ys)"
  by (induction xs acc rule: read_digits.induct) auto

lemma read_show_nat [simp]: "read_nat (show_nat n) = Some n"
  unfolding read_nat_def
proof (induction n rule: show_nat.induct)
  case (1 n)
  then show ?case
    by (cases "n < 10") (simp_all add: show_nat.simps [of n] read_digits_append)
qed

lemma show_nat_inject [simp]: "show_nat m = show_nat n \<longleftrightarrow> m = n"
  by (metis option.inject read_show_nat)

lemma length_show_nat_le: "n < 10 ^ Suc k \<Longrightarrow> length (show_nat n) \<le> Suc k"
proof (induction k arbitrary: n)
  case 0
  then show ?case by (simp add: show_nat.simps [of n])
next
  case (Suc k)
  then have "n div 10 < 10 ^ Suc k" by (simp add: div_less_iff_less_mult mult.commute)
  with Suc.IH show ?case by (simp add: show_nat.simps [of n])
qed

text \<open>Reading with leading zeros and with trailing zeros.\<close>

lemma read_digits_zeros: "read_digits (replicate k (CHR ''0'') @ s) 0 = read_digits s 0"
  by (induction k) (simp_all add: is_digit_char_def digit_val_def)

lemma read_digits_acc_zeros:
  "read_digits (replicate k (CHR ''0'')) acc = Some (10 ^ k * acc)"
  by (induction k arbitrary: acc) (simp_all add: is_digit_char_def digit_val_def algebra_simps)

lemma read_digits_less:
  "read_digits s acc = Some n \<Longrightarrow> n < (acc + 1) * 10 ^ length s"
proof (induction s acc rule: read_digits.induct)
  case (2 c cs acc)
  then have "digit_val c < 10" and less: "n < (10 * acc + digit_val c + 1) * 10 ^ length cs"
    by (auto simp: is_digit_char_def digit_val_def split: if_splits)
  then have "(10 * acc + digit_val c + 1) * 10 ^ length cs \<le> (10 * acc + 10) * 10 ^ length cs"
    by (intro mult_le_mono1) simp
  with less have "n < (10 * acc + 10) * 10 ^ length cs" by (rule less_le_trans)
  then show ?case by (simp add: algebra_simps)
qed simp

lemma read_nat_less: "read_nat s = Some n \<Longrightarrow> n < 10 ^ length s"
  using read_digits_less [of s 0 n] by (simp add: read_nat_def)

lemma read_nat_Nil [simp]: "read_nat [] = Some 0"
  by (simp add: read_nat_def)

end
