(* ===== verification/Cosmwasm.thy ===== *)
theory Cosmwasm
  imports ByteStore DecimalText
begin

text \<open>
  Data of the CosmWasm platform that the contracts read and build: the fixed-point decimal, coins,
  the block environment and message info, and what the staking and bank queriers answer. The
  platform's operations on them are not part of the repository; theory Host makes them parameters.
\<close>

section \<open>Decimals\<close>

text \<open>
  \<open>cosmwasm_std::Decimal\<close>: a fixed-point number with 18 fractional digits, stored as the number
  of \<open>10^-18\<close> units it holds. Comparison is that of the stored integer.
\<close>

datatype decimal = Decimal (atomics: u128)

definition dec_one :: decimal where
  "dec_one = Decimal 1000000000000000000"

definition dec_zero :: decimal where
  "dec_zero = Decimal 0"

declare dec_one_def [eval_defs] dec_zero_def [eval_defs]

instantiation decimal :: linorder
begin

definition less_eq_decimal :: "decimal \<Rightarrow> decimal \<Rightarrow> bool" where
  "less_eq_decimal x y = (atomics x \<le> atomics y)"

definition less_decimal :: "decimal \<Rightarrow> decimal \<Rightarrow> bool" where
  "less_decimal x y = (atomics x < atomics y)"

instance
  by intro_classes (auto simp: less_eq_decimal_def less_decimal_def decimal.expand)

end

text \<open>The value of a decimal in \<open>10^-18\<close> units, as a number.\<close>

abbreviation units :: "decimal \<Rightarrow> nat" where
  "units d \<equiv> unat (atomics d)"

lemma units_eq_iff: "units d = units e \<longleftrightarrow> d = e"
  by (cases d; cases e) (simp add: word_unat_eq_iff)

lemma decimal_le_units: "d \<le> e \<longleftrightarrow> units d \<le> units e"
  by (simp add: less_eq_decimal_def word_le_nat_alt)

lemma decimal_less_units: "d < e \<longleftrightarrow> units d < units e"
  by (simp add: less_decimal_def word_less_nat_alt)

lemma units_dec_one [simp]: "units dec_one = E18"
  by (simp add: dec_one_def)

lemma units_dec_zero [simp]: "units dec_zero = 0"
  by (simp add: dec_zero_def)

section \<open>Coins, environment, caller\<close>

record coin =
  denom :: string
  coin_amount :: u128

type_synonym canonical_addr = "byte list"

record env =
  block_height :: u64
  block_seconds :: u64
  contract_address :: addr

record message_info =
  sender :: addr
  funds :: "coin list"

record delegation =
  del_validator :: string
  del_amount :: coin

record validator_info =
  val_address :: string

section \<open>The whitelisted payment\<close>

text \<open>
  \<open>info.funds.iter().find(|x| x.denom == coin_denom && x.amount > Uint128::zero())\<close>, which
  three entry points run on the attached coins.
\<close>

definition find_payment :: "string \<Rightarrow> coin list \<Rightarrow> coin option" where
  "find_payment d cs = List.find (\<lambda>x. denom x = d \<and> 0 < coin_amount x) cs"

declare find_payment_def [eval_defs]

lemma find_payment_SomeD:
  "find_payment d cs = Some c \<Longrightarrow> c \<in> set cs \<and> denom c = d \<and> 0 < coin_amount c"
  by (auto simp: find_payment_def find_Some_iff)

lemma find_payment_None_iff:
  "find_payment d cs = None \<longleftrightarrow> (\<forall>c \<in> set cs. denom c = d \<longrightarrow> coin_amount c = 0)"
  by (auto simp: find_payment_def find_None_iff word_gt_0)

end
