(* ===== verification/Protocol.thy ===== *)
theory Protocol
  imports Cosmwasm
begin

text \<open>
  The messages and stored structures of \<open>packages/prism-protocol\<close>: \<open>hub.rs\<close> (the hub's
  messages, parameters, batch, state, configuration and history records and its query responses)
  and \<open>rewards.rs\<close> (the rewards contract), and the error type of \<open>contract_error.rs\<close>. Field names carry a
  prefix where two structures of the source share a name.
\<close>

section \<open>The hub: stored structures\<close>

record parameters =
  epoch_period :: u64
  underlying_coin_denom :: string
  unbonding_period :: u64
  peg_recovery_fee :: decimal
  er_threshold :: decimal
  protocol_fee :: decimal

record current_batch =
  cb_id :: u64
  requested_with_fee :: u128

record hub_state =
  exchange_rate :: decimal
  second_exchange_rate :: decimal
  total_bond_amount :: u128
  last_index_modification :: u64
  prev_hub_balance :: u128
  actual_unbonded_amount :: u128
  principle_balance_before_exchange_update :: u128
  last_unbonded_time :: u64
  last_processed_batch :: u64

record hub_config =
  token_contract_registered :: bool
  token_contract :: "canonical_addr option"
  protocol_fee_collector :: "canonical_addr option"
  rewards_contract :: "canonical_addr option"

record unbond_history =
  hist_batch_id :: u64
  hist_time :: u64
  hist_amount :: u128
  applied_exchange_rate :: decimal
  withdraw_rate :: decimal
  released :: bool

type_synonym unbond_request = "(u64 \<times> u128) list"

section \<open>The hub: messages\<close>

record hub_instantiate_msg =
  im_epoch_period :: u64
  im_underlying_coin_denom :: string
  im_unbonding_period :: u64
  im_peg_recovery_fee :: decimal
  im_er_threshold :: decimal
  im_validator :: string
  im_protocol_fee :: decimal
  im_rewards_contract :: string

text \<open>\<open>cw20::Cw20ReceiveMsg\<close>: the hook call a CW20 token makes after a send.\<close>

record cw20_receive_msg =
  cw20_sender :: string
  cw20_amount :: u128
  cw20_msg :: "byte list"

datatype cw20_hook_msg = Unbond

datatype hub_execute_msg =
    Pause
  | Unpause
  | UpdateConfig "string option" "string option"
      \<comment> \<open>\<open>token_contract\<close>, \<open>protocol_fee_collector\<close>\<close>
  | UpdateAdmin string
  | UpdateExchangeRate
  | RegisterValidator string
  | DeregisterValidator string
  | UpdateParams "u64 option" "u64 option" "decimal option" "decimal option" "decimal option"
      \<comment> \<open>\<open>epoch_period\<close>, \<open>unbonding_period\<close>, \<open>peg_recovery_fee\<close>, \<open>er_threshold\<close>, \<open>protocol_fee\<close>\<close>
  | Bond string
  | UpdateGlobalIndex
  | WithdrawUnbonded
  | CheckSlashing
  | Receive cw20_receive_msg

datatype hub_query_msg =
    QConfig
  | QState
  | QWhitelistedValidators
  | QCurrentBatch
  | QWithdrawableUnbonded string
  | QParameters
  | QUnbondRequests string
  | QAllHistory "u64 option" "u32 option"
      \<comment> \<open>\<open>start_from\<close>, \<open>limit\<close>\<close>
  | QAdmin

record state_response =
  sr_exchange_rate :: decimal
  sr_total_bond_amount :: u128
  sr_last_index_modification :: u64
  sr_principle_balance_before_exchange_update :: u128
  sr_prev_hub_balance :: u128
  sr_actual_unbonded_amount :: u128
  sr_last_unbonded_time :: u64
  sr_last_processed_batch :: u64

record config_response =
  cr_token_contract :: "string option"
  cr_protocol_fee_collector :: "string option"
  cr_rewards_contract :: "string option"

text \<open>The typed answer of a query, before \<open>to_binary\<close>.\<close>

datatype hub_query_response =
    ConfigResponse config_response
  | StateResponse state_response
  | WhitelistedValidatorsResponse "string list"
  | CurrentBatchResponse u64 u128
  | WithdrawableUnbondedResponse u128
  | ParametersResponse parameters
  | UnbondRequestsResponse string unbond_request
  | AllHistoryResponse "unbond_history list"
  | AdminResponse "string option"

text \<open>\<open>MigrateMsg { rewards_contract }\<close>.\<close>

type_synonym hub_migrate_msg = string

section \<open>The rewards contract\<close>

record rewards_instantiate_msg =
  ri_hub_addr :: string
  ri_underlying_coin_denom :: string

record rewards_config =
  hub_contract :: canonical_addr
  rc_underlying_coin_denom :: string

datatype rewards_execute_msg = RwPause | RwUnpause | RwUpdateAdmin string | ProcessRewards

datatype rewards_query_msg = RwQConfig | RwQAdmin

datatype rewards_query_response = RwConfigResponse string | RwAdminResponse "string option"

section \<open>The error type\<close>

text \<open>
  \<open>ContractError\<close>, with the text that its attributes derive. The two wrapped errors are of the platform;
  how they print is a parameter. The first two constructors are the derived conversions into the type.
\<close>

datatype 'overflow contract_error =
    ContractStd std_error
  | ContractOverflow 'overflow
  | ContractUnauthorized
  | InvalidZeroAmount
  | MaxSpreadAssertion
  | MaxSlippageAssertion
  | AssetMismatch

definition contract_error_text ::
  "(std_error \<Rightarrow> string) \<Rightarrow> ('overflow \<Rightarrow> string) \<Rightarrow> 'overflow contract_error \<Rightarrow> string" where
  "contract_error_text std_text overflow_text e =
     (case e of
        ContractStd s \<Rightarrow> std_text s
      | ContractOverflow v \<Rightarrow> overflow_text v
      | ContractUnauthorized \<Rightarrow> ''Unauthorized''
      | InvalidZeroAmount \<Rightarrow> ''Invalid zero amount''
      | MaxSpreadAssertion \<Rightarrow> ''Max spread assertion''
      | MaxSlippageAssertion \<Rightarrow> ''Max slippage assertion''
      | AssetMismatch \<Rightarrow> ''Asset mismatch'')"

text \<open>The errors of the contracts' own are told apart by their texts.\<close>

lemma contract_error_text_inj:
  "inj_on (contract_error_text std_text overflow_text)
     {ContractUnauthorized, InvalidZeroAmount, MaxSpreadAssertion, MaxSlippageAssertion, AssetMismatch}"
  by (simp add: contract_error_text_def)

section \<open>Outgoing messages\<close>

text \<open>
  What a contract answers with: the \<open>CosmosMsg\<close> values it asks the chain to run after it, and
  log attributes. The payload of \<open>WasmMsg::Execute\<close> is kept typed, before \<open>to_binary\<close>, and an
  attribute value before its rendering as text. A \<open>SubMsg::new(m)\<close> is the message \<open>m\<close>.
\<close>

datatype cw20_execute_msg = Burn u128 | Mint string u128

datatype wasm_payload =
  HubMsg hub_execute_msg | RewardsMsg rewards_execute_msg | Cw20Msg cw20_execute_msg

datatype cosmos_msg =
    Delegate string coin
  | Undelegate string coin
  | Redelegate string string coin
  | WithdrawDelegatorReward string
  | SetWithdrawAddress string
  | BankSend string "coin list"
  | WasmExecute string wasm_payload "coin list"

datatype attr_value = AttrText string | AttrUint u128 | AttrDecimal decimal

record response =
  messages :: "cosmos_msg list"
  attributes :: "(string \<times> attr_value) list"

definition respond :: "cosmos_msg list \<Rightarrow> (string \<times> attr_value) list \<Rightarrow> response" where
  "respond ms attrs = \<lparr>messages = ms, attributes = attrs\<rparr>"

lemma messages_respond [simp]: "messages (respond ms attrs) = ms"
  by (simp add: respond_def)

lemma attributes_respond [simp]: "attributes (respond ms attrs) = attrs"
  by (simp add: respond_def)

end
