(* ===== verification/Host.thy ===== *)
theory Host
  imports Protocol
begin

text \<open>
  The code the contracts call and that is not in the repository, as parameters: \<open>cw_lib\<close> holds
  the pure library functions (\<open>Uint128\<close> and \<open>Decimal\<close> arithmetic, the JSON encoding of storage
  keys, the address API, the random index, the admin controller), \<open>querier\<close> the answers of the
  chain while one message runs. The locales state the documented behaviour the contracts rely on;
  \<open>ref_lib\<close> is an executable instance that satisfies all of it.
\<close>

section \<open>Parameters\<close>

datatype admin_error = AdminStd std_error | NotAdmin

text \<open>The storage cell of \<open>cw_controllers::Admin\<close>: unset, or set to an optional address.\<close>

type_synonym admin_cell = "addr option option"

record cw_lib =
  uint_add :: "u128 \<Rightarrow> u128 \<Rightarrow> u128 res"
    \<comment> \<open>\<open>Uint128 + Uint128\<close>\<close>
  uint_checked_sub :: "u128 \<Rightarrow> u128 \<Rightarrow> u128 res"
    \<comment> \<open>\<open>Uint128::checked_sub\<close>\<close>
  uint_mul_dec :: "u128 \<Rightarrow> decimal \<Rightarrow> u128 res"
    \<comment> \<open>\<open>Uint128 * Decimal\<close> and \<open>Decimal * Uint128\<close>\<close>
  dec_from_ratio :: "u128 \<Rightarrow> u128 \<Rightarrow> decimal res"
    \<comment> \<open>\<open>Decimal::from_ratio\<close>\<close>
  dec_add :: "decimal \<Rightarrow> decimal \<Rightarrow> decimal res"
    \<comment> \<open>\<open>Decimal + Decimal\<close>\<close>
  to_vec_u64 :: "u64 \<Rightarrow> byte list"
    \<comment> \<open>\<open>to_vec\<close> of an integer key; it does not fail\<close>
  from_slice_u64 :: "byte list \<Rightarrow> u64 res"
  to_vec_str :: "string \<Rightarrow> byte list"
    \<comment> \<open>\<open>to_vec\<close> of a string key; it does not fail\<close>
  from_slice_str :: "byte list \<Rightarrow> string res"
  from_binary_hook :: "byte list \<Rightarrow> cw20_hook_msg res"
    \<comment> \<open>\<open>from_binary::<Cw20HookMsg>\<close>\<close>
  addr_validate :: "string \<Rightarrow> addr res"
  addr_canonicalize :: "string \<Rightarrow> canonical_addr res"
  addr_humanize :: "canonical_addr \<Rightarrow> addr res"
  gen_range :: "u64 \<Rightarrow> nat \<Rightarrow> nat res"
    \<comment> \<open>\<open>XorShiftRng::seed_from_u64(seed).gen_range(0, n)\<close>\<close>
  admin_get :: "admin_cell \<Rightarrow> addr option res"
  admin_set :: "addr option \<Rightarrow> admin_cell res"
  admin_assert :: "admin_cell \<Rightarrow> addr \<Rightarrow> admin_error + unit"
  admin_execute_update ::
    "admin_cell \<Rightarrow> message_info \<Rightarrow> addr option \<Rightarrow> admin_error + (admin_cell \<times> response)"
  admin_query :: "admin_cell \<Rightarrow> string option res"

record querier =
  query_all_delegations :: "addr \<Rightarrow> delegation list res"
  query_delegation :: "addr \<Rightarrow> string \<Rightarrow> delegation option res"
  query_all_validators :: "validator_info list res"
  query_balance :: "addr \<Rightarrow> string \<Rightarrow> coin res"
  query_token_supply :: "string \<Rightarrow> u128 res"
    \<comment> \<open>the \<open>total_supply\<close> of a CW20 token's \<open>TokenInfo\<close>\<close>

section \<open>What the contracts rely on\<close>

text \<open>
  \<open>Uint128\<close> and \<open>Decimal\<close>: exact results, floor division, and a panic where the result does not
  fit 128 bits or the divisor is zero; \<open>checked_sub\<close> answers an error instead.
\<close>

locale uint_decimal =
  fixes L :: cw_lib
  assumes uint_add_iff: "uint_add L a b = Ok c \<longleftrightarrow> unat c = unat a + unat b"
    and uint_add_no_err: "\<not> is_err (uint_add L a b)"
    and checked_sub_iff: "uint_checked_sub L a b = Ok c \<longleftrightarrow> unat a = unat b + unat c"
    and checked_sub_err: "unat a < unat b \<Longrightarrow> is_err (uint_checked_sub L a b)"
    and mul_dec_iff: "uint_mul_dec L a d = Ok c \<longleftrightarrow> unat c = unat a * units d div E18"
    and mul_dec_no_err: "\<not> is_err (uint_mul_dec L a d)"
    and from_ratio_iff:
      "dec_from_ratio L a b = Ok d \<longleftrightarrow> 0 < unat b \<and> units d = unat a * E18 div unat b"
    and from_ratio_no_err: "\<not> is_err (dec_from_ratio L a b)"
    and dec_add_iff: "dec_add L d e = Ok f \<longleftrightarrow> units f = units d + units e"
    and dec_add_no_err: "\<not> is_err (dec_add L d e)"
begin

lemmas arith_iffs = uint_add_iff checked_sub_iff mul_dec_iff from_ratio_iff dec_add_iff

lemma uint_add_fits: "unat a + unat b < 2 ^ 128 \<Longrightarrow> uint_add L a b = Ok (a + b)"
  by (simp add: uint_add_iff unat_add_no_overflow)

lemma checked_sub_le: "b \<le> a \<Longrightarrow> uint_checked_sub L a b = Ok (a - b)"
  by (simp add: checked_sub_iff unat_sub_le word_le_nat_alt)

lemma checked_sub_not_ok: "a < b \<Longrightarrow> is_err (uint_checked_sub L a b)"
  by (rule checked_sub_err) (simp add: word_less_nat_alt)

lemma mul_dec_fits:
  assumes "unat a * units d div E18 < 2 ^ 128"
  shows "\<exists>c. uint_mul_dec L a d = Ok c \<and> unat c = unat a * units d div E18"
  by (rule exI [of _ "of_nat (unat a * units d div E18)"])
    (use assms in \<open>simp add: mul_dec_iff unat_of_nat\<close>)

text \<open>Taking at most the whole: a fraction of an amount always fits.\<close>

lemma mul_dec_le_one:
  assumes "d \<le> dec_one"
  shows "\<exists>c. uint_mul_dec L a d = Ok c \<and> c \<le> a"
proof -
  from assms have le: "unat a * units d div E18 \<le> unat a"
    by (intro mult_div_le) (simp add: decimal_le_units)
  then have "unat a * units d div E18 < 2 ^ 128"
    by (rule le_less_trans) (use unat_less_exp [of a] in simp)
  with le show ?thesis using mul_dec_fits [of a d] by (auto simp: word_le_nat_alt)
qed

lemma from_ratio_fits:
  assumes "0 < unat b" and "unat a * E18 div unat b < 2 ^ 128"
  shows "\<exists>d. dec_from_ratio L a b = Ok d \<and> units d = unat a * E18 div unat b"
  by (rule exI [of _ "Decimal (of_nat (unat a * E18 div unat b))"])
    (use assms in \<open>simp add: from_ratio_iff unat_of_nat\<close>)

lemma from_ratio_zero_panics: "is_panic (dec_from_ratio L a 0)"
  by (rule res_trichotomy) (auto simp: is_ok_iff from_ratio_iff from_ratio_no_err)

text \<open>An amount times a ratio of that amount never exceeds the numerator of the ratio.\<close>

lemma ratio_round_trip_le:
  assumes "dec_from_ratio L a b = Ok d" and "uint_mul_dec L b d = Ok c"
  shows "c \<le> a"
  using assms floor_ratio_times_le [of "unat b" "unat a" E18]
  by (simp add: arith_iffs word_le_nat_alt)

end

text \<open>The JSON encoding of keys is injective: decoding gives the key back.\<close>

locale key_codec =
  fixes L :: cw_lib
  assumes u64_round_trip: "from_slice_u64 L (to_vec_u64 L n) = Ok n"
    and str_round_trip: "from_slice_str L (to_vec_str L s) = Ok s"
begin

lemma to_vec_u64_inject [simp]: "to_vec_u64 L m = to_vec_u64 L n \<longleftrightarrow> m = n"
  by (metis res.inject(1) u64_round_trip)

lemma to_vec_str_inject [simp]: "to_vec_str L s = to_vec_str L t \<longleftrightarrow> s = t"
  by (metis res.inject(1) str_round_trip)

end

text \<open>
  The address API: validation returns the address unchanged, and a human-readable address that
  the API produced canonicalizes to the canonical address it came from.
\<close>

locale address_api =
  fixes L :: cw_lib
  assumes validate_same: "addr_validate L s = Ok a \<Longrightarrow> a = s"
    and humanize_canonicalize: "addr_humanize L c = Ok a \<Longrightarrow> addr_canonicalize L a = Ok c"

text \<open>A random index lies in the range; an empty range panics.\<close>

locale random_index =
  fixes L :: cw_lib
  assumes gen_range_in: "0 < n \<Longrightarrow> \<exists>i < n. gen_range L seed n = Ok i"
    and gen_range_empty: "is_panic (gen_range L seed 0)"
begin

lemma gen_range_Ok_less: "gen_range L seed n = Ok i \<Longrightarrow> i < n"
  using gen_range_in [of n seed] gen_range_empty [of seed] by (cases "n = 0") auto

end

text \<open>The admin controller: one stored address, checked before it is replaced.\<close>

locale admin_controller =
  fixes L :: cw_lib
  assumes admin_set_stores: "admin_set L a = Ok (Some a)"
    and admin_get_stored: "admin_get L (Some a) = Ok a"
    and admin_get_unset: "is_err (admin_get L None)"
    and admin_assert_stored:
      "admin_assert L (Some a) s = (if a = Some s then Inr () else Inl NotAdmin)"
    and admin_assert_unset: "\<exists>e. admin_assert L None s = Inl (AdminStd e)"
    and admin_update_rejected:
      "admin_assert L c (sender info) = Inl e \<Longrightarrow> admin_execute_update L c info a = Inl e"
    and admin_update_accepted:
      "admin_assert L c (sender info) = Inr () \<Longrightarrow>
         \<exists>r. admin_execute_update L c info a = Inr (Some a, r) \<and> messages r = []"
    and admin_query_stored: "admin_query L (Some a) = Ok a"
begin

lemma admin_assert_iff: "admin_assert L c s = Inr () \<longleftrightarrow> c = Some (Some s)"
  using admin_assert_unset [of s] by (cases c) (auto simp: admin_assert_stored split: if_splits)

end

text \<open>Everything the hub relies on.\<close>

locale cosmwasm =
  uint_decimal L + key_codec L + address_api L + random_index L + admin_controller L
  for L :: cw_lib

section \<open>An executable instance\<close>

definition ref_narrow :: "nat \<Rightarrow> u128 res" where
  "ref_narrow n = (if n < 2 ^ 128 then Ok (of_nat n) else Panic ''overflow'')"

definition ref_checked_sub :: "u128 \<Rightarrow> u128 \<Rightarrow> u128 res" where
  "ref_checked_sub a b = (if b \<le> a then Ok (a - b) else Err OverflowErr)"

definition ref_mul_dec :: "u128 \<Rightarrow> decimal \<Rightarrow> u128 res" where
  "ref_mul_dec a d = ref_narrow (unat a * units d div E18)"

definition ref_from_ratio :: "u128 \<Rightarrow> u128 \<Rightarrow> decimal res" where
  "ref_from_ratio a b =
     (if b = 0 then Panic ''Denominator must not be zero''
      else and_then (ref_narrow (unat a * E18 div unat b)) (\<lambda>n. Ok (Decimal n)))"

definition char_byte :: "char \<Rightarrow> byte" where
  "char_byte c = of_nat (of_char c)"

definition byte_char :: "byte \<Rightarrow> char" where
  "byte_char b = char_of (unat b)"

definition ref_from_slice_u64 :: "byte list \<Rightarrow> u64 res" where
  "ref_from_slice_u64 bs =
     (case read_nat (map byte_char bs) of
        Some n \<Rightarrow> if bs \<noteq> [] \<and> n < 2 ^ 64 then Ok (of_nat n) else Err (ParseErr ''u64'')
      | None \<Rightarrow> Err (ParseErr ''u64''))"

definition ref_admin_assert :: "admin_cell \<Rightarrow> addr \<Rightarrow> admin_error + unit" where
  "ref_admin_assert c s =
     (case c of None \<Rightarrow> Inl (AdminStd (NotFound ''admin''))
      | Some a \<Rightarrow> if a = Some s then Inr () else Inl NotAdmin)"

definition ref_lib :: cw_lib where
  "ref_lib =
     \<lparr>uint_add = (\<lambda>a b. ref_narrow (unat a + unat b)),
      uint_checked_sub = ref_checked_sub,
      uint_mul_dec = ref_mul_dec,
      dec_from_ratio = ref_from_ratio,
      dec_add = (\<lambda>d e. and_then (ref_narrow (units d + units e)) (\<lambda>n. Ok (Decimal n))),
      to_vec_u64 = (\<lambda>n. map char_byte (show_nat (unat n))),
      from_slice_u64 = ref_from_slice_u64,
      to_vec_str = (\<lambda>s. 34 # map char_byte s @ [34]),
      from_slice_str = (\<lambda>bs. Ok (map byte_char (butlast (tl bs)))),
      from_binary_hook = (\<lambda>bs. if bs = [] then Err (ParseErr ''hook'') else Ok Unbond),
      addr_validate = (\<lambda>s. if s = [] then Err (GenericErr ''empty address'') else Ok s),
      addr_canonicalize =
        (\<lambda>s. if s = [] then Err (GenericErr ''empty address'') else Ok (map char_byte s)),
      addr_humanize =
        (\<lambda>c. if c = [] then Err (GenericErr ''empty address'') else Ok (map byte_char c)),
      gen_range =
        (\<lambda>seed n. if n = 0 then Panic ''empty range'' else Ok (unat seed mod n)),
      admin_get = (\<lambda>c. ok_or (NotFound ''admin'') c),
      admin_set = (\<lambda>a. Ok (Some a)),
      admin_assert = ref_admin_assert,
      admin_execute_update =
        (\<lambda>c info a. case ref_admin_assert c (sender info) of Inl e \<Rightarrow> Inl e
                     | Inr _ \<Rightarrow> Inr (Some a, respond [] [])),
      admin_query = (\<lambda>c. ok_or (NotFound ''admin'') c)\<rparr>"

lemma ref_lib_sel [simp]:
  "uint_add ref_lib = (\<lambda>a b. ref_narrow (unat a + unat b))"
  "uint_checked_sub ref_lib = ref_checked_sub"
  "uint_mul_dec ref_lib = ref_mul_dec"
  "dec_from_ratio ref_lib = ref_from_ratio"
  "dec_add ref_lib = (\<lambda>d e. and_then (ref_narrow (units d + units e)) (\<lambda>n. Ok (Decimal n)))"
  "to_vec_u64 ref_lib = (\<lambda>n. map char_byte (show_nat (unat n)))"
  "from_slice_u64 ref_lib = ref_from_slice_u64"
  "to_vec_str ref_lib = (\<lambda>s. 34 # map char_byte s @ [34])"
  "from_slice_str ref_lib = (\<lambda>bs. Ok (map byte_char (butlast (tl bs))))"
  "from_binary_hook ref_lib = (\<lambda>bs. if bs = [] then Err (ParseErr ''hook'') else Ok Unbond)"
  "addr_validate ref_lib = (\<lambda>s. if s = [] then Err (GenericErr ''empty address'') else Ok s)"
  "addr_canonicalize ref_lib =
     (\<lambda>s. if s = [] then Err (GenericErr ''empty address'') else Ok (map char_byte s))"
  "addr_humanize ref_lib =
     (\<lambda>c. if c = [] then Err (GenericErr ''empty address'') else Ok (map byte_char c))"
  "gen_range ref_lib =
     (\<lambda>seed n. if n = 0 then Panic ''empty range'' else Ok (unat seed mod n))"
  "admin_get ref_lib = ok_or (NotFound ''admin'')"
  "admin_set ref_lib = (\<lambda>a. Ok (Some a))"
  "admin_assert ref_lib = ref_admin_assert"
  "admin_execute_update ref_lib =
     (\<lambda>c info a. case ref_admin_assert c (sender info) of Inl e \<Rightarrow> Inl e
                  | Inr _ \<Rightarrow> Inr (Some a, respond [] []))"
  "admin_query ref_lib = ok_or (NotFound ''admin'')"
  by (simp_all add: ref_lib_def fun_eq_iff)

lemmas ref_lib_defs =
  ref_narrow_def ref_checked_sub_def ref_mul_dec_def ref_from_ratio_def
  ref_from_slice_u64_def ref_admin_assert_def

declare ref_lib_defs [eval_defs]

lemma ref_narrow_iff: "ref_narrow n = Ok c \<longleftrightarrow> unat c = n"
  by (auto simp: ref_narrow_def unat_of_nat word_unat_eq_iff)

lemma ref_narrow_no_err: "\<not> is_err (ref_narrow n)"
  by (simp add: ref_narrow_def)

lemma byte_char_inverse [simp]: "byte_char (char_byte c) = c"
  by (simp add: byte_char_def char_byte_def unat_of_nat)

lemma char_byte_inject [simp]: "char_byte c = char_byte d \<longleftrightarrow> c = d"
  by (metis byte_char_inverse)

lemma char_byte_inverse [simp]: "char_byte (byte_char b) = b"
  by (simp add: byte_char_def char_byte_def)

interpretation ref_uint: uint_decimal ref_lib
proof (unfold_locales, goal_cases)
  case (3 a b c)
  show ?case
    by (auto simp: ref_checked_sub_def word_le_nat_alt unat_sub_le word_unat_eq_iff)
next
  case (4 a b)
  then show ?case by (simp add: ref_checked_sub_def word_le_nat_alt)
next
  case (7 a b d)
  show ?case
    by (cases d) (auto simp: ref_from_ratio_def and_then_eq_Ok ref_narrow_iff unat_gt_0)
next
  case (8 a b)
  show ?case by (simp add: ref_from_ratio_def and_then_is_err ref_narrow_no_err)
next
  case (9 d e f)
  show ?case by (cases f) (auto simp: and_then_eq_Ok ref_narrow_iff)
next
  case (10 d e)
  show ?case by (simp add: and_then_is_err ref_narrow_no_err)
qed (simp_all add: ref_mul_dec_def ref_narrow_iff ref_narrow_no_err)

interpretation ref_codec: key_codec ref_lib
  by unfold_locales (simp_all add: ref_from_slice_u64_def o_def)

interpretation ref_api: address_api ref_lib
  by unfold_locales (auto simp: o_def split: if_splits)

interpretation ref_rng: random_index ref_lib
  by unfold_locales auto

interpretation ref_admin: admin_controller ref_lib
  by unfold_locales
    (auto simp: ref_admin_assert_def split: sum.splits option.splits if_splits)

interpretation ref: cosmwasm ref_lib ..

lemmas cosmwasm_ref_lib = ref.cosmwasm_axioms

end
