(* ===== verification/HubStore.thy ===== *)
theory HubStore
  imports Host
begin

text \<open>
  \<open>contracts/prism_hub/src/state.rs\<close>, the storage of the hub and the functions over it, together
  with \<open>State::update_exchange_rate\<close> of \<open>packages/prism-protocol/src/hub.rs\<close>. A storage item is a
  cell that may be unset; the wait list is one byte store per sender key, the unbond history and
  the validator whitelist are one byte store each. Values are stored typed; the encoding of keys is
  kept, because it fixes the order in which a store is iterated.
\<close>

section \<open>Storage\<close>

text \<open>
  The cell under the key \<open>config\<close> holds the current layout or, before the migration, the legacy one
  of \<open>migration.rs\<close>. Reading a legacy cell as \<open>Config\<close> fails for the missing field; reading a
  current cell as \<open>LegacyConfig\<close> keeps the two fields the layouts share.
\<close>

record legacy_config =
  lc_token_contract :: "canonical_addr option"
  lc_protocol_fee_collector :: "canonical_addr option"

datatype config_cell = CurrentConfig hub_config | LegacyConfig legacy_config

record hub_storage =
  PAUSE :: "bool option"
  ADMIN :: admin_cell
  CONFIG :: "config_cell option"
  PARAMETERS :: "parameters option"
  CURRENT_BATCH :: "current_batch option"
  STATE :: "hub_state option"
  WAIT :: "byte list \<Rightarrow> u128 kv"
  HISTORY :: "unbond_history kv"
  VALIDATORS :: "bool kv"

definition empty_storage :: hub_storage where
  "empty_storage =
     \<lparr>PAUSE = None, ADMIN = None, CONFIG = None, PARAMETERS = None, CURRENT_BATCH = None,
      STATE = None, WAIT = (\<lambda>_. []), HISTORY = [], VALIDATORS = []\<rparr>"

text \<open>\<open>Item::load\<close>.\<close>

definition load :: "string \<Rightarrow> 'a option \<Rightarrow> 'a res" where
  "load name cell = ok_or (NotFound name) cell"

definition load_config :: "hub_storage \<Rightarrow> hub_config res" where
  "load_config st =
     and_then (load ''Config'' (CONFIG st)) (\<lambda>c.
     case c of CurrentConfig cfg \<Rightarrow> Ok cfg
             | LegacyConfig _ \<Rightarrow> Err (ParseErr ''missing field token_contract_registered''))"

lemma load_eq_Ok [res_simps]: "load name cell = Ok x \<longleftrightarrow> cell = Some x"
  by (simp add: load_def res_simps)

lemma load_simps [simp]:
  "load name (Some x) = Ok x" "load name None = Err (NotFound name)"
  by (simp_all add: load_def)

lemma load_config_eq_Ok [res_simps]: "load_config st = Ok c \<longleftrightarrow> CONFIG st = Some (CurrentConfig c)"
  by (cases "CONFIG st"; simp add: load_config_def split: config_cell.splits)

section \<open>The exchange rate\<close>

definition update_exchange_rate :: "cw_lib \<Rightarrow> hub_state \<Rightarrow> u128 \<Rightarrow> u128 \<Rightarrow> hub_state res" where
  "update_exchange_rate L self total_issued requested =
     and_then (uint_add L total_issued requested) (\<lambda>actual_supply.
     if total_bond_amount self = 0 \<or> actual_supply = 0
     then Ok (self\<lparr>exchange_rate := dec_one\<rparr>)
     else and_then (dec_from_ratio L (total_bond_amount self) actual_supply) (\<lambda>r.
          Ok (self\<lparr>exchange_rate := r\<rparr>)))"

section \<open>The wait list\<close>

definition store_unbond_wait_list ::
  "cw_lib \<Rightarrow> hub_storage \<Rightarrow> u64 \<Rightarrow> string \<Rightarrow> u128 \<Rightarrow> hub_storage res" where
  "store_unbond_wait_list L st batch_id sender_address amount =
     (let batch = to_vec_u64 L batch_id;
          addr = to_vec_str L sender_address;
          position_indexer = WAIT st addr;
          asked_already = kv_get position_indexer batch
      in and_then (uint_add L (case asked_already of None \<Rightarrow> 0 | Some v \<Rightarrow> v) amount) (\<lambda>v.
         Ok (st\<lparr>WAIT := (WAIT st)(addr := kv_put position_indexer batch v)\<rparr>)))"

fun remove_batches :: "cw_lib \<Rightarrow> u128 kv \<Rightarrow> u64 list \<Rightarrow> u128 kv" where
  "remove_batches L bucket [] = bucket"
| "remove_batches L bucket (b # bs) = remove_batches L (kv_remove bucket (to_vec_u64 L b)) bs"

definition remove_unbond_wait_list ::
  "cw_lib \<Rightarrow> hub_storage \<Rightarrow> u64 list \<Rightarrow> addr \<Rightarrow> hub_storage res" where
  "remove_unbond_wait_list L st batch_ids sender_address =
     (let addr = to_vec_str L sender_address
      in Ok (st\<lparr>WAIT := (WAIT st)(addr := remove_batches L (WAIT st addr) batch_ids)\<rparr>))"

definition read_unbond_wait_list :: "cw_lib \<Rightarrow> hub_storage \<Rightarrow> u64 \<Rightarrow> string \<Rightarrow> u128 res" where
  "read_unbond_wait_list L st batch_id sender_addr =
     load ''Uint128'' (kv_get (WAIT st (to_vec_str L sender_addr)) (to_vec_u64 L batch_id))"

section \<open>The unbond history\<close>

definition store_unbond_history :: "hub_storage \<Rightarrow> u64 \<Rightarrow> unbond_history \<Rightarrow> hub_storage res" where
  "store_unbond_history st batch_id history =
     Ok (st\<lparr>HISTORY := kv_put (HISTORY st) (to_be_bytes batch_id) history\<rparr>)"

definition read_unbond_history :: "hub_storage \<Rightarrow> u64 \<Rightarrow> unbond_history res" where
  "read_unbond_history st epoc_id =
     ok_or (GenericErr ''Burn requests not found for the specified time period'')
       (kv_get (HISTORY st) (to_be_bytes epoc_id))"

definition MAX_LIMIT :: u32 where
  "MAX_LIMIT = 100"

definition DEFAULT_LIMIT :: u32 where
  "DEFAULT_LIMIT = 10"

definition convert :: "u64 option \<Rightarrow> byte list option" where
  "convert start_after = map_option (\<lambda>idx. to_be_bytes idx @ [1]) start_after"

definition all_unbond_history ::
  "hub_storage \<Rightarrow> u64 option \<Rightarrow> u32 option \<Rightarrow> unbond_history list res" where
  "all_unbond_history st start limit =
     (let vec = convert start;
          lim = unat (min (case limit of None \<Rightarrow> DEFAULT_LIMIT | Some l \<Rightarrow> l) MAX_LIMIT)
      in Ok (map snd (take lim (kv_range (HISTORY st) vec))))"

section \<open>Loops over a sender's wait list\<close>

definition get_unbond_requests :: "cw_lib \<Rightarrow> hub_storage \<Rightarrow> string \<Rightarrow> unbond_request res" where
  "get_unbond_requests L st sender_addr =
     fold_res (\<lambda>(k, value) requests.
       and_then (unwrap (from_slice_u64 L k)) (\<lambda>user_batch. Ok (requests @ [(user_batch, value)])))
       (kv_range (WAIT st (to_vec_str L sender_addr)) None) []"

definition get_unbond_batches :: "cw_lib \<Rightarrow> hub_storage \<Rightarrow> string \<Rightarrow> u64 list res" where
  "get_unbond_batches L st sender_addr =
     fold_res (\<lambda>(k, _) deprecated_batches.
       and_then (unwrap (from_slice_u64 L k)) (\<lambda>user_batch.
       case read_unbond_history st user_batch of
         Ok h \<Rightarrow> Ok (if released h then deprecated_batches @ [user_batch] else deprecated_batches)
       | Err _ \<Rightarrow> Ok deprecated_batches
       | Panic p \<Rightarrow> Panic p))
       (kv_range (WAIT st (to_vec_str L sender_addr)) None) []"

definition get_finished_amount :: "cw_lib \<Rightarrow> hub_storage \<Rightarrow> string \<Rightarrow> u128 res" where
  "get_finished_amount L st sender_addr =
     fold_res (\<lambda>(k, v) withdrawable_amount.
       and_then (unwrap (from_slice_u64 L k)) (\<lambda>user_batch.
       case read_unbond_history st user_batch of
         Ok h \<Rightarrow> if released h
                 then and_then (uint_mul_dec L v (withdraw_rate h)) (uint_add L withdrawable_amount)
                 else Ok withdrawable_amount
       | Err _ \<Rightarrow> Ok withdrawable_amount
       | Panic p \<Rightarrow> Panic p))
       (kv_range (WAIT st (to_vec_str L sender_addr)) None) 0"

definition query_get_finished_amount ::
  "cw_lib \<Rightarrow> hub_storage \<Rightarrow> string \<Rightarrow> u64 \<Rightarrow> u128 res" where
  "query_get_finished_amount L st sender_addr block_time =
     fold_res (\<lambda>(k, v) withdrawable_amount.
       and_then (unwrap (from_slice_u64 L k)) (\<lambda>user_batch.
       case read_unbond_history st user_batch of
         Ok h \<Rightarrow> if hist_time h < block_time
                 then and_then (uint_mul_dec L v (withdraw_rate h)) (uint_add L withdrawable_amount)
                 else Ok withdrawable_amount
       | Err _ \<Rightarrow> Ok withdrawable_amount
       | Panic p \<Rightarrow> Panic p))
       (kv_range (WAIT st (to_vec_str L sender_addr)) None) 0"

section \<open>The validator whitelist\<close>

definition store_white_validators :: "cw_lib \<Rightarrow> hub_storage \<Rightarrow> string \<Rightarrow> hub_storage res" where
  "store_white_validators L st validator_address =
     Ok (st\<lparr>VALIDATORS := kv_put (VALIDATORS st) (to_vec_str L validator_address) True\<rparr>)"

definition remove_white_validators :: "cw_lib \<Rightarrow> hub_storage \<Rightarrow> string \<Rightarrow> hub_storage res" where
  "remove_white_validators L st validator_address =
     Ok (st\<lparr>VALIDATORS := kv_remove (VALIDATORS st) (to_vec_str L validator_address)\<rparr>)"

definition read_validators :: "cw_lib \<Rightarrow> hub_storage \<Rightarrow> string list res" where
  "read_validators L st =
     fold_res (\<lambda>(key, _) validators.
       and_then (unwrap (from_slice_str L key)) (\<lambda>sender. Ok (validators @ [sender])))
       (kv_range (VALIDATORS st) None) []"

definition is_valid_validator :: "cw_lib \<Rightarrow> hub_storage \<Rightarrow> string \<Rightarrow> bool res" where
  "is_valid_validator L st validator_address =
     (case kv_get (VALIDATORS st) (to_vec_str L validator_address) of
        Some _ \<Rightarrow> Ok True
      | None \<Rightarrow> Ok False)"

lemmas hub_store_defs =
  empty_storage_def load_config_def update_exchange_rate_def store_unbond_wait_list_def
  remove_unbond_wait_list_def read_unbond_wait_list_def store_unbond_history_def
  read_unbond_history_def MAX_LIMIT_def DEFAULT_LIMIT_def convert_def all_unbond_history_def
  get_unbond_requests_def get_unbond_batches_def get_finished_amount_def
  query_get_finished_amount_def store_white_validators_def remove_white_validators_def
  read_validators_def is_valid_validator_def

declare hub_store_defs [eval_defs]

section \<open>Well-formed stores\<close>

text \<open>
  History entries are filed under the big-endian bytes of their own batch id; wait-list entries
  under the encoding of a batch id; whitelist entries under the encoding of an address.
\<close>

definition history_ok :: "unbond_history kv \<Rightarrow> bool" where
  "history_ok s = (kv_ok s \<and> (\<forall>(k, h) \<in> set s. k = to_be_bytes (hist_batch_id h)))"

definition bucket_ok :: "cw_lib \<Rightarrow> u128 kv \<Rightarrow> bool" where
  "bucket_ok L s = (kv_ok s \<and> (\<forall>k \<in> fst ` set s. \<exists>b. k = to_vec_u64 L b))"

definition whitelist_ok :: "cw_lib \<Rightarrow> bool kv \<Rightarrow> bool" where
  "whitelist_ok L s = (kv_ok s \<and> (\<forall>k \<in> fst ` set s. \<exists>v. k = to_vec_str L v))"

lemma history_ok_Nil [simp]: "history_ok []"
  by (simp add: history_ok_def kv_ok_def)

lemma bucket_ok_Nil [simp]: "bucket_ok L []"
  by (simp add: bucket_ok_def kv_ok_def)

lemma whitelist_ok_Nil [simp]: "whitelist_ok L []"
  by (simp add: whitelist_ok_def kv_ok_def)

lemma history_ok_put:
  assumes "history_ok s" and "hist_batch_id h = b"
  shows "history_ok (kv_put s (to_be_bytes b) h)"
proof -
  have "k = to_be_bytes (hist_batch_id g)" if "(k, g) \<in> set (kv_put s (to_be_bytes b) h)" for k g
    using that assms by (auto simp: history_ok_def kv_entries_get split: if_splits)
  with assms show ?thesis by (auto simp: history_ok_def)
qed

lemma bucket_ok_put: "bucket_ok L s \<Longrightarrow> bucket_ok L (kv_put s (to_vec_u64 L b) v)"
  by (auto simp: bucket_ok_def set_kv_put)

lemma bucket_ok_remove: "bucket_ok L s \<Longrightarrow> bucket_ok L (kv_remove s k)"
  by (auto simp: bucket_ok_def kv_remove_def intro: kv_ok_remove [unfolded kv_remove_def])

lemma bucket_ok_remove_batches: "bucket_ok L s \<Longrightarrow> bucket_ok L (remove_batches L s bs)"
  by (induction L s bs rule: remove_batches.induct) (simp_all add: bucket_ok_remove)

lemma whitelist_ok_put: "whitelist_ok L s \<Longrightarrow> whitelist_ok L (kv_put s (to_vec_str L v) x)"
  by (auto simp: whitelist_ok_def set_kv_put)

lemma whitelist_ok_remove: "whitelist_ok L s \<Longrightarrow> whitelist_ok L (kv_remove s k)"
  by (auto simp: whitelist_ok_def kv_remove_def intro: kv_ok_remove [unfolded kv_remove_def])

lemma kv_get_remove_batches:
  "kv_get (remove_batches L s bs) k = (if k \<in> to_vec_u64 L ` set bs then None else kv_get s k)"
  by (induction L s bs rule: remove_batches.induct) auto

lemma remove_batches_Nil [simp]: "remove_batches L [] bs = []"
  by (induction bs) (simp_all add: kv_remove_def)

section \<open>The exchange rate, exactly\<close>

text \<open>
  The reference rate in \<open>10^-18\<close> units: one when nothing is bonded or nothing is issued, else the
  bonded amount per issued token, rounded down.
\<close>

definition rate_units :: "nat \<Rightarrow> nat \<Rightarrow> nat" where
  "rate_units bonded supply = (if bonded = 0 \<or> supply = 0 then E18 else bonded * E18 div supply)"

context uint_decimal
begin

lemma update_exchange_rate_OkD:
  assumes "update_exchange_rate L s ti rq = Ok s'"
  shows "\<exists>r. s' = s\<lparr>exchange_rate := r\<rparr>
     \<and> units r = rate_units (unat (total_bond_amount s)) (unat ti + unat rq)"
proof -
  obtain sup where sup: "unat sup = unat ti + unat rq"
    and s': "(if total_bond_amount s = 0 \<or> sup = 0 then Ok (s\<lparr>exchange_rate := dec_one\<rparr>)
      else and_then (dec_from_ratio L (total_bond_amount s) sup) (\<lambda>r. Ok (s\<lparr>exchange_rate := r\<rparr>)))
      = Ok s'"
    using assms by (auto simp: update_exchange_rate_def uint_add_iff)
  have "sup = 0 \<longleftrightarrow> unat ti + unat rq = 0" using sup by (metis unat_eq_zero)
  with s' sup show ?thesis
    by (auto simp: rate_units_def from_ratio_iff unat_eq_zero split: if_splits)
qed

lemma update_exchange_rate_fits:
  assumes "unat ti + unat rq < 2 ^ 128"
    and "unat (total_bond_amount s) * E18 div (unat ti + unat rq) < 2 ^ 128"
  shows "\<exists>s'. update_exchange_rate L s ti rq = Ok s'"
proof -
  have add: "uint_add L ti rq = Ok (ti + rq)" using assms(1) by (rule uint_add_fits)
  then have "unat (ti + rq) = unat ti + unat rq" by (simp add: uint_add_iff)
  with assms(2) have "\<exists>d. dec_from_ratio L (total_bond_amount s) (ti + rq) = Ok d" if "ti + rq \<noteq> 0"
    using from_ratio_fits [of "ti + rq" "total_bond_amount s"] that unat_gt_0 [of "ti + rq"] by auto
  with add show ?thesis by (auto simp: update_exchange_rate_def)
qed

end

section \<open>Amounts in the wait list\<close>

text \<open>What a sender key has waiting in a batch.\<close>

definition waiting :: "cw_lib \<Rightarrow> hub_storage \<Rightarrow> byte list \<Rightarrow> u64 \<Rightarrow> nat" where
  "waiting L st a b = (case kv_get (WAIT st a) (to_vec_u64 L b) of None \<Rightarrow> 0 | Some v \<Rightarrow> unat v)"

text \<open>What a waiting amount is worth once its batch is released, and the sum over a sender.\<close>

definition claim_value :: "unbond_history kv \<Rightarrow> u64 \<Rightarrow> nat \<Rightarrow> nat" where
  "claim_value hist b v =
     (case kv_get hist (to_be_bytes b) of
        Some h \<Rightarrow> if released h then v * units (withdraw_rate h) div E18 else 0
      | None \<Rightarrow> 0)"

definition finished_total :: "cw_lib \<Rightarrow> hub_storage \<Rightarrow> byte list \<Rightarrow> nat" where
  "finished_total L st a =
     (\<Sum>(k, v)\<leftarrow>WAIT st a. case from_slice_u64 L k of Ok b \<Rightarrow> claim_value (HISTORY st) b (unat v)
        | Err _ \<Rightarrow> 0 | Panic _ \<Rightarrow> 0)"

lemma read_unbond_history_eq_Ok [res_simps]:
  "read_unbond_history st b = Ok h \<longleftrightarrow> kv_get (HISTORY st) (to_be_bytes b) = Some h"
  by (simp add: read_unbond_history_def res_simps)

lemma read_unbond_history_not_panic [simp]: "read_unbond_history st b \<noteq> Panic p"
  by (cases "kv_get (HISTORY st) (to_be_bytes b)") (simp_all add: read_unbond_history_def)

lemma read_unbond_history_eq_Err:
  "read_unbond_history st b = Err e \<Longrightarrow> kv_get (HISTORY st) (to_be_bytes b) = None"
  by (cases "kv_get (HISTORY st) (to_be_bytes b)") (simp_all add: read_unbond_history_def)

lemma history_ok_get: "history_ok s \<Longrightarrow> kv_get s (to_be_bytes b) = Some h \<Longrightarrow> hist_batch_id h = b"
  by (auto simp: history_ok_def kv_entries_get [symmetric])

context cosmwasm
begin

lemma store_unbond_wait_list_OkD:
  assumes "store_unbond_wait_list L st b u amt = Ok st'"
  shows "\<exists>W. st' = st\<lparr>WAIT := W\<rparr>"
    and "waiting L st' a b' =
      waiting L st a b' + (if a = to_vec_str L u \<and> b' = b then unat amt else 0)"
    and "(\<forall>a. bucket_ok L (WAIT st a)) \<Longrightarrow> bucket_ok L (WAIT st' a)"
    and "WAIT st' a = [] \<Longrightarrow> WAIT st a = []"
    and "a \<noteq> to_vec_str L u \<Longrightarrow> WAIT st' a = WAIT st a"
proof -
  let ?s = "WAIT st (to_vec_str L u)"
  obtain v where v: "unat v = waiting L st (to_vec_str L u) b + unat amt"
    and st': "st' = st\<lparr>WAIT := (WAIT st)(to_vec_str L u := kv_put ?s (to_vec_u64 L b) v)\<rparr>"
    using assms
    by (auto simp: store_unbond_wait_list_def Let_def uint_add_iff waiting_def split: option.splits)
  show "\<exists>W. st' = st\<lparr>WAIT := W\<rparr>" using st' by blast
  show "waiting L st' a b' =
      waiting L st a b' + (if a = to_vec_str L u \<and> b' = b then unat amt else 0)"
    using v by (simp add: st' waiting_def)
  show "(\<forall>a. bucket_ok L (WAIT st a)) \<Longrightarrow> bucket_ok L (WAIT st' a)"
    by (simp add: st' bucket_ok_put)
  show "WAIT st' a = [] \<Longrightarrow> WAIT st a = []"
    using set_kv_put [of ?s "to_vec_u64 L b" v] by (auto simp: st' split: if_splits)
  show "a \<noteq> to_vec_str L u \<Longrightarrow> WAIT st' a = WAIT st a" by (simp add: st')
qed

lemma get_finished_amount_value:
  assumes "get_finished_amount L st u = Ok w"
  shows "unat w = finished_total L st (to_vec_str L u)"
proof -
  have "unat w = unat (0 :: u128) + finished_total L st (to_vec_str L u)"
    unfolding finished_total_def
    by (rule fold_res_sum [OF assms [unfolded get_finished_amount_def kv_range_def option.case]])
      (auto simp: res_simps arith_iffs claim_value_def read_unbond_history_eq_Err
        split: res.splits if_splits)
  then show ?thesis by simp
qed

lemma get_finished_amount_fits:
  assumes "bucket_ok L (WAIT st (to_vec_str L u))"
    and "finished_total L st (to_vec_str L u) < 2 ^ 128"
  shows "\<exists>w. get_finished_amount L st u = Ok w"
proof -
  have "\<exists>w. fold_res (\<lambda>(k, v) acc.
       and_then (unwrap (from_slice_u64 L k)) (\<lambda>b.
       case read_unbond_history st b of
         Ok h \<Rightarrow> if released h then and_then (uint_mul_dec L v (withdraw_rate h)) (uint_add L acc)
                 else Ok acc
       | Err _ \<Rightarrow> Ok acc
       | Panic p \<Rightarrow> Panic p)) s acc = Ok w"
    if "\<forall>k \<in> fst ` set s. \<exists>b. k = to_vec_u64 L b"
      and "unat acc + (\<Sum>(k, v)\<leftarrow>s. case from_slice_u64 L k of
            Ok b \<Rightarrow> claim_value (HISTORY st) b (unat v) | Err _ \<Rightarrow> 0 | Panic _ \<Rightarrow> 0) < 2 ^ 128"
    for s and acc :: u128
    using that
  proof (induction s arbitrary: acc)
    case Nil
    then show ?case by simp
  next
    case (Cons e s)
    then obtain b v where e: "e = (to_vec_u64 L b, v)" by (cases e) auto
    show ?case
    proof (cases "\<exists>h. read_unbond_history st b = Ok h \<and> released h")
      case True
      then obtain h where h: "kv_get (HISTORY st) (to_be_bytes b) = Some h" "released h"
        by (auto simp: res_simps)
      let ?c = "unat v * units (withdraw_rate h) div E18"
      from Cons.prems(2) have fits: "unat acc + ?c < 2 ^ 128"
        by (simp add: e u64_round_trip claim_value_def h)
      then obtain c where c: "uint_mul_dec L v (withdraw_rate h) = Ok c" "unat c = ?c"
        using mul_dec_fits [of v "withdraw_rate h"] by auto
      with fits have add: "uint_add L acc c = Ok (acc + c)" "unat (acc + c) = unat acc + ?c"
        using uint_add_fits [of acc c] by (auto simp: uint_add_iff)
      show ?thesis
        using Cons.IH [of "acc + c"] Cons.prems h c add
        by (auto simp: e u64_round_trip claim_value_def read_unbond_history_def)
    next
      case False
      then have "claim_value (HISTORY st) b (unat v) = 0"
        by (auto simp: claim_value_def res_simps split: option.splits)
      then show ?thesis
        using Cons False
        by (cases "kv_get (HISTORY st) (to_be_bytes b)")
          (auto simp: e u64_round_trip read_unbond_history_def)
    qed
  qed
  from this [of "WAIT st (to_vec_str L u)" 0] assms show ?thesis
    by (simp add: get_finished_amount_def kv_range_def bucket_ok_def finished_total_def)
qed

lemma get_unbond_batches_set:
  assumes "get_unbond_batches L st u = Ok bs" and "bucket_ok L (WAIT st (to_vec_str L u))"
  shows "b \<in> set bs \<longleftrightarrow> (\<exists>v. kv_get (WAIT st (to_vec_str L u)) (to_vec_u64 L b) = Some v)
           \<and> (\<exists>h. kv_get (HISTORY st) (to_be_bytes b) = Some h \<and> released h)"
proof -
  let ?rel = "\<lambda>b. \<exists>h. kv_get (HISTORY st) (to_be_bytes b) = Some h \<and> released h"
  have "set bs = set acc \<union> {b. ?rel b \<and> to_vec_u64 L b \<in> fst ` set s}"
    if "fold_res (\<lambda>(k, _) acc.
       and_then (unwrap (from_slice_u64 L k)) (\<lambda>b.
       case read_unbond_history st b of
         Ok h \<Rightarrow> Ok (if released h then acc @ [b] else acc)
       | Err _ \<Rightarrow> Ok acc
       | Panic p \<Rightarrow> Panic p)) s acc = Ok bs"
      and "\<forall>k \<in> fst ` set s. \<exists>b. k = to_vec_u64 L b" for s and acc :: "u64 list"
    using that
  proof (induction s arbitrary: acc)
    case Nil
    then show ?case by simp
  next
    case (Cons e s)
    then obtain b v where e: "e = (to_vec_u64 L b, v)" by (cases e) auto
    show ?case
      using Cons.prems Cons.IH
      by (cases "kv_get (HISTORY st) (to_be_bytes b)")
        (auto simp: e u64_round_trip read_unbond_history_def split: if_splits)
  qed
  from this [OF assms(1) [unfolded get_unbond_batches_def kv_range_def option.case]] assms(2)
  show ?thesis by (auto simp: bucket_ok_def kv.dom_get [symmetric] dom_def)
qed

lemma read_validators_Ok:
  assumes "whitelist_ok L (VALIDATORS st)"
  shows "\<exists>vs. read_validators L st = Ok vs \<and> map (to_vec_str L) vs = map fst (VALIDATORS st)"
proof -
  have "\<exists>vs. fold_res (\<lambda>(key, _) acc.
      and_then (unwrap (from_slice_str L key)) (\<lambda>v. Ok (acc @ [v]))) s acc = Ok (acc @ vs)
      \<and> map (to_vec_str L) vs = map fst s"
    if "\<forall>k \<in> fst ` set s. \<exists>v. k = to_vec_str L v" for s :: "bool kv" and acc
    using that
  proof (induction s arbitrary: acc)
    case Nil
    then show ?case by simp
  next
    case (Cons e s)
    then obtain v x where e: "e = (to_vec_str L v, x)" by (cases e) auto
    from Cons.prems have "\<forall>k \<in> fst ` set s. \<exists>v. k = to_vec_str L v" by simp
    then obtain vs where "fold_res (\<lambda>(key, _) acc.
      and_then (unwrap (from_slice_str L key)) (\<lambda>v. Ok (acc @ [v]))) s (acc @ [v])
      = Ok ((acc @ [v]) @ vs)" "map (to_vec_str L) vs = map fst s"
      using Cons.IH [of "acc @ [v]"] by blast
    then show ?case by (intro exI [of _ "v # vs"]) (simp add: e str_round_trip)
  qed
  from this [of "VALIDATORS st" "[]"] assms show ?thesis
    by (simp add: read_validators_def kv_range_def whitelist_ok_def)
qed

lemma read_validators_set:
  assumes "whitelist_ok L (VALIDATORS st)" and "read_validators L st = Ok vs"
  shows "v \<in> set vs \<longleftrightarrow> kv_get (VALIDATORS st) (to_vec_str L v) \<noteq> None"
    and "distinct vs" and "length vs = length (VALIDATORS st)"
proof -
  from read_validators_Ok [OF assms(1)] assms(2)
  have eq: "map (to_vec_str L) vs = map fst (VALIDATORS st)" by auto
  from assms(1) have ok: "kv_ok (VALIDATORS st)" by (simp add: whitelist_ok_def)
  have "v \<in> set vs \<longleftrightarrow> to_vec_str L v \<in> set (map (to_vec_str L) vs)" by auto
  also have "\<dots> \<longleftrightarrow> to_vec_str L v \<in> dom (kv_get (VALIDATORS st))"
    by (simp add: eq kv.dom_get [OF ok])
  finally show "v \<in> set vs \<longleftrightarrow> kv_get (VALIDATORS st) (to_vec_str L v) \<noteq> None" by auto
  from kv.entries_distinct [OF ok] have "distinct (map (to_vec_str L) vs)" by (simp add: eq)
  then show "distinct vs" by (simp add: distinct_map)
  from eq show "length vs = length (VALIDATORS st)" by (metis length_map)
qed

end

section \<open>Properties\<close>

text \<open>
  A request stored in the wait list adds to what the sender already had waiting in that batch,
  and leaves every other batch and every other sender as it was.
\<close>

lemma wait_list_store_read:
  assumes "cosmwasm L" and "store_unbond_wait_list L st b u amt = Ok st'"
  shows "(\<exists>v. read_unbond_wait_list L st' b u = Ok v
            \<and> unat v = waiting L st (to_vec_str L u) b + unat amt)
       \<and> (\<forall>b' u'. (b', u') \<noteq> (b, u) \<longrightarrow>
            read_unbond_wait_list L st' b' u' = read_unbond_wait_list L st b' u')"
proof -
  from assms(1) have codec: "key_codec L" and arith: "uint_decimal L"
    by (simp_all add: cosmwasm_def)
  show ?thesis
    using assms(2)
    by (auto simp: store_unbond_wait_list_def read_unbond_wait_list_def waiting_def Let_def
        uint_decimal.uint_add_iff [OF arith] key_codec.to_vec_u64_inject [OF codec]
        key_codec.to_vec_str_inject [OF codec] split: option.splits)
qed

text \<open>A page of the history, from the first batch after the given one, or from the beginning.\<close>

lemma history_page:
  assumes "history_ok (HISTORY st)"
  shows "all_unbond_history st start limit =
    Ok (take (min 100 (case limit of None \<Rightarrow> 10 | Some l \<Rightarrow> unat l))
          (filter (\<lambda>h. case start of None \<Rightarrow> True | Some b \<Rightarrow> b < hist_batch_id h) (map snd (HISTORY st))))"
proof -
  have key: "fst e = to_be_bytes (hist_batch_id (snd e))" if "e \<in> set (HISTORY st)" for e
    using that assms by (auto simp: history_ok_def)
  have "kv_range (HISTORY st) (convert start) =
      filter (\<lambda>e. case start of None \<Rightarrow> True | Some b \<Rightarrow> b < hist_batch_id (snd e)) (HISTORY st)"
  proof (cases start)
    case (Some b)
    show ?thesis unfolding kv_range_def convert_def Some
      by (simp, rule filter_cong) (auto simp: key extended_key_le_iff to_be_bytes_def
          to_be_bytes_less_iff [unfolded to_be_bytes_def])
  qed (simp add: kv_range_def convert_def)
  moreover have "unat (min (case limit of None \<Rightarrow> DEFAULT_LIMIT | Some l \<Rightarrow> l) MAX_LIMIT)
      = min 100 (case limit of None \<Rightarrow> 10 | Some l \<Rightarrow> unat l)"
    by (auto simp: DEFAULT_LIMIT_def MAX_LIMIT_def min_def word_le_nat_alt split: option.splits)
  ultimately show ?thesis
    by (simp add: all_unbond_history_def Let_def take_map filter_map o_def)
qed

lemma history_ids_sorted:
  assumes "history_ok (HISTORY st)"
  shows "sorted_wrt (<) (map hist_batch_id (map snd (HISTORY st)))"
proof -
  have key: "fst e = to_be_bytes (hist_batch_id (snd e))" if "e \<in> set (HISTORY st)" for e
    using that assms by (auto simp: history_ok_def)
  have "sorted_wrt (\<lambda>e f. fst e < fst f) (HISTORY st)"
    using assms by (simp add: history_ok_def kv_ok_def sorted_wrt_map)
  then have "sorted_wrt (\<lambda>e f. hist_batch_id (snd e) < hist_batch_id (snd f)) (HISTORY st)"
    by (rule sorted_wrt_mono_rel [rotated]) (simp add: key to_be_bytes_less_iff)
  then show ?thesis by (simp add: sorted_wrt_map)
qed

text \<open>
  C34: the history query pages through the batches in numeric order: it returns the first batches
  with an id strictly above the given one, at most the requested number, ten by default and one
  hundred at most.
\<close>

theorem all_unbond_history_page:
  assumes "history_ok (HISTORY st)"
  shows "all_unbond_history st (Some start) limit =
      Ok (take (min 100 (case limit of None \<Rightarrow> 10 | Some l \<Rightarrow> unat l))
            (filter (\<lambda>h. start < hist_batch_id h) (map snd (HISTORY st))))
     \<and> sorted_wrt (<) (map hist_batch_id (map snd (HISTORY st)))"
  using history_page [OF assms, of "Some start"] history_ids_sorted [OF assms] by simp

definition sample_history :: "u64 \<Rightarrow> unbond_history" where
  "sample_history b = \<lparr>hist_batch_id = b, hist_time = 100, hist_amount = 50,
     applied_exchange_rate = dec_one, withdraw_rate = dec_one, released = False\<rparr>"

theorem all_unbond_history_page_witness:
  "all_unbond_history
     (empty_storage\<lparr>HISTORY := map (\<lambda>b. (to_be_bytes b, sample_history b)) [1, 2, 300]\<rparr>)
     (Some 1) None = Ok [sample_history 2, sample_history 300]"
proof -
  let ?H = "map (\<lambda>b. (to_be_bytes b, sample_history b)) [1, 2, 300]"
  have "history_ok ?H"
    by (simp add: history_ok_def kv_ok_def sample_history_def to_be_bytes_less_iff)
  then show ?thesis
    using all_unbond_history_page [of "empty_storage\<lparr>HISTORY := ?H\<rparr>" 1 None]
    by (simp add: sample_history_def)
qed

text \<open>
  The exchange rate that the state computes is the bonded amount per issued or requested token,
  rounded down to 18 digits, and one when either side is zero; no other field changes.
\<close>

lemma update_exchange_rate_value:
  assumes "uint_decimal L" and "update_exchange_rate L s issued requested = Ok s'"
  shows "s' = s\<lparr>exchange_rate := exchange_rate s'\<rparr>
     \<and> units (exchange_rate s') =
         (if total_bond_amount s = 0 \<or> unat issued + unat requested = 0 then E18
          else unat (total_bond_amount s) * E18 div (unat issued + unat requested))"
  using uint_decimal.update_exchange_rate_OkD [OF assms]
  by (auto simp: rate_units_def unat_eq_zero)

end
