(* ===== verification/HubUtility.thy ===== *)
theory HubUtility
  imports HubStore
begin

text \<open>
  \<open>contracts/prism_hub/src/utility.rs\<close>: the admin check, the pause check and the validation of the
  instantiation parameters.
\<close>

definition MAINNET_UNDELEGATION_TIME :: u64 where
  "MAINNET_UNDELEGATION_TIME = 1814400"

definition COIN_DENOM :: string where
  "COIN_DENOM = ''uluna''"

definition unwrap_assert_admin :: "cw_lib \<Rightarrow> admin_cell \<Rightarrow> addr \<Rightarrow> unit res" where
  "unwrap_assert_admin L admin caller =
     (case admin_assert L admin caller of
        Inr _ \<Rightarrow> Ok ()
      | Inl e \<Rightarrow> (case e of NotAdmin \<Rightarrow> Err (GenericErr ''Caller is not admin'')
                          | AdminStd std_error \<Rightarrow> Err std_error))"

text \<open>
  Each check of \<open>validate_params\<close> builds an error value as a statement of its own and drops it; the
  model binds the dropped values to the names of the checks.
\<close>

definition validate_params :: "hub_instantiate_msg \<Rightarrow> unit res" where
  "validate_params msg =
     (let epoch_check =
            (if MAINNET_UNDELEGATION_TIME < im_epoch_period msg
             then Some (GenericErr ''epoch period cannot be more than mainnet undelegation period'')
             else None);
          threshold_check =
            (if im_er_threshold msg < dec_one
             then Some (GenericErr ''exchange rate threshold should be more than one'') else None);
          fee_check =
            (if dec_one < im_protocol_fee msg
             then Some (GenericErr ''Protocol fee should not be more than 1'') else None);
          unbonding_check =
            (if MAINNET_UNDELEGATION_TIME < im_unbonding_period msg
             then Some (GenericErr ''unbonding period cannot be more than mainnet undelegation period'')
             else None);
          denom_check =
            (if im_underlying_coin_denom msg \<noteq> COIN_DENOM
             then Some (GenericErr ''underlying coin denom should be uluna'') else None)
      in Ok ())"

definition is_contract_paused :: "hub_storage \<Rightarrow> response res" where
  "is_contract_paused st =
     and_then (load ''bool'' (PAUSE st)) (\<lambda>is_paused.
     if is_paused then Err (GenericErr ''Contract is paused cannot perform the tx'')
     else Ok (respond [] []))"

lemmas hub_utility_defs =
  MAINNET_UNDELEGATION_TIME_def COIN_DENOM_def unwrap_assert_admin_def validate_params_def
  is_contract_paused_def

declare hub_utility_defs [eval_defs]

lemma is_contract_paused_OkD: "is_contract_paused st = Ok r \<Longrightarrow> PAUSE st = Some False"
  by (auto simp: is_contract_paused_def res_simps split: if_splits)

lemma is_contract_paused_running [simp]: "PAUSE st = Some False \<Longrightarrow> is_contract_paused st = Ok (respond [] [])"
  by (simp add: is_contract_paused_def)

context admin_controller
begin

lemma unwrap_assert_admin_eq:
  "unwrap_assert_admin L (Some a) s =
     (if a = Some s then Ok () else Err (GenericErr ''Caller is not admin''))"
  by (simp add: unwrap_assert_admin_def admin_assert_stored)

lemma unwrap_assert_admin_Ok: "unwrap_assert_admin L c s = Ok x \<longleftrightarrow> c = Some (Some s)"
  using admin_assert_unset [of s]
  by (cases c) (auto simp: unwrap_assert_admin_def admin_assert_stored)

end

end
