(* ===== verification/Samples.thy ===== *)
theory Samples
  imports HubStore
begin

text \<open>
  A small concrete deployment on which the witnesses evaluate the operations: a running hub with
  two whitelisted validators and 1000 bonded coins, and the chain's answers given a stake, a token
  supply and a bank balance.
\<close>

definition sample_state :: hub_state where
  "sample_state =
     \<lparr>exchange_rate = dec_one, second_exchange_rate = dec_one, total_bond_amount = 1000,
      last_index_modification = 100, prev_hub_balance = 0, actual_unbonded_amount = 0,
      principle_balance_before_exchange_update = 0, last_unbonded_time = 100,
      last_processed_batch = 0\<rparr>"

definition sample_params :: parameters where
  "sample_params =
     \<lparr>epoch_period = 30, underlying_coin_denom = ''uluna'', unbonding_period = 50,
      peg_recovery_fee = Decimal 50000000000000000, er_threshold = dec_one,
      protocol_fee = Decimal 100000000000000000\<rparr>"

definition sample_config :: hub_config where
  "sample_config =
     \<lparr>token_contract_registered = True, token_contract = Some (map char_byte ''token''),
      protocol_fee_collector = Some (map char_byte ''collector''),
      rewards_contract = Some (map char_byte ''rewards'')\<rparr>"

definition sample_storage :: hub_storage where
  "sample_storage =
     \<lparr>PAUSE = Some False, ADMIN = Some (Some ''owner''), CONFIG = Some (CurrentConfig sample_config),
      PARAMETERS = Some sample_params,
      CURRENT_BATCH = Some \<lparr>cb_id = 1, requested_with_fee = 0\<rparr>,
      STATE = Some sample_state, WAIT = (\<lambda>_. []), HISTORY = [],
      VALIDATORS = [(to_vec_str ref_lib ''val1'', True), (to_vec_str ref_lib ''val2'', True)]\<rparr>"

definition sample_env :: "u64 \<Rightarrow> env" where
  "sample_env t = \<lparr>block_height = 7, block_seconds = t, contract_address = ''hub''\<rparr>"

definition sample_delegation :: "u128 \<Rightarrow> delegation" where
  "sample_delegation stake =
     \<lparr>del_validator = ''val1'', del_amount = \<lparr>denom = ''uluna'', coin_amount = stake\<rparr>\<rparr>"

definition sample_querier :: "u128 \<Rightarrow> u128 \<Rightarrow> u128 \<Rightarrow> querier" where
  "sample_querier stake supply balance =
     \<lparr>query_all_delegations = (\<lambda>_. Ok [sample_delegation stake]),
      query_delegation = (\<lambda>_ v. Ok (Some (sample_delegation stake))),
      query_all_validators = Ok [\<lparr>val_address = ''val1''\<rparr>, \<lparr>val_address = ''val2''\<rparr>,
        \<lparr>val_address = ''val3''\<rparr>],
      query_balance = (\<lambda>_ d. Ok \<lparr>denom = d, coin_amount = balance\<rparr>),
      query_token_supply = (\<lambda>_. Ok supply)\<rparr>"

text \<open>Two closed batches of 500 coins each, requested by two users, and 1000 coins unbonding.\<close>

definition sample_unbonding :: hub_storage where
  "sample_unbonding = sample_storage
     \<lparr>CURRENT_BATCH := Some \<lparr>cb_id = 3, requested_with_fee = 0\<rparr>,
      HISTORY := [(to_be_bytes 1, (sample_history 1)\<lparr>hist_amount := 500\<rparr>),
        (to_be_bytes 2, (sample_history 2)\<lparr>hist_amount := 500\<rparr>)],
      WAIT := (\<lambda>_. [])(to_vec_str ref_lib ''alice'' := [(to_vec_u64 ref_lib 1, 500)],
        to_vec_str ref_lib ''bob'' := [(to_vec_u64 ref_lib 2, 500)])\<rparr>"

lemma sample_params_sel [simp]:
  "epoch_period sample_params = 30" "underlying_coin_denom sample_params = ''uluna''"
  "unbonding_period sample_params = 50" "peg_recovery_fee sample_params = Decimal 50000000000000000"
  "er_threshold sample_params = dec_one" "protocol_fee sample_params = Decimal 100000000000000000"
  by (simp_all add: sample_params_def)

lemma sample_config_sel [simp]:
  "token_contract_registered sample_config"
  "token_contract sample_config = Some (map char_byte ''token'')"
  "protocol_fee_collector sample_config = Some (map char_byte ''collector'')"
  "rewards_contract sample_config = Some (map char_byte ''rewards'')"
  by (simp_all add: sample_config_def)

lemma sample_storage_sel [simp]:
  "PAUSE sample_storage = Some False"
  "ADMIN sample_storage = Some (Some ''owner'')"
  "CONFIG sample_storage = Some (CurrentConfig sample_config)"
  "PARAMETERS sample_storage = Some sample_params"
  "CURRENT_BATCH sample_storage = Some \<lparr>cb_id = 1, requested_with_fee = 0\<rparr>"
  "STATE sample_storage = Some sample_state"
  "WAIT sample_storage = (\<lambda>_. [])"
  "HISTORY sample_storage = []"
  "VALIDATORS sample_storage =
     [(to_vec_str ref_lib ''val1'', True), (to_vec_str ref_lib ''val2'', True)]"
  by (simp_all add: sample_storage_def)

lemma sample_history_sel [simp]:
  "hist_batch_id (sample_history b) = b" "hist_time (sample_history b) = 100"
  "hist_amount (sample_history b) = 50" "applied_exchange_rate (sample_history b) = dec_one"
  "withdraw_rate (sample_history b) = dec_one" "\<not> released (sample_history b)"
  by (simp_all add: sample_history_def)

lemma sample_unbonding_sel [simp]:
  "PARAMETERS sample_unbonding = Some sample_params"
  "STATE sample_unbonding = Some sample_state"
  "CURRENT_BATCH sample_unbonding = Some \<lparr>cb_id = 3, requested_with_fee = 0\<rparr>"
  "HISTORY sample_unbonding = [(to_be_bytes 1, (sample_history 1)\<lparr>hist_amount := 500\<rparr>),
     (to_be_bytes 2, (sample_history 2)\<lparr>hist_amount := 500\<rparr>)]"
  "WAIT sample_unbonding =
     (\<lambda>_. [])(to_vec_str ref_lib ''alice'' := [(to_vec_u64 ref_lib 1, 500)],
       to_vec_str ref_lib ''bob'' := [(to_vec_u64 ref_lib 2, 500)])"
  by (simp_all add: sample_unbonding_def)

lemma sample_env_sel [simp]:
  "block_height (sample_env t) = 7" "block_seconds (sample_env t) = t"
  "contract_address (sample_env t) = ''hub''"
  by (simp_all add: sample_env_def)

lemma sample_delegation_sel [simp]:
  "del_validator (sample_delegation n) = ''val1''"
  "del_amount (sample_delegation n) = \<lparr>denom = ''uluna'', coin_amount = n\<rparr>"
  by (simp_all add: sample_delegation_def)

lemma sample_querier_sel [simp]:
  "query_all_delegations (sample_querier n m b) a = Ok [sample_delegation n]"
  "query_delegation (sample_querier n m b) a v = Ok (Some (sample_delegation n))"
  "query_all_validators (sample_querier n m b) = Ok [\<lparr>val_address = ''val1''\<rparr>,
     \<lparr>val_address = ''val2''\<rparr>, \<lparr>val_address = ''val3''\<rparr>]"
  "query_balance (sample_querier n m b) a d = Ok \<lparr>denom = d, coin_amount = b\<rparr>"
  "query_token_supply (sample_querier n m b) a = Ok m"
  by (simp_all add: sample_querier_def)

lemma sample_whitelist_ok: "whitelist_ok ref_lib (VALIDATORS sample_storage)"
proof -
  have "to_vec_str ref_lib ''val1'' < to_vec_str ref_lib ''val2''" by (simp add: char_byte_def)
  then show ?thesis by (auto simp: whitelist_ok_def kv_ok_def simp del: ref_lib_sel)
qed

end
