(* ===== verification/HubConfig.thy ===== *)
theory HubConfig
  imports HubUtility Samples
begin

text \<open>
  \<open>contracts/prism_hub/src/config.rs\<close>: the handlers that change parameters, configuration and the
  validator whitelist.
\<close>

section \<open>Operations\<close>

definition or_else :: "'a option \<Rightarrow> 'a \<Rightarrow> 'a" where
  "or_else x d = (case x of Some v \<Rightarrow> v | None \<Rightarrow> d)"

definition execute_update_params ::
  "cw_lib \<Rightarrow> hub_storage \<Rightarrow> message_info \<Rightarrow> u64 option \<Rightarrow> u64 option \<Rightarrow> decimal option \<Rightarrow>
   decimal option \<Rightarrow> decimal option \<Rightarrow> (hub_storage \<times> response) res" where
  "execute_update_params L st info epoch unbonding recovery_fee threshold fee =
     and_then (unwrap_assert_admin L (ADMIN st) (sender info)) (\<lambda>_.
     and_then (load ''Parameters'' (PARAMETERS st)) (\<lambda>params.
     let new_params =
       \<lparr>epoch_period = or_else epoch (epoch_period params),
        underlying_coin_denom = underlying_coin_denom params,
        unbonding_period = or_else unbonding (unbonding_period params),
        peg_recovery_fee = or_else recovery_fee (peg_recovery_fee params),
        er_threshold = or_else threshold (er_threshold params),
        protocol_fee = or_else fee (protocol_fee params)\<rparr>
     in Ok (st\<lparr>PARAMETERS := Some new_params\<rparr>,
            respond [] [(''action'', AttrText ''update_params'')])))"

definition execute_update_config ::
  "cw_lib \<Rightarrow> hub_storage \<Rightarrow> message_info \<Rightarrow> string option \<Rightarrow> string option \<Rightarrow>
   (hub_storage \<times> response) res" where
  "execute_update_config L st info token collector =
     and_then (unwrap_assert_admin L (ADMIN st) (sender info)) (\<lambda>_.
     and_then
       (case token of
          None \<Rightarrow> Ok st
        | Some t \<Rightarrow>
            and_then (load_config st) (\<lambda>config.
            if token_contract_registered config
            then Err (GenericErr
              ''Token contract has been registered. Cannot change the token contract'')
            else
              and_then (addr_canonicalize L t) (\<lambda>token_raw.
              Ok (st\<lparr>CONFIG := Some (CurrentConfig
                  (config\<lparr>token_contract := Some token_raw,
                          token_contract_registered := True\<rparr>))\<rparr>)))) (\<lambda>st1.
     and_then
       (case collector of
          None \<Rightarrow> Ok st1
        | Some c \<Rightarrow>
            and_then (addr_canonicalize L c) (\<lambda>collector_raw.
            and_then (load_config st1) (\<lambda>last_config.
            Ok (st1\<lparr>CONFIG := Some (CurrentConfig
                  (last_config\<lparr>protocol_fee_collector := Some collector_raw\<rparr>))\<rparr>)))) (\<lambda>st2.
     Ok (st2, respond [] [(''action'', AttrText ''update_config'')]))))"

definition execute_register_validator ::
  "cw_lib \<Rightarrow> querier \<Rightarrow> hub_storage \<Rightarrow> env \<Rightarrow> message_info \<Rightarrow> string \<Rightarrow>
   (hub_storage \<times> response) res" where
  "execute_register_validator L Q st env info validator =
     and_then (admin_get L (ADMIN st)) (\<lambda>stored.
     and_then (expect ''called Option::unwrap on a None value'' stored) (\<lambda>admin.
     and_then (addr_canonicalize L (sender info)) (\<lambda>sender_raw.
     and_then (addr_canonicalize L (contract_address env)) (\<lambda>contract_raw.
     if sender info \<noteq> admin \<and> contract_raw \<noteq> sender_raw
     then Err (GenericErr ''Caller is not admin'')
     else
       and_then (query_all_validators Q) (\<lambda>vals.
       if \<not> list_ex (\<lambda>val. val_address val = validator) vals
       then Err (GenericErr ''The specified address is not a validator'')
       else
         and_then (store_white_validators L st validator) (\<lambda>st'.
         Ok (st', respond [] [(''action'', AttrText ''register_validator''),
                              (''validator'', AttrText validator)])))))))"

definition execute_deregister_validator ::
  "cw_lib \<Rightarrow> querier \<Rightarrow> hub_storage \<Rightarrow> env \<Rightarrow> message_info \<Rightarrow> string \<Rightarrow>
   (hub_storage \<times> response) res" where
  "execute_deregister_validator L Q st env info validator =
     and_then (unwrap_assert_admin L (ADMIN st) (sender info)) (\<lambda>_.
     and_then (read_validators L st) (\<lambda>validators_before_remove.
     if length validators_before_remove = 1
     then Err (GenericErr ''Cannot remove the last whitelisted validator'')
     else
       and_then (remove_white_validators L st validator) (\<lambda>st'.
       and_then
         (case query_delegation Q (contract_address env) validator of
            Ok delegated_amount \<Rightarrow>
              and_then (read_validators L st') (\<lambda>validators.
              and_then (gen_range L (block_height env) (length validators)) (\<lambda>random_index.
              and_then (expect ''called Option::unwrap on a None value''
                          (vec_get validators random_index)) (\<lambda>replaced_val.
              Ok (replaced_val,
                  case delegated_amount of
                    Some delegation \<Rightarrow>
                      [Redelegate validator replaced_val (del_amount delegation),
                       WasmExecute (contract_address env) (HubMsg UpdateGlobalIndex) []]
                  | None \<Rightarrow> []))))
          | Err _ \<Rightarrow> Ok ('''', [])
          | Panic p \<Rightarrow> Panic p) (\<lambda>(replaced_val, msgs).
       Ok (st', respond msgs [(''action'', AttrText ''de_register_validator''),
                              (''validator'', AttrText validator),
                              (''new-validator'', AttrText replaced_val)])))))"

lemmas hub_config_defs =
  or_else_def execute_update_params_def execute_update_config_def execute_register_validator_def
  execute_deregister_validator_def

declare hub_config_defs [eval_defs]

section \<open>Frames\<close>

lemma execute_update_params_frame:
  "execute_update_params L st info a b c d e = Ok (st', r) \<Longrightarrow>
     st' = st\<lparr>PARAMETERS := PARAMETERS st'\<rparr> \<and> PARAMETERS st' \<noteq> None"
  by (auto simp: execute_update_params_def Let_def res_simps)

lemma execute_update_config_frame:
  "execute_update_config L st info t c = Ok (st', r) \<Longrightarrow> st' = st\<lparr>CONFIG := CONFIG st'\<rparr>"
  by (auto simp: execute_update_config_def res_simps split: option.splits if_splits)

lemma execute_register_validator_frame:
  "execute_register_validator L Q st env info v = Ok (st', r) \<Longrightarrow>
     st' = st\<lparr>VALIDATORS := kv_put (VALIDATORS st) (to_vec_str L v) True\<rparr> \<and> messages r = []"
  by (auto simp: execute_register_validator_def store_white_validators_def split: if_splits)

lemma execute_deregister_validator_frame:
  "execute_deregister_validator L Q st env info v = Ok (st', r) \<Longrightarrow>
     st' = st\<lparr>VALIDATORS := kv_remove (VALIDATORS st) (to_vec_str L v)\<rparr>"
  by (auto simp: execute_deregister_validator_def remove_white_validators_def split: if_splits)

text \<open>The messages of a deregistration: what is redelegated, and to whom, follows the delegation query.\<close>

lemma deregister_messages:
  assumes "execute_deregister_validator L Q st env info v = Ok (st', r)"
    and "read_validators L st' = Ok vs'"
  shows "case query_delegation Q (contract_address env) v of
      Ok (Some d) \<Rightarrow> \<exists>w \<in> set vs'. messages r = [Redelegate v w (del_amount d),
          WasmExecute (contract_address env) (HubMsg UpdateGlobalIndex) []]
    | Ok None \<Rightarrow> messages r = []
    | Err e \<Rightarrow> messages r = []
    | Panic p \<Rightarrow> False"
proof -
  have frame: "remove_white_validators L st v = Ok st'"
    using execute_deregister_validator_frame [OF assms(1)] by (simp add: remove_white_validators_def)
  show ?thesis
  proof (cases "query_delegation Q (contract_address env) v")
    case (Ok q)
    with assms frame obtain i w where "vec_get vs' i = Some w"
      and "messages r = (case q of Some d \<Rightarrow> [Redelegate v w (del_amount d),
             WasmExecute (contract_address env) (HubMsg UpdateGlobalIndex) []] | None \<Rightarrow> [])"
      by (auto simp: execute_deregister_validator_def res_simps split: if_splits)
    with Ok show ?thesis by (auto simp: vec_get_def split: option.splits if_splits)
  qed (use assms frame in \<open>auto simp: execute_deregister_validator_def split: if_splits\<close>)
qed

section \<open>Properties\<close>

text \<open>
  Once a token contract is registered, no configuration update changes it; an update that names
  a token contract is refused, and the fee collector can still be set.
\<close>

lemma token_contract_immutable:
  assumes "CONFIG st = Some (CurrentConfig cfg)" and "token_contract_registered cfg"
    and "execute_update_config L st info token collector = Ok (st', r)"
  shows "token = None \<and> (\<exists>cfg'. CONFIG st' = Some (CurrentConfig cfg')
     \<and> token_contract cfg' = token_contract cfg \<and> token_contract_registered cfg'
     \<and> rewards_contract cfg' = rewards_contract cfg)"
  using assms by (auto simp: execute_update_config_def load_config_def split: option.splits)

text \<open>
  A validator joins the whitelist only when it is a validator of the chain and the caller is the
  admin or the hub itself; the call adds exactly that validator.
\<close>

lemma register_validator_adds:
  assumes "cosmwasm L" and "whitelist_ok L (VALIDATORS st)"
    and "execute_register_validator L Q st env info v = Ok (st', r)"
  shows "(ADMIN st = Some (Some (sender info))
        \<or> addr_canonicalize L (sender info) = addr_canonicalize L (contract_address env))
     \<and> (\<exists>vals. query_all_validators Q = Ok vals \<and> v \<in> val_address ` set vals)
     \<and> whitelist_ok L (VALIDATORS st')
     \<and> (\<exists>vs vs'. read_validators L st = Ok vs \<and> read_validators L st' = Ok vs'
          \<and> set vs' = insert v (set vs))"
proof -
  from assms(1) have admin: "admin_controller L" by (simp add: cosmwasm_def)
  have frame: "st' = st\<lparr>VALIDATORS := kv_put (VALIDATORS st) (to_vec_str L v) True\<rparr>"
    using execute_register_validator_frame [OF assms(3)] by simp
  then have ok': "whitelist_ok L (VALIDATORS st')" using assms(2) by (simp add: whitelist_ok_put)
  obtain vs vs' where vs: "read_validators L st = Ok vs" and vs': "read_validators L st' = Ok vs'"
    using cosmwasm.read_validators_Ok [OF assms(1,2)] cosmwasm.read_validators_Ok [OF assms(1) ok']
    by blast
  have "set vs' = insert v (set vs)"
    using cosmwasm.read_validators_set(1) [OF assms(1,2) vs]
      cosmwasm.read_validators_set(1) [OF assms(1) ok' vs'] assms(1)
    by (auto simp: frame cosmwasm_def key_codec.to_vec_str_inject split: if_splits)
  moreover have "ADMIN st = Some (Some a)" if "admin_get L (ADMIN st) = Ok (Some a)" for a
    using that admin_controller.admin_get_unset [OF admin] admin_controller.admin_get_stored [OF admin]
    by (cases "ADMIN st") auto
  ultimately show ?thesis
    using assms(3) ok' vs vs'
    by (auto simp: execute_register_validator_def list_ex_iff res_simps split: if_splits)
qed

text \<open>
  C32: from a whitelist that is not empty, deregistration succeeds only while at least two validators are on it;
  it removes exactly the named one, changes no other cell, and so never empties the whitelist. When the chain reports a delegation to
  the removed validator, the whole delegation is redelegated to a validator that is still whitelisted
  and the hub tells itself to update the global index; when the chain reports none, or the query for it
  is answered by an error, no message is sent.
\<close>

theorem deregister_validator_keeps_whitelist:
  assumes "cosmwasm L" and "whitelist_ok L (VALIDATORS st)" and "VALIDATORS st \<noteq> []"
    and "execute_deregister_validator L Q st env info v = Ok (st', r)"
  shows "st' = st\<lparr>VALIDATORS := VALIDATORS st'\<rparr> \<and> VALIDATORS st' \<noteq> [] \<and> whitelist_ok L (VALIDATORS st')
     \<and> (\<exists>vs vs'. read_validators L st = Ok vs \<and> read_validators L st' = Ok vs'
          \<and> 2 \<le> length vs \<and> set vs' = set vs - {v}
          \<and> (case query_delegation Q (contract_address env) v of
                Ok (Some d) \<Rightarrow> \<exists>w \<in> set vs'. messages r = [Redelegate v w (del_amount d),
                    WasmExecute (contract_address env) (HubMsg UpdateGlobalIndex) []]
              | Ok None \<Rightarrow> messages r = []
              | Err e \<Rightarrow> messages r = []
              | Panic p \<Rightarrow> False))"
proof -
  have frame: "st' = st\<lparr>VALIDATORS := kv_remove (VALIDATORS st) (to_vec_str L v)\<rparr>"
    by (rule execute_deregister_validator_frame [OF assms(4)])
  then have ok': "whitelist_ok L (VALIDATORS st')" using assms(2) by (simp add: whitelist_ok_remove)
  obtain vs vs' where vs: "read_validators L st = Ok vs" and vs': "read_validators L st' = Ok vs'"
    using cosmwasm.read_validators_Ok [OF assms(1,2)] cosmwasm.read_validators_Ok [OF assms(1) ok']
    by blast
  note mem = cosmwasm.read_validators_set [OF assms(1,2) vs]
  note mem' = cosmwasm.read_validators_set [OF assms(1) ok' vs']
  have set: "set vs' = set vs - {v}"
    using mem(1) mem'(1) assms(1) by (auto simp: frame cosmwasm_def key_codec.to_vec_str_inject split: if_splits)
  have "length vs \<noteq> 1" using assms(4) vs by (auto simp: execute_deregister_validator_def)
  with assms(3) mem(3) have two: "2 \<le> length vs" by (cases vs) (auto simp: Suc_le_eq)
  then have "2 \<le> card (set vs)" using mem(2) by (simp add: distinct_card)
  then have "set vs' \<noteq> {}" using set card_mono [of "{v}" "set vs"] by auto
  then have "VALIDATORS st' \<noteq> []" using mem'(3) by auto
  moreover have "st' = st\<lparr>VALIDATORS := VALIDATORS st'\<rparr>" by (simp add: frame)
  ultimately show ?thesis
    using ok' vs vs' two set deregister_messages [OF assms(4) vs'] by blast
qed

theorem deregister_validator_keeps_whitelist_witness:
  "\<exists>st' r w. execute_deregister_validator ref_lib (sample_querier 900 0 0) sample_storage
       (sample_env 100) \<lparr>sender = ''owner'', funds = []\<rparr> ''val1'' = Ok (st', r)
     \<and> VALIDATORS st' \<noteq> []
     \<and> messages r = [Redelegate ''val1'' w (del_amount (sample_delegation 900)),
         WasmExecute (contract_address (sample_env 100)) (HubMsg UpdateGlobalIndex) []]"
proof -
  obtain st' r where ok: "execute_deregister_validator ref_lib (sample_querier 900 0 0) sample_storage
       (sample_env 100) \<lparr>sender = ''owner'', funds = []\<rparr> ''val1'' = Ok (st', r)"
    by (simp add: execute_deregister_validator_def remove_white_validators_def read_validators_def
        unwrap_assert_admin_def ref_admin_assert_def kv_range_def kv_remove_def vec_get_def
        char_byte_def)
  from deregister_validator_keeps_whitelist [OF cosmwasm_ref_lib sample_whitelist_ok _ ok] ok show ?thesis
    by auto
qed

end
