(* ===== verification/HubSlashing.thy ===== *)
theory HubSlashing
  imports HubUtility Samples
begin

text \<open>
  From \<open>contracts/prism_hub/src/contract.rs\<close>: the token supply query, the detection of slashing, the
  global-index update. Bonding, unbonding and the explicit check all start with \<open>slashing\<close>.
\<close>

section \<open>Operations\<close>

definition query_total_issued :: "cw_lib \<Rightarrow> querier \<Rightarrow> hub_storage \<Rightarrow> u128 res" where
  "query_total_issued L Q st =
     and_then (load_config st) (\<lambda>config.
     and_then (expect ''token contract must have been registered'' (token_contract config)) (\<lambda>token.
     and_then (addr_humanize L token) (\<lambda>token_address.
     query_token_supply Q token_address)))"

definition sum_delegations :: "cw_lib \<Rightarrow> string \<Rightarrow> delegation list \<Rightarrow> u128 res" where
  "sum_delegations L coin_denom delegations =
     fold_res (\<lambda>delegation actual_total_bonded.
       if denom (del_amount delegation) = coin_denom
       then uint_add L actual_total_bonded (coin_amount (del_amount delegation))
       else Ok actual_total_bonded) delegations 0"

definition slashing :: "cw_lib \<Rightarrow> querier \<Rightarrow> hub_storage \<Rightarrow> env \<Rightarrow> hub_storage res" where
  "slashing L Q st env =
     and_then (load ''Parameters'' (PARAMETERS st)) (\<lambda>params.
     and_then (load ''State'' (STATE st)) (\<lambda>state.
     let state_total_bonded = total_bond_amount state in
     and_then (query_all_delegations Q (contract_address env)) (\<lambda>delegations.
     if delegations = [] then Ok st
     else
       and_then (sum_delegations L (underlying_coin_denom params) delegations) (\<lambda>actual_total_bonded.
       and_then (query_total_issued L Q st) (\<lambda>total_issued.
       and_then (load ''CurrentBatch'' (CURRENT_BATCH st)) (\<lambda>batch.
       if actual_total_bonded < state_total_bonded then
         and_then (update_exchange_rate L (state\<lparr>total_bond_amount := actual_total_bonded\<rparr>)
                     total_issued (requested_with_fee batch)) (\<lambda>state'.
         Ok (st\<lparr>STATE := Some state'\<rparr>))
       else Ok st))))))"

definition execute_slashing ::
  "cw_lib \<Rightarrow> querier \<Rightarrow> hub_storage \<Rightarrow> env \<Rightarrow> (hub_storage \<times> response) res" where
  "execute_slashing L Q st env =
     and_then (slashing L Q st env) (\<lambda>st'.
     and_then (load ''State'' (STATE st')) (\<lambda>state.
     Ok (st', respond [] [(''action'', AttrText ''check_slashing''),
                          (''new_exchange_rate'', AttrDecimal (exchange_rate state))])))"

definition withdraw_all_rewards :: "querier \<Rightarrow> addr \<Rightarrow> cosmos_msg list res" where
  "withdraw_all_rewards Q delegator =
     (case query_all_delegations Q delegator of
        Ok delegations \<Rightarrow> Ok (map (\<lambda>d. WithdrawDelegatorReward (del_validator d)) delegations)
      | Err _ \<Rightarrow> Ok []
      | Panic p \<Rightarrow> Panic p)"

definition execute_update_global ::
  "cw_lib \<Rightarrow> querier \<Rightarrow> hub_storage \<Rightarrow> env \<Rightarrow> (hub_storage \<times> response) res" where
  "execute_update_global L Q st env =
     and_then (load_config st) (\<lambda>config.
     and_then (expect ''called Option::unwrap on a None value'' (rewards_contract config)) (\<lambda>raw.
     and_then (addr_humanize L raw) (\<lambda>reward_contract.
     and_then (withdraw_all_rewards Q (contract_address env)) (\<lambda>withdraw_msgs.
     and_then (load ''State'' (STATE st)) (\<lambda>last_state.
     Ok (st\<lparr>STATE := Some (last_state\<lparr>last_index_modification := block_seconds env\<rparr>)\<rparr>,
         respond (withdraw_msgs @ [WasmExecute reward_contract (RewardsMsg ProcessRewards) []])
           [(''action'', AttrText ''update_global_index'')]))))))"

lemmas hub_slashing_defs =
  query_total_issued_def sum_delegations_def slashing_def execute_slashing_def
  withdraw_all_rewards_def execute_update_global_def

declare hub_slashing_defs [eval_defs]

section \<open>What slashing does\<close>

text \<open>The staked amount of the coin that the chain reports.\<close>

definition staked :: "string \<Rightarrow> delegation list \<Rightarrow> nat" where
  "staked d ds = (\<Sum>x\<leftarrow>ds. if denom (del_amount x) = d then unat (coin_amount (del_amount x)) else 0)"

context uint_decimal
begin

lemma sum_delegations_value:
  assumes "sum_delegations L d ds = Ok n"
  shows "unat n = staked d ds"
proof -
  have "unat n = unat (0 :: u128) + staked d ds"
    unfolding staked_def
    by (rule fold_res_sum [OF assms [unfolded sum_delegations_def]])
      (auto simp: uint_add_iff split: if_splits)
  then show ?thesis by simp
qed

text \<open>
  The check either leaves the storage alone, or lowers the stored bond to the staked amount and
  recomputes the rate from it.
\<close>

lemma slashing_cases:
  assumes "slashing L Q st env = Ok st'"
  obtains (unchanged) p s ds where "PARAMETERS st = Some p" and "STATE st = Some s"
      and "query_all_delegations Q (contract_address env) = Ok ds" and "st' = st"
      and "ds = [] \<or> unat (total_bond_amount s) \<le> staked (underlying_coin_denom p) ds"
  | (slashed) p s ds ti cb n r where "PARAMETERS st = Some p" and "STATE st = Some s"
      and "query_all_delegations Q (contract_address env) = Ok ds" and "ds \<noteq> []"
      and "query_total_issued L Q st = Ok ti" and "CURRENT_BATCH st = Some cb"
      and "unat n = staked (underlying_coin_denom p) ds" and "n < total_bond_amount s"
      and "units r = rate_units (unat n) (unat ti + unat (requested_with_fee cb))"
      and "st' = st\<lparr>STATE := Some (s\<lparr>total_bond_amount := n, exchange_rate := r\<rparr>)\<rparr>"
proof -
  obtain p s ds where p: "PARAMETERS st = Some p" and s: "STATE st = Some s"
    and ds: "query_all_delegations Q (contract_address env) = Ok ds"
    using assms by (auto simp: slashing_def res_simps Let_def)
  show thesis
  proof (cases "ds = []")
    case True
    with assms p s ds have "st' = st" by (simp add: slashing_def)
    with True show thesis by (intro unchanged [OF p s ds]) auto
  next
    case False
    with assms p s ds obtain n ti cb where n: "sum_delegations L (underlying_coin_denom p) ds = Ok n"
      and ti: "query_total_issued L Q st = Ok ti" and cb: "CURRENT_BATCH st = Some cb"
      and rest: "(if n < total_bond_amount s then
         and_then (update_exchange_rate L (s\<lparr>total_bond_amount := n\<rparr>) ti (requested_with_fee cb))
           (\<lambda>s'. Ok (st\<lparr>STATE := Some s'\<rparr>)) else Ok st) = Ok st'"
      by (auto simp: slashing_def res_simps)
    note staked = sum_delegations_value [OF n]
    show thesis
    proof (cases "n < total_bond_amount s")
      case True
      with rest obtain s' where
        upd: "update_exchange_rate L (s\<lparr>total_bond_amount := n\<rparr>) ti (requested_with_fee cb) = Ok s'"
        and st': "st' = st\<lparr>STATE := Some s'\<rparr>" by auto
      from update_exchange_rate_OkD [OF upd] st' show thesis
        using slashed [OF p s ds False ti cb staked True] by auto
    next
      case notless: False
      with rest show thesis
        by (intro unchanged [OF p s ds]) (auto simp: word_less_nat_alt staked)
    qed
  qed
qed

lemma slashing_frame:
  assumes "slashing L Q st env = Ok st'"
  obtains s n r where "STATE st = Some s" and "n \<le> total_bond_amount s"
    and "st' = st\<lparr>STATE := Some (s\<lparr>total_bond_amount := n, exchange_rate := r\<rparr>)\<rparr>"
  using assms
proof (cases rule: slashing_cases)
  case (unchanged p s ds)
  then have "st' = st\<lparr>STATE := Some (s\<lparr>total_bond_amount := total_bond_amount s,
      exchange_rate := exchange_rate s\<rparr>)\<rparr>" by simp
  with unchanged that show thesis by blast
next
  case (slashed p s ds ti cb n r)
  with that [of s n r] show thesis by simp
qed

end

section \<open>Properties\<close>

text \<open>
  C27: checking for slashing never raises the bonded amount. When the chain reports less stake in
  the hub's coin than the stored bond, the stored bond becomes exactly the staked amount and the
  rate the staked amount per issued and requested token; otherwise, and when there is no
  delegation, nothing changes. No other cell of the storage changes.
\<close>

theorem slashing_tracks_stake:
  assumes "uint_decimal L" and "slashing L Q st env = Ok st'"
    and "PARAMETERS st = Some p" and "STATE st = Some s" and "CURRENT_BATCH st = Some cb"
    and "query_all_delegations Q (contract_address env) = Ok ds"
  shows "\<exists>s'. st' = st\<lparr>STATE := Some s'\<rparr> \<and>
     (if ds \<noteq> [] \<and> staked (underlying_coin_denom p) ds < unat (total_bond_amount s)
      then unat (total_bond_amount s') = staked (underlying_coin_denom p) ds
        \<and> (\<exists>issued. query_total_issued L Q st = Ok issued \<and> units (exchange_rate s') =
             rate_units (unat (total_bond_amount s')) (unat issued + unat (requested_with_fee cb)))
        \<and> s' = s\<lparr>total_bond_amount := total_bond_amount s', exchange_rate := exchange_rate s'\<rparr>
      else s' = s)"
proof (cases rule: uint_decimal.slashing_cases [OF assms(1,2), case_names unchanged slashed])
  case (unchanged p' s' ds')
  with assms have "st' = st\<lparr>STATE := Some s\<rparr>" by simp
  with unchanged assms show ?thesis by auto
next
  case (slashed p' s' ds' ti cb' n r)
  with assms show ?thesis by (auto simp: word_less_nat_alt)
qed

theorem slashing_tracks_stake_witness:
  "\<exists>st' s'. slashing ref_lib (sample_querier 900 1000 0) sample_storage (sample_env 100) = Ok st'
     \<and> STATE st' = Some s' \<and> unat (total_bond_amount s') = 900
     \<and> units (exchange_rate s') = 900000000000000000"
proof -
  obtain st' where st': "slashing ref_lib (sample_querier 900 1000 0) sample_storage (sample_env 100)
      = Ok st'"
    by (simp add: sample_state_def eval_defs)
  from slashing_tracks_stake [OF ref_uint.uint_decimal_axioms st' sample_storage_sel(4,6,5)
      sample_querier_sel(1)]
  show ?thesis
    by (auto simp: st' sample_state_def staked_def rate_units_def query_total_issued_def
        load_config_def)
qed

end
