(* ===== verification/HubMath.thy ===== *)
theory HubMath
  imports Host
begin

text \<open>
  \<open>contracts/prism_hub/src/math.rs\<close>: division of an amount by a decimal, as used to turn a payment
  into tokens at the current exchange rate.
\<close>

definition DECIMAL_FRACTIONAL :: u128 where
  "DECIMAL_FRACTIONAL = 1000000000"

definition decimal_division :: "cw_lib \<Rightarrow> u128 \<Rightarrow> decimal \<Rightarrow> u128 res" where
  "decimal_division L a b =
     and_then (uint_mul_dec L DECIMAL_FRACTIONAL b) (\<lambda>scaled.
     and_then (dec_from_ratio L a scaled) (\<lambda>decimal.
     uint_mul_dec L DECIMAL_FRACTIONAL decimal))"

declare DECIMAL_FRACTIONAL_def [eval_defs] decimal_division_def [eval_defs]

text \<open>The value the two roundings add up to.\<close>

definition quotient_9 :: "nat \<Rightarrow> nat \<Rightarrow> nat" where
  "quotient_9 a b = a * 1000000000 div (b div 1000000000)"

lemma scaled_rate: "1000000000 * u div E18 = u div 1000000000" for u :: nat
proof -
  have "1000000000 * u div (1000000000 * 1000000000) = u div 1000000000"
    by (rule div_mult_mult1) simp
  then show ?thesis by simp
qed

lemma scaled_quotient: "1000000000 * (a * E18 div q) div E18 = a * 1000000000 div q" for a q :: nat
proof -
  have "1000000000 * (a * E18 div q) div E18 = a * E18 div q div 1000000000"
    by (rule scaled_rate)
  also have "\<dots> = (a * 1000000000) * 1000000000 div (q * 1000000000)"
    by (simp add: div_mult2_eq [symmetric] mult.assoc)
  also have "\<dots> = a * 1000000000 div q" by (rule div_mult_mult2) simp
  finally show ?thesis .
qed

context uint_decimal
begin

lemma decimal_division_iff:
  "decimal_division L a b = Ok c \<longleftrightarrow>
     0 < units b div 1000000000 \<and> unat a * E18 div (units b div 1000000000) < 2 ^ 128
     \<and> unat c = quotient_9 (unat a) (units b)" (is "?l \<longleftrightarrow> ?r")
proof
  assume ?l
  then obtain s d where "uint_mul_dec L DECIMAL_FRACTIONAL b = Ok s"
    and "dec_from_ratio L a s = Ok d" and "uint_mul_dec L DECIMAL_FRACTIONAL d = Ok c"
    by (auto simp: decimal_division_def)
  then have s: "unat s = units b div 1000000000"
    and d: "0 < unat s" "units d = unat a * E18 div unat s"
    and c: "unat c = 1000000000 * units d div E18"
    by (simp_all add: arith_iffs DECIMAL_FRACTIONAL_def scaled_rate)
  have "unat a * E18 div unat s < 2 ^ 128"
    unfolding d(2) [symmetric] by simp
  with s d c show ?r by (simp add: quotient_9_def scaled_quotient)
next
  assume r: ?r
  have small: "units b div 1000000000 < 2 ^ 128"
    by (rule le_less_trans [OF div_le_dividend]) simp
  obtain s where s: "uint_mul_dec L DECIMAL_FRACTIONAL b = Ok s" "unat s = units b div 1000000000"
    using mul_dec_fits [of DECIMAL_FRACTIONAL b] small
    by (auto simp: DECIMAL_FRACTIONAL_def scaled_rate)
  with r obtain d where d: "dec_from_ratio L a s = Ok d" "units d = unat a * E18 div unat s"
    using from_ratio_fits [of s a] by auto
  have "uint_mul_dec L DECIMAL_FRACTIONAL d = Ok c"
    using r s d by (simp add: mul_dec_iff DECIMAL_FRACTIONAL_def quotient_9_def scaled_quotient)
  with s d show ?l by (simp add: decimal_division_def)
qed

end

text \<open>
  The division returns exactly when the rate is at least \<open>10^-9\<close> and the intermediate quotient
  fits 128 bits, and its value is then the amount scaled by \<open>10^9\<close> over the rate cut to nine
  fractional digits.
\<close>

lemma decimal_division_value:
  assumes "uint_decimal L"
  shows "decimal_division L a b = Ok c \<longleftrightarrow>
     1000000000 \<le> units b \<and> unat a * E18 div (units b div 1000000000) < 2 ^ 128
     \<and> unat c = unat a * 1000000000 div (units b div 1000000000)"
  using uint_decimal.decimal_division_iff [OF assms]
  by (simp add: quotient_9_def div_greater_zero_iff)

text \<open>
  C35: because the rate is cut to nine digits before dividing, the quotient is never below the exact
  floor of the amount over the rate, and it exceeds the floor taken at the rate lowered by less
  than \<open>10^-9\<close> in no case.
\<close>

theorem decimal_division_bounds:
  assumes "uint_decimal L" and "decimal_division L a b = Ok c"
  shows "unat a * E18 div units b \<le> unat c \<and> unat c \<le> unat a * E18 div (units b - 999999999)"
proof -
  let ?q = "units b div 1000000000"
  from assms have q: "0 < ?q" and c: "unat c = unat a * 1000000000 div ?q"
    by (simp_all add: uint_decimal.decimal_division_iff quotient_9_def)
  have scale: "unat a * 1000000000 div ?q = unat a * E18 div (1000000000 * ?q)"
    using div_mult_mult1 [of 1000000000 "unat a * 1000000000" ?q]
    by (simp add: mult.left_commute mult.commute)
  have "1000000000 * ?q \<le> units b" by simp
  then have "unat a * E18 div units b \<le> unat a * E18 div (1000000000 * ?q)"
    using q by (intro div_le_mono2) simp_all
  moreover have "units b - 999999999 \<le> 1000000000 * ?q" and "0 < units b - 999999999"
    using q by linarith+
  then have "unat a * E18 div (1000000000 * ?q) \<le> unat a * E18 div (units b - 999999999)"
    by (intro div_le_mono2) simp_all
  ultimately show ?thesis using c scale by simp
qed

theorem decimal_division_bounds_witness:
  "decimal_division ref_lib 2000000000000 (Decimal 1000000000999999999) = Ok 2000000000000
   \<and> (2000000000000 :: nat) * E18 div 1000000000999999999 = 1999999998000
   \<and> (1999999998000 :: nat) \<le> 2000000000000"
  using decimal_division_bounds [OF ref_uint.uint_decimal_axioms,
      of 2000000000000 "Decimal 1000000000999999999" 2000000000000]
  by (simp add: ref_uint.decimal_division_iff quotient_9_def)

end
