(* ===== verification/HubBond.thy ===== *)
theory HubBond
  imports HubSlashing HubMath
begin

text \<open>
  \<open>contracts/prism_hub/src/bond.rs\<close>: bonding coins with a whitelisted validator and minting the
  token at the current exchange rate, less the peg recovery fee while the rate is below the
  threshold.
\<close>

section \<open>The handler\<close>

text \<open>The peg recovery fee of a bond (lines 60 to 67).\<close>

definition mint_less_peg_fee ::
  "cw_lib \<Rightarrow> decimal \<Rightarrow> decimal \<Rightarrow> decimal \<Rightarrow> u128 \<Rightarrow> u128 \<Rightarrow> u128 \<Rightarrow> u128 \<Rightarrow> u128 \<Rightarrow> u128 res" where
  "mint_less_peg_fee L rate threshold recovery_fee issued requested bonded paid minted =
     (if rate < threshold then
        and_then (uint_mul_dec L minted recovery_fee) (\<lambda>max_peg_fee.
        and_then (uint_add L issued minted) (\<lambda>supply1.
        and_then (uint_add L supply1 requested) (\<lambda>supply2.
        and_then (uint_add L bonded paid) (\<lambda>bond1.
        and_then (uint_checked_sub L supply2 bond1) (\<lambda>required_peg_fee.
        let peg_fee = min max_peg_fee required_peg_fee in
        uint_checked_sub L minted peg_fee)))))
      else Ok minted)"

definition execute_bond ::
  "cw_lib \<Rightarrow> querier \<Rightarrow> hub_storage \<Rightarrow> env \<Rightarrow> message_info \<Rightarrow> string \<Rightarrow>
   (hub_storage \<times> response) res" where
  "execute_bond L Q st env info validator =
     and_then (is_valid_validator L st validator) (\<lambda>is_valid.
     if \<not> is_valid
     then Err (GenericErr ''The chosen validator is currently not supported'')
     else
     and_then (load ''Parameters'' (PARAMETERS st)) (\<lambda>params.
     let coin_denom = underlying_coin_denom params;
         threshold = er_threshold params;
         recovery_fee = peg_recovery_fee params in
     and_then (load ''CurrentBatch'' (CURRENT_BATCH st)) (\<lambda>batch.
     let requested = requested_with_fee batch in
     if 1 < length (funds info)
     then Err (GenericErr ''More than one coin is sent; only one asset is supported'')
     else
     and_then (ok_or (GenericErr (''No '' @ coin_denom @ '' assets are provided to bond''))
                 (find_payment coin_denom (funds info))) (\<lambda>payment.
     and_then (slashing L Q st env) (\<lambda>st1.
     and_then (load ''State'' (STATE st1)) (\<lambda>state.
     and_then (unwrap_or 0 (query_total_issued L Q st1)) (\<lambda>total_supply.
     and_then (decimal_division L (coin_amount payment) (exchange_rate state)) (\<lambda>mint_amount.
     and_then (mint_less_peg_fee L (exchange_rate state) threshold recovery_fee total_supply requested
                 (total_bond_amount state) (coin_amount payment) mint_amount) (\<lambda>mint_amount_with_fee.
     and_then (uint_add L total_supply mint_amount_with_fee) (\<lambda>total_supply'.
     and_then (uint_add L (total_bond_amount state) (coin_amount payment)) (\<lambda>bonded.
     and_then (update_exchange_rate L (state\<lparr>total_bond_amount := bonded\<rparr>) total_supply' requested)
       (\<lambda>state'.
     let st2 = st1\<lparr>STATE := Some state'\<rparr> in
     and_then (load_config st2) (\<lambda>config.
     and_then (expect ''the token contract must have been registered'' (token_contract config))
       (\<lambda>token.
     and_then (addr_humanize L token) (\<lambda>token_address.
     Ok (st2,
         respond
           [Delegate validator payment,
            WasmExecute token_address (Cw20Msg (Mint (sender info) mint_amount_with_fee)) []]
           [(''action'', AttrText ''mint''), (''from'', AttrText (sender info)),
            (''bonded'', AttrUint (coin_amount payment)),
            (''minted'', AttrUint mint_amount_with_fee)]))))))))))))))))"

declare mint_less_peg_fee_def [eval_defs] execute_bond_def [eval_defs]

section \<open>What it does\<close>

lemma execute_bond_OkE:
  assumes "execute_bond L Q st env info v = Ok (st', r)"
  obtains p cb pay st1 s issued minted m issued' bonded s' cfg token addr where
    "is_valid_validator L st v = Ok True" and "PARAMETERS st = Some p" and "CURRENT_BATCH st = Some cb"
    and "length (funds info) \<le> 1" and "find_payment (underlying_coin_denom p) (funds info) = Some pay"
    and "slashing L Q st env = Ok st1" and "STATE st1 = Some s"
    and "unwrap_or 0 (query_total_issued L Q st1) = Ok issued"
    and "decimal_division L (coin_amount pay) (exchange_rate s) = Ok minted"
    and "mint_less_peg_fee L (exchange_rate s) (er_threshold p) (peg_recovery_fee p) issued
           (requested_with_fee cb) (total_bond_amount s) (coin_amount pay) minted = Ok m"
    and "uint_add L issued m = Ok issued'"
    and "uint_add L (total_bond_amount s) (coin_amount pay) = Ok bonded"
    and "update_exchange_rate L (s\<lparr>total_bond_amount := bonded\<rparr>) issued' (requested_with_fee cb) = Ok s'"
    and "st' = st1\<lparr>STATE := Some s'\<rparr>" and "CONFIG st1 = Some (CurrentConfig cfg)"
    and "token_contract cfg = Some token" and "addr_humanize L token = Ok addr"
    and "messages r = [Delegate v pay, WasmExecute addr (Cw20Msg (Mint (sender info) m)) []]"
  using assms unfolding execute_bond_def Let_def
  by (clarsimp simp: res_simps split: if_splits)

context uint_decimal
begin

text \<open>
  The fee is at most the recovery fee's share of the minted tokens, and at most what is missing to
  one coin per token.
\<close>

lemma mint_less_peg_fee_OkD:
  assumes "mint_less_peg_fee L rate threshold fee issued requested bonded paid minted = Ok m"
  shows "m \<le> minted" and "threshold \<le> rate \<Longrightarrow> m = minted"
    and "rate < threshold \<Longrightarrow>
      unat bonded + unat paid \<le> unat issued + unat minted + unat requested
      \<and> unat m + min (unat minted * units fee div E18)
          (unat issued + unat minted + unat requested - (unat bonded + unat paid)) = unat minted
      \<and> unat bonded + unat paid \<le> unat issued + unat m + unat requested"
proof -
  have low: "m \<le> minted \<and> unat bonded + unat paid \<le> unat issued + unat minted + unat requested
      \<and> unat m + min (unat minted * units fee div E18)
          (unat issued + unat minted + unat requested - (unat bonded + unat paid)) = unat minted
      \<and> unat bonded + unat paid \<le> unat issued + unat m + unat requested" if "rate < threshold"
  proof -
    from assms that obtain mx s1 s2 b1 req where "uint_mul_dec L minted fee = Ok mx"
      and "uint_add L issued minted = Ok s1" and "uint_add L s1 requested = Ok s2"
      and "uint_add L bonded paid = Ok b1" and "uint_checked_sub L s2 b1 = Ok req"
      and "uint_checked_sub L minted (min mx req) = Ok m"
      by (auto simp: mint_less_peg_fee_def Let_def)
    then have mx: "unat mx = unat minted * units fee div E18"
      and sums: "unat issued + unat minted + unat requested = unat bonded + unat paid + unat req"
      and m: "unat minted = unat (min mx req) + unat m"
      by (simp_all add: arith_iffs)
    note min = unat_min [of mx req]
    show ?thesis
      unfolding mx [symmetric] word_le_nat_alt using sums m min by auto
  qed
  then show "rate < threshold \<Longrightarrow>
      unat bonded + unat paid \<le> unat issued + unat minted + unat requested
      \<and> unat m + min (unat minted * units fee div E18)
          (unat issued + unat minted + unat requested - (unat bonded + unat paid)) = unat minted
      \<and> unat bonded + unat paid \<le> unat issued + unat m + unat requested" by blast
  show eq: "threshold \<le> rate \<Longrightarrow> m = minted"
    using assms by (auto simp: mint_less_peg_fee_def split: if_splits)
  show "m \<le> minted" using low eq by (cases "rate < threshold") auto
qed

end

section \<open>Properties\<close>

text \<open>
  C20: a successful bond carries exactly one coin of the bonded kind for a whitelisted validator. It
  adds the whole payment to the bonded amount left by the slashing check, delegates it to the chosen
  validator, and mints to the caller, through the registered token contract, at most the payment
  divided by the exchange rate, and exactly that when the rate has reached the threshold. The new
  rate is the new bond per issued and requested token; every other cell is kept.
\<close>

theorem execute_bond_effect:
  assumes "uint_decimal L" and "execute_bond L Q st env info v = Ok (st', r)"
    and "PARAMETERS st = Some p" and "CURRENT_BATCH st = Some cb"
  shows "\<exists>pay st1 s s' issued minted m token addr cfg.
      funds info = [pay] \<and> denom pay = underlying_coin_denom p \<and> 0 < unat (coin_amount pay)
    \<and> is_valid_validator L st v = Ok True
    \<and> slashing L Q st env = Ok st1 \<and> STATE st1 = Some s
    \<and> unwrap_or 0 (query_total_issued L Q st1) = Ok issued
    \<and> st' = st\<lparr>STATE := Some s'\<rparr>
    \<and> unat (total_bond_amount s') = unat (total_bond_amount s) + unat (coin_amount pay)
    \<and> units (exchange_rate s') = rate_units (unat (total_bond_amount s'))
         (unat issued + unat m + unat (requested_with_fee cb))
    \<and> s' = s\<lparr>total_bond_amount := total_bond_amount s', exchange_rate := exchange_rate s'\<rparr>
    \<and> decimal_division L (coin_amount pay) (exchange_rate s) = Ok minted \<and> m \<le> minted
    \<and> (er_threshold p \<le> exchange_rate s \<longrightarrow> m = minted)
    \<and> CONFIG st = Some (CurrentConfig cfg) \<and> token_contract cfg = Some token
    \<and> addr_humanize L token = Ok addr
    \<and> messages r = [Delegate v pay, WasmExecute addr (Cw20Msg (Mint (sender info) m)) []]"
proof -
  from assms(2) obtain p' cb' pay st1 s issued minted m issued' bonded s' cfg token addr where
    valid: "is_valid_validator L st v = Ok True" and "PARAMETERS st = Some p'"
    and "CURRENT_BATCH st = Some cb'" and len: "length (funds info) \<le> 1"
    and pay: "find_payment (underlying_coin_denom p') (funds info) = Some pay"
    and sl: "slashing L Q st env = Ok st1" and s: "STATE st1 = Some s"
    and iss: "unwrap_or 0 (query_total_issued L Q st1) = Ok issued"
    and div: "decimal_division L (coin_amount pay) (exchange_rate s) = Ok minted"
    and mint: "mint_less_peg_fee L (exchange_rate s) (er_threshold p') (peg_recovery_fee p') issued
           (requested_with_fee cb') (total_bond_amount s) (coin_amount pay) minted = Ok m"
    and add: "uint_add L issued m = Ok issued'"
      "uint_add L (total_bond_amount s) (coin_amount pay) = Ok bonded"
    and upd: "update_exchange_rate L (s\<lparr>total_bond_amount := bonded\<rparr>) issued'
           (requested_with_fee cb') = Ok s'"
    and st': "st' = st1\<lparr>STATE := Some s'\<rparr>" and cfg: "CONFIG st1 = Some (CurrentConfig cfg)"
      "token_contract cfg = Some token" "addr_humanize L token = Ok addr"
    and msgs: "messages r = [Delegate v pay, WasmExecute addr (Cw20Msg (Mint (sender info) m)) []]"
    by (rule execute_bond_OkE)
  then have eqs: "p' = p" "cb' = cb" using assms(3,4) by simp_all
  have one: "funds info = [pay]" "denom pay = underlying_coin_denom p" "0 < unat (coin_amount pay)"
    using find_payment_SomeD [OF pay] len eqs
    by (cases "funds info"; simp add: unat_gt_0 word_gt_0)+
  obtain n q s0 where st1: "st1 = st\<lparr>STATE := Some (s0\<lparr>total_bond_amount := n, exchange_rate := q\<rparr>)\<rparr>"
    by (rule uint_decimal.slashing_frame [OF assms(1) sl])
  obtain q' where s': "s' = s\<lparr>total_bond_amount := bonded, exchange_rate := q'\<rparr>"
    and q': "units q' = rate_units (unat bonded) (unat issued' + unat (requested_with_fee cb))"
    using uint_decimal.update_exchange_rate_OkD [OF assms(1) upd] eqs by auto
  have sums: "unat issued' = unat issued + unat m"
    "unat bonded = unat (total_bond_amount s) + unat (coin_amount pay)"
    using add by (simp_all add: uint_decimal.uint_add_iff [OF assms(1)])
  have st'_st: "st' = st\<lparr>STATE := Some s'\<rparr>" and cfg_st: "CONFIG st = Some (CurrentConfig cfg)"
    using cfg(1) by (simp_all add: st' st1)
  note minted = uint_decimal.mint_less_peg_fee_OkD(1,2) [OF assms(1) mint]
  show ?thesis
    by (intro exI [of _ pay] exI [of _ st1] exI [of _ s] exI [of _ s'] exI [of _ issued]
        exI [of _ minted] exI [of _ m] exI [of _ token] exI [of _ addr] exI [of _ cfg] conjI impI
        one valid sl s iss st'_st div cfg_st cfg(2,3) msgs minted)
      (simp_all add: s' q' sums eqs)
qed

theorem execute_bond_effect_witness:
  "\<exists>st' r. execute_bond ref_lib (sample_querier 1000 1000 0) sample_storage (sample_env 100)
      \<lparr>sender = ''alice'', funds = [\<lparr>denom = ''uluna'', coin_amount = 500\<rparr>]\<rparr> ''val1'' = Ok (st', r)
    \<and> messages r = [Delegate ''val1'' \<lparr>denom = ''uluna'', coin_amount = 500\<rparr>,
        WasmExecute ''token'' (Cw20Msg (Mint ''alice'' 500)) []]
    \<and> (\<exists>s'. STATE st' = Some s' \<and> unat (total_bond_amount s') = 1500)"
proof -
  obtain st' r where ok: "execute_bond ref_lib (sample_querier 1000 1000 0) sample_storage
      (sample_env 100) \<lparr>sender = ''alice'', funds = [\<lparr>denom = ''uluna'', coin_amount = 500\<rparr>]\<rparr>
      ''val1'' = Ok (st', r)"
    and msgs: "messages r = [Delegate ''val1'' \<lparr>denom = ''uluna'', coin_amount = 500\<rparr>,
        WasmExecute ''token'' (Cw20Msg (Mint ''alice'' 500)) []]"
    by (simp add: sample_state_def eval_defs)
  from execute_bond_effect [OF ref_uint.uint_decimal_axioms ok sample_storage_sel(4,5)] ok msgs
  show ?thesis by (auto simp: sample_state_def eval_defs)
qed

text \<open>
  C24: while the rate is below the threshold a bond never lifts it above one: after the peg fee the
  bonded amount is still covered by the issued and requested tokens.
\<close>

theorem bond_peg_fee_restores_at_most_peg:
  assumes "uint_decimal L" and "execute_bond L Q st env info v = Ok (st', r)"
    and "PARAMETERS st = Some p" and "slashing L Q st env = Ok st1" and "STATE st1 = Some s"
    and "exchange_rate s < er_threshold p"
  shows "\<exists>s'. STATE st' = Some s' \<and> exchange_rate s' \<le> dec_one"
proof -
  from assms(2) obtain p' cb pay s0 issued minted m issued' bonded s' st1' where
    "PARAMETERS st = Some p'" and "CURRENT_BATCH st = Some cb"
    and "find_payment (underlying_coin_denom p') (funds info) = Some pay" and "slashing L Q st env = Ok st1'" and "STATE st1' = Some s0"
    and mint: "mint_less_peg_fee L (exchange_rate s0) (er_threshold p') (peg_recovery_fee p') issued
           (requested_with_fee cb) (total_bond_amount s0) (coin_amount pay) minted = Ok m"
    and add: "uint_add L issued m = Ok issued'"
      "uint_add L (total_bond_amount s0) (coin_amount pay) = Ok bonded"
    and upd: "update_exchange_rate L (s0\<lparr>total_bond_amount := bonded\<rparr>) issued'
           (requested_with_fee cb) = Ok s'"
    and st': "st' = st1'\<lparr>STATE := Some s'\<rparr>"
    by (rule execute_bond_OkE) blast
  then have "exchange_rate s0 < er_threshold p'" using assms by simp
  then have "unat bonded \<le> unat issued' + unat (requested_with_fee cb)"
    using uint_decimal.mint_less_peg_fee_OkD(3) [OF assms(1) mint] add
    by (simp add: uint_decimal.uint_add_iff [OF assms(1)])
  then have "rate_units (unat bonded) (unat issued' + unat (requested_with_fee cb)) \<le> E18"
    using mult_div_le [of "unat bonded" _ E18] by (simp add: rate_units_def mult.commute)
  with uint_decimal.update_exchange_rate_OkD [OF assms(1) upd] show ?thesis
    by (auto simp: st' decimal_le_units)
qed

theorem bond_peg_fee_restores_at_most_peg_witness:
  "\<exists>st' r. execute_bond ref_lib (sample_querier 900 1000 0) sample_storage (sample_env 100)
      \<lparr>sender = ''alice'', funds = [\<lparr>denom = ''uluna'', coin_amount = 900\<rparr>]\<rparr> ''val1'' = Ok (st', r)
    \<and> messages r = [Delegate ''val1'' \<lparr>denom = ''uluna'', coin_amount = 900\<rparr>,
        WasmExecute ''token'' (Cw20Msg (Mint ''alice'' 950)) []]
    \<and> (\<exists>s'. STATE st' = Some s' \<and> exchange_rate s' \<le> dec_one)"
proof -
  obtain st1 s where sl: "slashing ref_lib (sample_querier 900 1000 0) sample_storage (sample_env 100)
      = Ok st1" and s: "STATE st1 = Some s" and low: "exchange_rate s < er_threshold sample_params"
    by (simp add: sample_state_def eval_defs less_decimal_def)
  obtain st' r where ok: "execute_bond ref_lib (sample_querier 900 1000 0) sample_storage
      (sample_env 100) \<lparr>sender = ''alice'', funds = [\<lparr>denom = ''uluna'', coin_amount = 900\<rparr>]\<rparr>
      ''val1'' = Ok (st', r)"
    and msgs: "messages r = [Delegate ''val1'' \<lparr>denom = ''uluna'', coin_amount = 900\<rparr>,
        WasmExecute ''token'' (Cw20Msg (Mint ''alice'' 950)) []]"
    by (simp add: sample_state_def eval_defs less_decimal_def)
  from bond_peg_fee_restores_at_most_peg
      [OF ref_uint.uint_decimal_axioms ok sample_storage_sel(4) sl s low] ok msgs
  show ?thesis by blast
qed

end
