(* ===== verification/HubCompound.thy ===== *)
theory HubCompound
  imports HubSlashing
begin

text \<open>
  \<open>contracts/prism_hub/src/autho_compounding.rs\<close>: the rewards contract returns the claimed staking
  rewards to the hub; the protocol fee goes to the fee collector and the rest is delegated again,
  which raises the exchange rate.
\<close>

section \<open>The handler\<close>

text \<open>The protocol fee on the claimed rewards (lines 46 to 50).\<close>

definition protocol_fee_of :: "cw_lib \<Rightarrow> parameters \<Rightarrow> u128 \<Rightarrow> u128 res" where
  "protocol_fee_of L params claimed_rewards =
     (if protocol_fee params \<noteq> dec_zero then uint_mul_dec L claimed_rewards (protocol_fee params)
      else Ok 0)"

text \<open>The message that pays the fee, if there is a fee (lines 75 to 89).\<close>

definition fee_messages :: "cw_lib \<Rightarrow> hub_config \<Rightarrow> string \<Rightarrow> u128 \<Rightarrow> cosmos_msg list res" where
  "fee_messages L config coin_denom fee =
     (if fee \<noteq> 0 then
        (case protocol_fee_collector config of
           Some fee_collector \<Rightarrow>
             and_then (addr_humanize L fee_collector) (\<lambda>a.
             Ok [BankSend a [\<lparr>denom = coin_denom, coin_amount = fee\<rparr>]])
         | None \<Rightarrow> Err (GenericErr ''protocol fee collector address has not been set''))
      else Ok [])"

text \<open>The message that delegates the users' rewards, if there are any (lines 91 to 103).\<close>

definition redelegate_messages ::
  "delegation list \<Rightarrow> nat \<Rightarrow> string \<Rightarrow> u128 \<Rightarrow> cosmos_msg list res" where
  "redelegate_messages all_delegations index coin_denom user_rewards =
     (if user_rewards \<noteq> 0 then
        and_then (expect ''called Option::unwrap on a None value''
                    (vec_get all_delegations index)) (\<lambda>d.
        Ok [Delegate (del_validator d) \<lparr>denom = coin_denom, coin_amount = user_rewards\<rparr>])
      else Ok [])"

definition execute_update_exchange_rate ::
  "cw_lib \<Rightarrow> querier \<Rightarrow> hub_storage \<Rightarrow> env \<Rightarrow> message_info \<Rightarrow> (hub_storage \<times> response) res" where
  "execute_update_exchange_rate L Q st env info =
     and_then (load ''State'' (STATE st)) (\<lambda>state.
     and_then (load_config st) (\<lambda>config.
     and_then (expect ''called Option::unwrap on a None value'' (rewards_contract config)) (\<lambda>raw.
     and_then (addr_humanize L raw) (\<lambda>rewards_contract_addr.
     if rewards_contract_addr \<noteq> sender info then Err (GenericErr ''Unauthorized'')
     else
     and_then (load ''Parameters'' (PARAMETERS st)) (\<lambda>params.
     let coin_denom = underlying_coin_denom params in
     and_then (ok_or (GenericErr (''No '' @ coin_denom @ '' assets are provided to redelegate''))
                 (find_payment coin_denom (funds info))) (\<lambda>payment.
     let claimed_rewards = coin_amount payment in
     and_then (protocol_fee_of L params claimed_rewards) (\<lambda>fee.
     and_then (uint_checked_sub L claimed_rewards fee) (\<lambda>user_rewards.
     and_then (load ''CurrentBatch'' (CURRENT_BATCH st)) (\<lambda>current_batch.
     and_then (query_total_issued L Q st) (\<lambda>total_issued.
     and_then (uint_add L total_issued (requested_with_fee current_batch)) (\<lambda>total_balance.
     and_then (dec_from_ratio L user_rewards total_balance) (\<lambda>increase.
     and_then (dec_add L (exchange_rate state) increase) (\<lambda>rate.
     and_then (uint_add L (total_bond_amount state) user_rewards) (\<lambda>bonded.
     let st' = st\<lparr>STATE := Some (state\<lparr>exchange_rate := rate, total_bond_amount := bonded\<rparr>)\<rparr> in
     and_then (expect_ok ''There must be at least one delegation''
                 (query_all_delegations Q (contract_address env))) (\<lambda>all_delegations.
     and_then (gen_range L (block_height env) (length all_delegations)) (\<lambda>index.
     and_then (fee_messages L config coin_denom fee) (\<lambda>fee_msgs.
     and_then (redelegate_messages all_delegations index coin_denom user_rewards)
       (\<lambda>redelegate_msgs.
     Ok (st',
         respond (fee_msgs @ redelegate_msgs)
           [(''action'', AttrText ''update_exchange_rate''),
            (''reward_collected'', AttrUint claimed_rewards),
            (''protocol_fee'', AttrUint fee)])))))))))))))))))))"

lemmas hub_compound_defs =
  protocol_fee_of_def fee_messages_def redelegate_messages_def execute_update_exchange_rate_def

declare hub_compound_defs [eval_defs]

section \<open>What it does\<close>

text \<open>The coins of a kind that a message takes out of the hub's balance.\<close>

definition outgoing :: "string \<Rightarrow> cosmos_msg \<Rightarrow> nat" where
  "outgoing d m =
     (let total = (\<lambda>cs. \<Sum>c\<leftarrow>cs. if denom c = d then unat (coin_amount c) else 0) in
      case m of
        Delegate _ c \<Rightarrow> total [c]
      | BankSend _ cs \<Rightarrow> total cs
      | WasmExecute _ _ cs \<Rightarrow> total cs
      | _ \<Rightarrow> 0)"

lemma fee_messages_OkD:
  assumes "fee_messages L cfg d fee = Ok ms"
  shows "(\<Sum>m\<leftarrow>ms. outgoing d m) = unat fee"
    and "fee \<noteq> 0 \<Longrightarrow> \<exists>raw a. protocol_fee_collector cfg = Some raw \<and> addr_humanize L raw = Ok a
           \<and> ms = [BankSend a [\<lparr>denom = d, coin_amount = fee\<rparr>]]"
    and "fee = 0 \<Longrightarrow> ms = []"
  using assms by (auto simp: fee_messages_def outgoing_def split: if_splits option.splits)

lemma redelegate_messages_OkD:
  assumes "redelegate_messages ds i d amt = Ok ms"
  shows "(\<Sum>m\<leftarrow>ms. outgoing d m) = unat amt"
    and "amt \<noteq> 0 \<Longrightarrow> \<exists>x \<in> set ds. ms = [Delegate (del_validator x) \<lparr>denom = d, coin_amount = amt\<rparr>]"
    and "amt = 0 \<Longrightarrow> ms = []"
  using assms
  by (auto simp: redelegate_messages_def outgoing_def vec_get_def res_simps split: if_splits)

lemma execute_update_exchange_rate_OkE:
  assumes "execute_update_exchange_rate L Q st env info = Ok (st', r)"
  obtains s cfg raw p pay fee rewards cb issued total inc rate bonded ds i fms rms where
    "STATE st = Some s" and "CONFIG st = Some (CurrentConfig cfg)" and "rewards_contract cfg = Some raw"
    and "addr_humanize L raw = Ok (sender info)" and "PARAMETERS st = Some p"
    and "find_payment (underlying_coin_denom p) (funds info) = Some pay"
    and "protocol_fee_of L p (coin_amount pay) = Ok fee"
    and "uint_checked_sub L (coin_amount pay) fee = Ok rewards"
    and "CURRENT_BATCH st = Some cb" and "query_total_issued L Q st = Ok issued"
    and "uint_add L issued (requested_with_fee cb) = Ok total"
    and "dec_from_ratio L rewards total = Ok inc" and "dec_add L (exchange_rate s) inc = Ok rate"
    and "uint_add L (total_bond_amount s) rewards = Ok bonded"
    and "st' = st\<lparr>STATE := Some (s\<lparr>exchange_rate := rate, total_bond_amount := bonded\<rparr>)\<rparr>"
    and "query_all_delegations Q (contract_address env) = Ok ds"
    and "gen_range L (block_height env) (length ds) = Ok i"
    and "fee_messages L cfg (underlying_coin_denom p) fee = Ok fms"
    and "redelegate_messages ds i (underlying_coin_denom p) rewards = Ok rms"
    and "messages r = fms @ rms"
  using assms unfolding execute_update_exchange_rate_def Let_def
  by (clarsimp simp: res_simps split: if_splits)

context uint_decimal
begin

lemma protocol_fee_of_value:
  "protocol_fee_of L p n = Ok fee \<Longrightarrow> unat fee = unat n * units (protocol_fee p) div E18"
  by (auto simp: protocol_fee_of_def mul_dec_iff split: if_splits)

lemma compounding_effect:
  assumes "execute_update_exchange_rate L Q st env info = Ok (st', r)"
    and "PARAMETERS st = Some p" and "STATE st = Some s" and "CONFIG st = Some (CurrentConfig cfg)"
  shows "\<exists>pay (fee :: u128) (rewards :: u128) s' raw.
      rewards_contract cfg = Some raw \<and> addr_humanize L raw = Ok (sender info)
    \<and> find_payment (underlying_coin_denom p) (funds info) = Some pay
    \<and> unat fee = unat (coin_amount pay) * units (protocol_fee p) div E18
    \<and> unat fee + unat rewards = unat (coin_amount pay)
    \<and> (\<Sum>m\<leftarrow>messages r. outgoing (underlying_coin_denom p) m) = unat (coin_amount pay)
    \<and> st' = st\<lparr>STATE := Some s'\<rparr>
    \<and> unat (total_bond_amount s') = unat (total_bond_amount s) + unat rewards
    \<and> exchange_rate s \<le> exchange_rate s'
    \<and> s' = s\<lparr>total_bond_amount := total_bond_amount s', exchange_rate := exchange_rate s'\<rparr>"
proof -
  from assms(1) obtain s0 cfg0 raw p0 pay fee rewards cb issued total inc rate bonded ds i fms rms where
    "STATE st = Some s0" "CONFIG st = Some (CurrentConfig cfg0)" "PARAMETERS st = Some p0"
    and raw: "rewards_contract cfg0 = Some raw" and snd: "addr_humanize L raw = Ok (sender info)"
    and pay: "find_payment (underlying_coin_denom p0) (funds info) = Some pay"
    and fee: "protocol_fee_of L p0 (coin_amount pay) = Ok fee"
    and sub: "uint_checked_sub L (coin_amount pay) fee = Ok rewards"
    and "CURRENT_BATCH st = Some cb"
    and "uint_add L issued (requested_with_fee cb) = Ok total"
    and "dec_from_ratio L rewards total = Ok inc" and rate: "dec_add L (exchange_rate s0) inc = Ok rate"
    and bond: "uint_add L (total_bond_amount s0) rewards = Ok bonded"
    and st': "st' = st\<lparr>STATE := Some (s0\<lparr>exchange_rate := rate, total_bond_amount := bonded\<rparr>)\<rparr>"
    and fms: "fee_messages L cfg0 (underlying_coin_denom p0) fee = Ok fms"
    and rms: "redelegate_messages ds i (underlying_coin_denom p0) rewards = Ok rms"
    and msgs: "messages r = fms @ rms"
    by (rule execute_update_exchange_rate_OkE) blast
  then have eqs: "s0 = s" "cfg0 = cfg" "p0 = p" using assms(2-4) by simp_all
  have sums: "unat (coin_amount pay) = unat fee + unat rewards"
    "unat bonded = unat (total_bond_amount s) + unat rewards" "units rate = units (exchange_rate s) + units inc"
    using sub bond rate eqs by (simp_all add: arith_iffs)
  have out: "(\<Sum>m\<leftarrow>messages r. outgoing (underlying_coin_denom p) m) = unat fee + unat rewards"
    using fee_messages_OkD(1) [OF fms] redelegate_messages_OkD(1) [OF rms] by (simp add: msgs eqs)
  note fee_val = protocol_fee_of_value [OF fee, unfolded eqs]
  show ?thesis
    by (intro exI [of _ pay] exI [of _ fee] exI [of _ rewards]
        exI [of _ "s\<lparr>exchange_rate := rate, total_bond_amount := bonded\<rparr>"] exI [of _ raw] conjI
        raw [unfolded eqs] snd pay [unfolded eqs] fee_val st' [unfolded eqs])
      (simp_all add: sums out decimal_le_units)
qed

end

section \<open>The rate\<close>

text \<open>
  Adding the rewards per token to the stored rate agrees with recomputing the rate from the new
  bond. If the stored rate was the bond per issued and requested token, then after compounding it is
  the recomputed rate or one unit of the eighteenth digit below it.
\<close>

lemma compounding_rate_drift:
  assumes "uint_decimal L" and "execute_update_exchange_rate L Q st env info = Ok (st', r)"
    and "STATE st = Some s" and "CURRENT_BATCH st = Some cb" and "query_total_issued L Q st = Ok issued"
    and "units (exchange_rate s) =
      unat (total_bond_amount s) * E18 div (unat issued + unat (requested_with_fee cb))"
  shows "\<exists>s'. STATE st' = Some s' \<and>
    (let recomputed = unat (total_bond_amount s') * E18 div (unat issued + unat (requested_with_fee cb))
     in units (exchange_rate s') \<le> recomputed \<and> recomputed \<le> units (exchange_rate s') + 1)"
proof -
  from assms(2) obtain s0 cb0 issued0 rewards total inc rate bonded where
    "STATE st = Some s0" "CURRENT_BATCH st = Some cb0" "query_total_issued L Q st = Ok issued0"
    and "uint_add L issued0 (requested_with_fee cb0) = Ok total"
    and "dec_from_ratio L rewards total = Ok inc" and "dec_add L (exchange_rate s0) inc = Ok rate"
    and "uint_add L (total_bond_amount s0) rewards = Ok bonded"
    and st': "st' = st\<lparr>STATE := Some (s0\<lparr>exchange_rate := rate, total_bond_amount := bonded\<rparr>)\<rparr>"
    by (rule execute_update_exchange_rate_OkE) blast
  moreover from this(1-3) have eqs: "s0 = s" "cb0 = cb" "issued0 = issued"
    using assms(3-5) by simp_all
  ultimately have tot: "unat total = unat issued + unat (requested_with_fee cb)" "0 < unat total"
    and inc: "units inc = unat rewards * E18 div unat total"
    and rate: "units rate = units (exchange_rate s) + units inc"
    and bonded: "unat bonded = unat (total_bond_amount s) + unat rewards"
    by (simp_all add: uint_decimal.arith_iffs [OF assms(1)])
  have "unat bonded * E18 = unat (total_bond_amount s) * E18 + unat rewards * E18"
    by (simp add: bonded algebra_simps)
  then have "units rate \<le> unat bonded * E18 div unat total"
    "unat bonded * E18 div unat total \<le> units rate + 1"
    using assms(6) tot div_add_le [of "unat (total_bond_amount s) * E18" "unat total" "unat rewards * E18"]
      div_add_le_Suc [of "unat total" "unat (total_bond_amount s) * E18" "unat rewards * E18"]
    by (simp_all add: rate inc)
  then show ?thesis by (simp add: st' eqs tot(1) [symmetric])
qed

end
