(* ===== verification/HubUndelegate.thy ===== *)
theory HubUndelegate
  imports HubSlashing
begin

text \<open>
  \<open>pick_validator\<close> of \<open>contracts/prism_hub/src/unbond.rs\<close>: an amount to undelegate is spread over
  randomly picked delegations until it is covered.
\<close>

section \<open>The loop\<close>

definition undelegate_from :: "cw_lib \<Rightarrow> u128 \<Rightarrow> u128 \<Rightarrow> (u128 \<times> u128) res" where
  "undelegate_from L val claimed =
     (if claimed < val then Ok (claimed, 0)
      else and_then (uint_checked_sub L claimed val) (\<lambda>rest. Ok (val, rest)))"

function pick_loop ::
  "cw_lib \<Rightarrow> string \<Rightarrow> u64 \<Rightarrow> u64 \<Rightarrow> u128 \<Rightarrow> delegation list \<Rightarrow> cosmos_msg list \<Rightarrow> cosmos_msg list res"
where
  "pick_loop L coin_denom height iteration_index claimed deletable_delegations msgs =
     (if claimed = 0 then Ok msgs
      else
        and_then (u64_add height iteration_index) (\<lambda>seed.
        and_then (gen_range L seed (length deletable_delegations)) (\<lambda>index.
        and_then (vec_remove deletable_delegations index) (\<lambda>(delegation, others).
        and_then (undelegate_from L (coin_amount (del_amount delegation)) claimed)
          (\<lambda>(undelegated_amount, claimed').
        and_then (u64_add iteration_index 1) (\<lambda>iteration_index'.
        pick_loop L coin_denom height iteration_index' claimed' others
          (if 0 < undelegated_amount
           then msgs @ [Undelegate (del_validator delegation)
                          \<lparr>denom = coin_denom, coin_amount = undelegated_amount\<rparr>]
           else msgs)))))))"
  by pat_completeness auto

termination
  by (relation "measure (\<lambda>(L, d, h, k, c, ds, ms). length ds)") (auto dest: vec_removeD(1))

definition pick_validator ::
  "cw_lib \<Rightarrow> querier \<Rightarrow> hub_storage \<Rightarrow> u128 \<Rightarrow> addr \<Rightarrow> u64 \<Rightarrow> cosmos_msg list res" where
  "pick_validator L Q st claim delegator height =
     and_then (load ''Parameters'' (PARAMETERS st)) (\<lambda>params.
     and_then (expect_ok ''There must be at least one delegation''
                 (query_all_delegations Q delegator)) (\<lambda>all_delegations.
     pick_loop L (underlying_coin_denom params) height 0 claim all_delegations []))"

declare pick_loop.simps [simp del]

lemma pick_loop_done [simp]: "pick_loop L d h k 0 ds msgs = Ok msgs"
  by (simp add: pick_loop.simps)

declare undelegate_from_def [eval_defs] pick_loop.simps [eval_defs] pick_validator_def [eval_defs]

section \<open>What it picks\<close>

text \<open>
  The abstract contract: a choice of delegations, each at most once, with an amount taken from each
  that is positive and at most what is delegated.
\<close>

definition delegated :: "delegation list \<Rightarrow> nat" where
  "delegated ds = (\<Sum>d\<leftarrow>ds. unat (coin_amount (del_amount d)))"

definition covers :: "(delegation \<times> u128) list \<Rightarrow> delegation list \<Rightarrow> nat \<Rightarrow> bool" where
  "covers picks ds n =
     (mset (map fst picks) \<subseteq># mset ds
      \<and> (\<forall>(d, u) \<in> set picks. 0 < u \<and> u \<le> coin_amount (del_amount d))
      \<and> (\<Sum>(d, u)\<leftarrow>picks. unat u) = n)"

definition undelegations :: "string \<Rightarrow> (delegation \<times> u128) list \<Rightarrow> cosmos_msg list" where
  "undelegations coin_denom picks =
     map (\<lambda>(d, u). Undelegate (del_validator d) \<lparr>denom = coin_denom, coin_amount = u\<rparr>) picks"

lemma undelegations_simps [simp]:
  "undelegations d [] = []"
  "undelegations d ((x, u) # ps) =
     Undelegate (del_validator x) \<lparr>denom = d, coin_amount = u\<rparr> # undelegations d ps"
  by (simp_all add: undelegations_def)

lemma covers_Nil: "covers [] ds 0"
  by (simp add: covers_def)

lemma covers_skip:
  assumes "covers ps ds' n" and "mset ds = add_mset d (mset ds')"
  shows "covers ps ds n"
  using assms by (auto simp: covers_def intro: subset_mset.order_trans)

lemma covers_pick:
  assumes "covers ps ds' n" and "mset ds = add_mset d (mset ds')"
    and "0 < u" and "u \<le> coin_amount (del_amount d)"
  shows "covers ((d, u) # ps) ds (unat u + n)"
  using assms by (auto simp: covers_def)

lemma delegated_mset: "mset ds = add_mset d (mset ds') \<Longrightarrow>
    delegated ds = unat (coin_amount (del_amount d)) + delegated ds'"
  by (metis (no_types) delegated_def mset_map sum_mset_sum_list image_mset_add_mset sum_mset.add_mset)

context cosmwasm
begin

lemma undelegate_from_eq:
  "\<exists>u rest. undelegate_from L val claimed = Ok (u, rest) \<and> u \<le> val \<and> unat claimed = unat u + unat rest
     \<and> (u = val \<or> rest = 0)"
proof (cases "claimed < val")
  case False
  then have "val \<le> claimed" by simp
  then have "uint_checked_sub L claimed val = Ok (claimed - val)"
    and "unat claimed = unat val + unat (claimed - val)"
    by (simp_all add: checked_sub_le unat_sub_le word_le_nat_alt [symmetric])
  with False show ?thesis by (simp add: undelegate_from_def)
qed (simp add: undelegate_from_def)

text \<open>One iteration: a random entry leaves the list and gives what is left of the claim.\<close>

lemma pick_loop_step:
  assumes "claimed \<noteq> 0" and "ds \<noteq> []" and "unat h + unat k + length ds < 2 ^ 64"
  obtains x u rest ds' where "length ds = Suc (length ds')" and "mset ds = add_mset x (mset ds')"
    and "u \<le> coin_amount (del_amount x)" and "unat claimed = unat u + unat rest"
    and "u = coin_amount (del_amount x) \<or> rest = 0" and "unat (k + 1) = unat k + 1"
    and "\<And>msgs. pick_loop L d h k claimed ds msgs = pick_loop L d h (k + 1) rest ds'
           (if 0 < u then msgs @ undelegations d [(x, u)] else msgs)"
proof -
  obtain i where i: "i < length ds" "gen_range L (h + k) (length ds) = Ok i"
    using gen_range_in [of "length ds" "h + k"] assms(2) by auto
  obtain x ds' where x: "vec_remove ds i = Ok (x, ds')" using vec_remove_fits [OF i(1)] by blast
  obtain u rest where u: "undelegate_from L (coin_amount (del_amount x)) claimed = Ok (u, rest)"
    and facts: "u \<le> coin_amount (del_amount x)" "unat claimed = unat u + unat rest"
      "u = coin_amount (del_amount x) \<or> rest = 0"
    using undelegate_from_eq by blast
  have "length ds \<noteq> 0" using assms(2) by simp
  then have "unat h + unat k < 2 ^ 64" and "unat k + 1 < 2 ^ 64" using assms(3) by linarith+
  then have k: "u64_add h k = Ok (h + k)" "u64_add k 1 = Ok (k + 1)" "unat (k + 1) = unat k + 1"
    by (simp_all add: u64_add_def unat_add_no_overflow)
  have "pick_loop L d h k claimed ds msgs = pick_loop L d h (k + 1) rest ds'
      (if 0 < u then msgs @ undelegations d [(x, u)] else msgs)" for msgs
    using assms(1) by (simp add: pick_loop.simps [of _ _ _ _ claimed] k i(2) x u)
  then show thesis by (rule that [OF vec_removeD(1,2) [OF x] facts k(3)])
qed

text \<open>
  The loop always ends with a choice that covers the claim when there is enough delegated, and
  panics, having run out of delegations, when there is not.
\<close>

lemma pick_loop_covers:
  assumes "unat h + unat k + length ds < 2 ^ 64"
  shows "if unat claimed \<le> delegated ds
     then \<exists>picks. pick_loop L d h k claimed ds msgs = Ok (msgs @ undelegations d picks)
            \<and> covers picks ds (unat claimed)
     else is_panic (pick_loop L d h k claimed ds msgs)"
  using assms
proof (induction "length ds" arbitrary: ds k claimed msgs rule: less_induct)
  case less
  consider "claimed = 0" | "claimed \<noteq> 0" "ds = []" | "claimed \<noteq> 0" "ds \<noteq> []" by blast
  then show ?case
  proof cases
    case 1
    then show ?thesis using covers_Nil by (auto intro: exI [of _ "[]"])
  next
    case 2
    with less.prems gen_range_empty [of "h + k"] have "is_panic (pick_loop L d h k claimed ds msgs)"
      by (auto simp: pick_loop.simps [of _ _ _ _ claimed] u64_add_def is_panic_iff)
    with 2 show ?thesis by (simp add: delegated_def unat_eq_zero)
  next
    case 3
    obtain x u rest ds' where ds: "length ds = Suc (length ds')" "mset ds = add_mset x (mset ds')"
      and ule: "u \<le> coin_amount (del_amount x)" and sum: "unat claimed = unat u + unat rest"
      and stop: "u = coin_amount (del_amount x) \<or> rest = 0" and k: "unat (k + 1) = unat k + 1"
      and step: "\<And>msgs. pick_loop L d h k claimed ds msgs = pick_loop L d h (k + 1) rest ds'
           (if 0 < u then msgs @ undelegations d [(x, u)] else msgs)"
      using 3 less.prems by (rule pick_loop_step [where d = d]) blast
    let ?picks = "\<lambda>ps. if 0 < u then (x, u) # ps else ps"
    have enough: "unat claimed \<le> delegated ds \<longleftrightarrow> unat rest \<le> delegated ds'"
      using stop sum ule by (auto simp: delegated_mset [OF ds(2)] word_le_nat_alt)
    have cover: "covers (?picks ps) ds (unat claimed)" if "covers ps ds' (unat rest)" for ps
      using covers_pick [OF that ds(2) _ ule] covers_skip [OF that ds(2)] sum
      by (cases "u = 0") (auto simp: word_gt_0)
    have msgs': "(if 0 < u then msgs @ undelegations d [(x, u)] else msgs) @ undelegations d ps
        = msgs @ undelegations d (?picks ps)" for ps by simp
    have "unat h + unat (k + 1) + length ds' < 2 ^ 64" and "length ds' < length ds"
      using less.prems ds(1) k by simp_all
    from less.hyps [OF this(2,1), of rest "if 0 < u then msgs @ undelegations d [(x, u)] else msgs"]
    show ?thesis unfolding step enough msgs' using cover
      by (cases "unat rest \<le> delegated ds'") (simp_all only: if_True if_False, blast)
  qed
qed

lemma pick_validator_eq:
  assumes "PARAMETERS st = Some p" and "query_all_delegations Q delegator = Ok ds"
    and "unat height + length ds < 2 ^ 64"
  shows "if unat claim \<le> delegated ds
     then \<exists>picks. pick_validator L Q st claim delegator height
              = Ok (undelegations (underlying_coin_denom p) picks)
            \<and> covers picks ds (unat claim)
     else is_panic (pick_validator L Q st claim delegator height)"
  using pick_loop_covers [of height 0 ds claim "underlying_coin_denom p" "[]"] assms
  by (simp add: pick_validator_def split: if_splits)

lemma pick_validator_OkD:
  assumes "pick_validator L Q st claim delegator height = Ok msgs"
    and "PARAMETERS st = Some p" and "query_all_delegations Q delegator = Ok ds"
    and "unat height + length ds < 2 ^ 64"
  shows "\<exists>picks. msgs = undelegations (underlying_coin_denom p) picks \<and> covers picks ds (unat claim)"
  using pick_validator_eq [OF assms(2-4), of claim] assms(1)
  by (auto split: if_splits)

end

section \<open>Properties\<close>

text \<open>
  C17: undelegating is totally correct. With a parameter set and a delegation list at hand, and block
  heights below the wrap-around, the loop ends; when the delegations hold the claim, the messages
  undelegate exactly the claim, each from a different entry of the delegation list, a positive
  amount that is at most what is delegated there; when they do not, the call panics and never
  undelegates a part only.
\<close>

theorem pick_validator_covers_claim:
  assumes "cosmwasm L" and "PARAMETERS st = Some p" and "query_all_delegations Q delegator = Ok ds"
    and "unat height + length ds < 2 ^ 64"
  shows "if unat claim \<le> delegated ds
     then \<exists>picks. pick_validator L Q st claim delegator height
              = Ok (undelegations (underlying_coin_denom p) picks)
            \<and> covers picks ds (unat claim)
     else is_panic (pick_validator L Q st claim delegator height)"
  using assms(2-4) by (rule cosmwasm.pick_validator_eq [OF assms(1)])

theorem pick_validator_covers_claim_witness:
  "\<exists>picks. pick_validator ref_lib (sample_querier 1000 1000 0) sample_storage 600 ''hub'' 7
      = Ok (undelegations ''uluna'' picks) \<and> covers picks [sample_delegation 1000] 600"
  using pick_validator_covers_claim [OF cosmwasm_ref_lib sample_storage_sel(4)
      sample_querier_sel(1) [of 1000 1000 0 "''hub''"], of 7 600]
  by (simp add: delegated_def)

end
