(* ===== verification/HubUnbond.thy ===== *)
theory HubUnbond
  imports HubUndelegate
begin

text \<open>
  \<open>execute_unbond\<close> of \<open>contracts/prism_hub/src/unbond.rs\<close>: burning tokens against a claim in the
  current batch, less the peg recovery fee, and closing the batch once its epoch has passed.
\<close>

section \<open>The handler\<close>

text \<open>The peg recovery fee of an unbond (lines 41 to 49).\<close>

definition unbond_less_peg_fee ::
  "cw_lib \<Rightarrow> decimal \<Rightarrow> decimal \<Rightarrow> decimal \<Rightarrow> u128 \<Rightarrow> u128 \<Rightarrow> u128 \<Rightarrow> u128 \<Rightarrow> u128 res" where
  "unbond_less_peg_fee L rate threshold recovery_fee issued requested bonded amount =
     (if rate < threshold then
        and_then (uint_mul_dec L amount recovery_fee) (\<lambda>max_peg_fee.
        and_then (uint_add L issued requested) (\<lambda>claims.
        and_then (uint_checked_sub L claims bonded) (\<lambda>required_peg_fee.
        let peg_fee = min max_peg_fee required_peg_fee in
        uint_checked_sub L amount peg_fee)))
      else Ok amount)"

text \<open>The undelegation of the batch whose epoch has passed (lines 72 to 114).\<close>

definition close_batch ::
  "cw_lib \<Rightarrow> querier \<Rightarrow> hub_storage \<Rightarrow> env \<Rightarrow> hub_state \<Rightarrow> current_batch \<Rightarrow>
   (hub_storage \<times> hub_state \<times> current_batch \<times> cosmos_msg list) res" where
  "close_batch L Q st env state batch =
     and_then (uint_mul_dec L (requested_with_fee batch) (exchange_rate state)) (\<lambda>undelegation_amount.
     if undelegation_amount = 1
     then Err (GenericErr ''Burn amount must be greater than 1 ubluna'')
     else
     and_then (pick_validator L Q st undelegation_amount (contract_address env) (block_height env))
       (\<lambda>undelegated_msgs.
     and_then (expect_ok ''undelegation amount can not be more than stored total bonded amount''
                 (uint_checked_sub L (total_bond_amount state) undelegation_amount)) (\<lambda>bonded.
     let history =
           \<lparr>hist_batch_id = cb_id batch, hist_time = block_seconds env,
            hist_amount = requested_with_fee batch,
            applied_exchange_rate = exchange_rate state,
            withdraw_rate = exchange_rate state, released = False\<rparr> in
     and_then (store_unbond_history st (cb_id batch) history) (\<lambda>st'.
     and_then (u64_add (cb_id batch) 1) (\<lambda>next_id.
     Ok (st', state\<lparr>total_bond_amount := bonded, last_unbonded_time := block_seconds env\<rparr>,
         \<lparr>cb_id = next_id, requested_with_fee = 0\<rparr>, undelegated_msgs))))))"

definition execute_unbond ::
  "cw_lib \<Rightarrow> querier \<Rightarrow> hub_storage \<Rightarrow> env \<Rightarrow> u128 \<Rightarrow> string \<Rightarrow> (hub_storage \<times> response) res" where
  "execute_unbond L Q st env amount user =
     and_then (load ''Parameters'' (PARAMETERS st)) (\<lambda>params.
     and_then (load ''CurrentBatch'' (CURRENT_BATCH st)) (\<lambda>batch.
     and_then (slashing L Q st env) (\<lambda>st1.
     and_then (load ''State'' (STATE st1)) (\<lambda>state.
     and_then (unwrap_or 0 (query_total_issued L Q st1)) (\<lambda>issued.
     and_then (unbond_less_peg_fee L (exchange_rate state) (er_threshold params)
                 (peg_recovery_fee params) issued (requested_with_fee batch)
                 (total_bond_amount state) amount) (\<lambda>amount_with_fee.
     and_then (uint_add L (requested_with_fee batch) amount_with_fee) (\<lambda>requested.
     and_then (store_unbond_wait_list L st1 (cb_id batch) user amount_with_fee) (\<lambda>st2.
     and_then (expect_ok ''the requested can not be more than the total supply''
                 (uint_checked_sub L issued amount)) (\<lambda>issued'.
     and_then (update_exchange_rate L state issued' requested) (\<lambda>state'.
     and_then (u64_sub (block_seconds env) (last_unbonded_time state')) (\<lambda>passed_time.
     let batch' = batch\<lparr>requested_with_fee := requested\<rparr> in
     and_then (if epoch_period params < passed_time then close_batch L Q st2 env state' batch'
               else Ok (st2, state', batch', [])) (\<lambda>(st3, state'', batch'', undelegated_msgs).
     let st4 = st3\<lparr>CURRENT_BATCH := Some batch'', STATE := Some state''\<rparr> in
     and_then (load_config st4) (\<lambda>config.
     and_then (expect ''the token contract must have been registered'' (token_contract config))
       (\<lambda>token.
     and_then (addr_humanize L token) (\<lambda>token_address.
     Ok (st4,
         respond (undelegated_msgs @ [WasmExecute token_address (Cw20Msg (Burn amount)) []])
           [(''action'', AttrText ''burn''), (''from'', AttrText user),
            (''burnt_amount'', AttrUint amount),
            (''unbonded_amount'', AttrUint amount_with_fee)]))))))))))))))))"

lemmas hub_unbond_defs = unbond_less_peg_fee_def close_batch_def execute_unbond_def

declare hub_unbond_defs [eval_defs]

text \<open>
  Specification of the peg recovery fee on an amount: below the threshold, the fee fraction of the amount, but no
  more than what the claims (supply and requests) exceed the bond by; nothing at the threshold and above.
\<close>

definition peg_fee :: "bool \<Rightarrow> nat \<Rightarrow> nat \<Rightarrow> nat \<Rightarrow> nat \<Rightarrow> nat" where
  "peg_fee below fee claims bonded amount =
     (if below then min (amount * fee div E18) (claims - bonded) else 0)"

section \<open>What it does\<close>

lemma close_batch_OkE:
  assumes "close_batch L Q st env s cb = Ok (st', s', cb', msgs)"
  obtains und bonded where
    "uint_mul_dec L (requested_with_fee cb) (exchange_rate s) = Ok und" and "und \<noteq> 1"
    and "pick_validator L Q st und (contract_address env) (block_height env) = Ok msgs"
    and "uint_checked_sub L (total_bond_amount s) und = Ok bonded"
    and "u64_add (cb_id cb) 1 = Ok (cb_id cb')" and "requested_with_fee cb' = 0"
    and "st' = st\<lparr>HISTORY := kv_put (HISTORY st) (to_be_bytes (cb_id cb))
           \<lparr>hist_batch_id = cb_id cb, hist_time = block_seconds env,
            hist_amount = requested_with_fee cb, applied_exchange_rate = exchange_rate s,
            withdraw_rate = exchange_rate s, released = False\<rparr>\<rparr>"
    and "s' = s\<lparr>total_bond_amount := bonded, last_unbonded_time := block_seconds env\<rparr>"
  using assms unfolding close_batch_def Let_def store_unbond_history_def
  by (clarsimp simp: res_simps split: if_splits)

lemma execute_unbond_OkE:
  assumes "execute_unbond L Q st env amount user = Ok (st', r)"
  obtains p cb st1 s issued m requested st2 issued' s1 passed st3 s2 cb2 und cfg token addr where
    "PARAMETERS st = Some p" and "CURRENT_BATCH st = Some cb" and "slashing L Q st env = Ok st1"
    and "STATE st1 = Some s" and "unwrap_or 0 (query_total_issued L Q st1) = Ok issued"
    and "unbond_less_peg_fee L (exchange_rate s) (er_threshold p) (peg_recovery_fee p) issued
           (requested_with_fee cb) (total_bond_amount s) amount = Ok m"
    and "uint_add L (requested_with_fee cb) m = Ok requested"
    and "store_unbond_wait_list L st1 (cb_id cb) user m = Ok st2"
    and "uint_checked_sub L issued amount = Ok issued'"
    and "update_exchange_rate L s issued' requested = Ok s1"
    and "u64_sub (block_seconds env) (last_unbonded_time s1) = Ok passed"
    and "(if epoch_period p < passed
          then close_batch L Q st2 env s1 (cb\<lparr>requested_with_fee := requested\<rparr>)
          else Ok (st2, s1, cb\<lparr>requested_with_fee := requested\<rparr>, [])) = Ok (st3, s2, cb2, und)"
    and "st' = st3\<lparr>CURRENT_BATCH := Some cb2, STATE := Some s2\<rparr>"
    and "CONFIG st3 = Some (CurrentConfig cfg)" and "token_contract cfg = Some token"
    and "addr_humanize L token = Ok addr"
    and "messages r = und @ [WasmExecute addr (Cw20Msg (Burn amount)) []]"
  using assms unfolding execute_unbond_def Let_def
  by (clarsimp simp: res_simps split: prod.splits)

context uint_decimal
begin

lemma unbond_less_peg_fee_OkD:
  assumes "unbond_less_peg_fee L rate threshold fee issued requested bonded amount = Ok m"
  shows "m \<le> amount" and "threshold \<le> rate \<Longrightarrow> m = amount"
    and "rate < threshold \<Longrightarrow> unat bonded \<le> unat issued + unat requested
      \<and> unat m + min (unat amount * units fee div E18) (unat issued + unat requested - unat bonded)
          = unat amount"
proof -
  have low: "m \<le> amount \<and> unat bonded \<le> unat issued + unat requested
      \<and> unat m + min (unat amount * units fee div E18) (unat issued + unat requested - unat bonded)
          = unat amount" if "rate < threshold"
  proof -
    from assms that obtain mx claims req where "uint_mul_dec L amount fee = Ok mx"
      and "uint_add L issued requested = Ok claims" and "uint_checked_sub L claims bonded = Ok req"
      and "uint_checked_sub L amount (min mx req) = Ok m"
      by (auto simp: unbond_less_peg_fee_def Let_def)
    then have mx: "unat mx = unat amount * units fee div E18"
      and sums: "unat issued + unat requested = unat bonded + unat req"
      and m: "unat amount = unat (min mx req) + unat m"
      by (simp_all add: arith_iffs)
    note min = unat_min [of mx req]
    show ?thesis unfolding mx [symmetric] word_le_nat_alt using sums m min by auto
  qed
  then show "rate < threshold \<Longrightarrow> unat bonded \<le> unat issued + unat requested
      \<and> unat m + min (unat amount * units fee div E18) (unat issued + unat requested - unat bonded)
          = unat amount" by blast
  show eq: "threshold \<le> rate \<Longrightarrow> m = amount"
    using assms by (auto simp: unbond_less_peg_fee_def split: if_splits)
  show "m \<le> amount" using low eq by (cases "rate < threshold") auto
qed

lemma unbond_less_peg_fee_exact:
  assumes "unbond_less_peg_fee L rate threshold fee issued requested bonded amount = Ok m"
  shows "unat m + peg_fee (rate < threshold) (units fee) (unat issued + unat requested) (unat bonded) (unat amount)
     = unat amount"
proof (cases "rate < threshold")
  case True
  then show ?thesis using unbond_less_peg_fee_OkD(3) [OF assms] by (simp add: peg_fee_def)
next
  case False
  then show ?thesis using unbond_less_peg_fee_OkD(2) [OF assms] by (simp add: peg_fee_def)
qed

end

context cosmwasm
begin

text \<open>Closing a batch, with the choice of delegations and the arithmetic resolved.\<close>

lemma close_batch_undelegates:
  assumes "close_batch L Q st env s batch = Ok (st', s', cb', und)" and "PARAMETERS st = Some p"
    and "query_all_delegations Q (contract_address env) = Ok ds"
    and "unat (block_height env) + length ds < 2 ^ 64"
    and "undelegated = unat (requested_with_fee batch) * units (exchange_rate s) div E18"
  obtains picks where "und = undelegations (underlying_coin_denom p) picks"
    and "covers picks ds undelegated" and "undelegated \<noteq> 1"
    and "unat (total_bond_amount s) = unat (total_bond_amount s') + undelegated"
    and "s' = s\<lparr>total_bond_amount := total_bond_amount s', last_unbonded_time := block_seconds env\<rparr>"
    and "unat (cb_id cb') = unat (cb_id batch) + 1" and "requested_with_fee cb' = 0"
    and "st' = st\<lparr>HISTORY := kv_put (HISTORY st) (to_be_bytes (cb_id batch))
           \<lparr>hist_batch_id = cb_id batch, hist_time = block_seconds env,
            hist_amount = requested_with_fee batch, applied_exchange_rate = exchange_rate s,
            withdraw_rate = exchange_rate s, released = False\<rparr>\<rparr>"
proof -
  obtain n bonded where n: "uint_mul_dec L (requested_with_fee batch) (exchange_rate s) = Ok n" "n \<noteq> 1"
    and pick: "pick_validator L Q st n (contract_address env) (block_height env) = Ok und"
    and sub: "uint_checked_sub L (total_bond_amount s) n = Ok bonded"
    and cb': "u64_add (cb_id batch) 1 = Ok (cb_id cb')" "requested_with_fee cb' = 0"
    and st': "st' = st\<lparr>HISTORY := kv_put (HISTORY st) (to_be_bytes (cb_id batch))
           \<lparr>hist_batch_id = cb_id batch, hist_time = block_seconds env,
            hist_amount = requested_with_fee batch, applied_exchange_rate = exchange_rate s,
            withdraw_rate = exchange_rate s, released = False\<rparr>\<rparr>"
    and s': "s' = s\<lparr>total_bond_amount := bonded, last_unbonded_time := block_seconds env\<rparr>"
    using assms(1) by (rule close_batch_OkE)
  have amount: "unat n = undelegated" using n(1) assms(5) by (simp add: mul_dec_iff)
  obtain picks where "und = undelegations (underlying_coin_denom p) picks" "covers picks ds undelegated"
    using pick_validator_OkD [OF pick assms(2-4)] unfolding amount by blast
  then show thesis
    by (rule that) (use n(2) sub cb' st' s' in
      \<open>simp_all add: amount [symmetric] arith_iffs u64_add_eq_Ok word_unat_eq_iff\<close>)
qed

text \<open>What both kinds of unbond share, with the arithmetic resolved.\<close>

lemma execute_unbond_summary:
  assumes "execute_unbond L Q st env amount user = Ok (st', r)"
    and "PARAMETERS st = Some p" and "CURRENT_BATCH st = Some cb" and "STATE st = Some s0"
  obtains st1 s issued m requested st2 s1 passed st3 s2 cb2 und cfg token addr where
    "slashing L Q st env = Ok st1" and "STATE st1 = Some s"
    and "unwrap_or 0 (query_total_issued L Q st1) = Ok issued"
    and "s = s0\<lparr>total_bond_amount := total_bond_amount s, exchange_rate := exchange_rate s\<rparr>"
    and "m \<le> amount" and "er_threshold p \<le> exchange_rate s \<Longrightarrow> m = amount"
    and "unat m + peg_fee (exchange_rate s < er_threshold p) (units (peg_recovery_fee p))
           (unat issued + unat (requested_with_fee cb)) (unat (total_bond_amount s)) (unat amount) = unat amount"
    and "unat requested = unat (requested_with_fee cb) + unat m" and "unat amount \<le> unat issued"
    and "st2 = st\<lparr>STATE := Some s, WAIT := WAIT st2\<rparr>"
    and "store_unbond_wait_list L st1 (cb_id cb) user m = Ok st2"
    and "\<And>a b. waiting L st2 a b
           = waiting L st a b + (if a = to_vec_str L user \<and> b = cb_id cb then unat m else 0)"
    and "s1 = s\<lparr>exchange_rate := exchange_rate s1\<rparr>"
    and "units (exchange_rate s1) = rate_units (unat (total_bond_amount s))
           (unat issued - unat amount + unat requested)"
    and "unat (block_seconds env) = unat (last_unbonded_time s0) + unat passed"
    and "(if epoch_period p < passed
          then close_batch L Q st2 env s1 (cb\<lparr>requested_with_fee := requested\<rparr>)
          else Ok (st2, s1, cb\<lparr>requested_with_fee := requested\<rparr>, [])) = Ok (st3, s2, cb2, und)"
    and "st' = st3\<lparr>CURRENT_BATCH := Some cb2, STATE := Some s2\<rparr>"
    and "CONFIG st3 = Some (CurrentConfig cfg)" and "token_contract cfg = Some token"
    and "addr_humanize L token = Ok addr"
    and "messages r = und @ [WasmExecute addr (Cw20Msg (Burn amount)) []]"
proof -
  from assms(1) obtain p' cb' st1 s issued m requested st2 issued' s1 passed st3 s2 cb2 und cfg token addr
    where "PARAMETERS st = Some p'" "CURRENT_BATCH st = Some cb'" and sl: "slashing L Q st env = Ok st1"
    and s: "STATE st1 = Some s" and iss: "unwrap_or 0 (query_total_issued L Q st1) = Ok issued"
    and fee: "unbond_less_peg_fee L (exchange_rate s) (er_threshold p') (peg_recovery_fee p') issued
           (requested_with_fee cb') (total_bond_amount s) amount = Ok m"
    and add: "uint_add L (requested_with_fee cb') m = Ok requested"
    and store: "store_unbond_wait_list L st1 (cb_id cb') user m = Ok st2"
    and sub: "uint_checked_sub L issued amount = Ok issued'"
    and upd: "update_exchange_rate L s issued' requested = Ok s1"
    and time: "u64_sub (block_seconds env) (last_unbonded_time s1) = Ok passed"
    and step: "(if epoch_period p' < passed
          then close_batch L Q st2 env s1 (cb'\<lparr>requested_with_fee := requested\<rparr>)
          else Ok (st2, s1, cb'\<lparr>requested_with_fee := requested\<rparr>, [])) = Ok (st3, s2, cb2, und)"
    and rest: "st' = st3\<lparr>CURRENT_BATCH := Some cb2, STATE := Some s2\<rparr>"
      "CONFIG st3 = Some (CurrentConfig cfg)" "token_contract cfg = Some token"
      "addr_humanize L token = Ok addr"
      "messages r = und @ [WasmExecute addr (Cw20Msg (Burn amount)) []]"
    by (rule execute_unbond_OkE) blast
  then have eqs: "p' = p" "cb' = cb" using assms(2,3) by simp_all
  obtain s00 n q where "STATE st = Some s00"
    and st1: "st1 = st\<lparr>STATE := Some (s00\<lparr>total_bond_amount := n, exchange_rate := q\<rparr>)\<rparr>"
    by (rule slashing_frame [OF sl])
  then have s_eq: "s = s0\<lparr>total_bond_amount := n, exchange_rate := q\<rparr>" using s assms(4) by simp
  note fee' = unbond_less_peg_fee_OkD(1,2) [OF fee, unfolded eqs] unbond_less_peg_fee_exact [OF fee, unfolded eqs]
  obtain q1 where s1: "s1 = s\<lparr>exchange_rate := q1\<rparr>"
    and q1: "units q1 = rate_units (unat (total_bond_amount s)) (unat issued' + unat requested)"
    using update_exchange_rate_OkD [OF upd] by blast
  have sums: "unat requested = unat (requested_with_fee cb) + unat m" "unat issued = unat amount + unat issued'"
    using add sub eqs by (simp_all add: arith_iffs)
  have time': "unat (block_seconds env) = unat (last_unbonded_time s0) + unat passed"
    using time by (auto simp: u64_sub_eq_Ok s1 s_eq unat_sub_le word_le_nat_alt)
  note store' = store_unbond_wait_list_OkD [OF store [unfolded eqs]]
  have st2: "st2 = st\<lparr>STATE := Some s, WAIT := WAIT st2\<rparr>"
    using store'(1) s by (auto simp: st1)
  have wait: "waiting L st2 a b
      = waiting L st a b + (if a = to_vec_str L user \<and> b = cb_id cb then unat m else 0)" for a b
    using store'(2) [of a b] by (simp add: st1 waiting_def)
  show thesis
    by (rule that [OF sl s iss _ fee' sums(1) _ st2 store [unfolded eqs] wait _ _ time' step [unfolded eqs] rest])
      (use sums in \<open>simp_all add: s1 q1 s_eq\<close>)
qed

end

section \<open>Properties\<close>

text \<open>
  C19: an unbond inside the epoch moves the burnt tokens into the current batch. The caller is
  credited, in that batch only, with exactly the burnt amount less the peg recovery fee: nothing when the rate after
  the slashing check has reached the threshold, and otherwise the fee fraction of the amount, but no more than
  what the issued and requested tokens exceed the bond by. The batch total grows by the credited amount; the
  bonded amount stays; the rate is the bond per remaining issued and requested token; the only message
  burns the whole amount at the registered token contract.
\<close>

theorem unbond_within_epoch:
  assumes "cosmwasm L" and "execute_unbond L Q st env amount user = Ok (st', r)"
    and "PARAMETERS st = Some p" and "CURRENT_BATCH st = Some cb" and "STATE st = Some s0"
    and "unat (block_seconds env) \<le> unat (last_unbonded_time s0) + unat (epoch_period p)"
  shows "\<exists>st1 s issued m s' requested cfg token addr.
      slashing L Q st env = Ok st1 \<and> STATE st1 = Some s
    \<and> unwrap_or 0 (query_total_issued L Q st1) = Ok issued \<and> unat amount \<le> unat issued
    \<and> m \<le> amount
    \<and> unat m + peg_fee (exchange_rate s < er_threshold p) (units (peg_recovery_fee p))
           (unat issued + unat (requested_with_fee cb)) (unat (total_bond_amount s)) (unat amount) = unat amount
    \<and> (\<forall>a b. waiting L st' a b
          = waiting L st a b + (if a = to_vec_str L user \<and> b = cb_id cb then unat m else 0))
    \<and> unat requested = unat (requested_with_fee cb) + unat m
    \<and> st' = st\<lparr>STATE := Some s', WAIT := WAIT st',
              CURRENT_BATCH := Some (cb\<lparr>requested_with_fee := requested\<rparr>)\<rparr>
    \<and> s' = s\<lparr>exchange_rate := exchange_rate s'\<rparr>
    \<and> units (exchange_rate s') = rate_units (unat (total_bond_amount s))
         (unat issued - unat amount + unat requested)
    \<and> CONFIG st = Some (CurrentConfig cfg) \<and> token_contract cfg = Some token
    \<and> addr_humanize L token = Ok addr
    \<and> messages r = [WasmExecute addr (Cw20Msg (Burn amount)) []]"
proof -
  obtain st1 s issued m requested st2 s1 passed st3 s2 cb2 und cfg token addr where
    sl: "slashing L Q st env = Ok st1" "STATE st1 = Some s"
      "unwrap_or 0 (query_total_issued L Q st1) = Ok issued"
    and m: "m \<le> amount" "unat m + peg_fee (exchange_rate s < er_threshold p) (units (peg_recovery_fee p))
           (unat issued + unat (requested_with_fee cb)) (unat (total_bond_amount s)) (unat amount) = unat amount"
    and req: "unat requested = unat (requested_with_fee cb) + unat m" and le: "unat amount \<le> unat issued"
    and st2: "st2 = st\<lparr>STATE := Some s, WAIT := WAIT st2\<rparr>"
    and wait: "\<And>a b. waiting L st2 a b
           = waiting L st a b + (if a = to_vec_str L user \<and> b = cb_id cb then unat m else 0)"
    and s1: "s1 = s\<lparr>exchange_rate := exchange_rate s1\<rparr>"
    and rate: "units (exchange_rate s1) = rate_units (unat (total_bond_amount s))
           (unat issued - unat amount + unat requested)"
    and time: "unat (block_seconds env) = unat (last_unbonded_time s0) + unat passed"
    and step: "(if epoch_period p < passed
          then close_batch L Q st2 env s1 (cb\<lparr>requested_with_fee := requested\<rparr>)
          else Ok (st2, s1, cb\<lparr>requested_with_fee := requested\<rparr>, [])) = Ok (st3, s2, cb2, und)"
    and st': "st' = st3\<lparr>CURRENT_BATCH := Some cb2, STATE := Some s2\<rparr>"
    and cfg: "CONFIG st3 = Some (CurrentConfig cfg)" "token_contract cfg = Some token"
      "addr_humanize L token = Ok addr"
    and msgs: "messages r = und @ [WasmExecute addr (Cw20Msg (Burn amount)) []]"
    by (rule cosmwasm.execute_unbond_summary [OF assms(1-5)]) blast
  from time assms(6) have "\<not> epoch_period p < passed" by (simp add: word_less_nat_alt)
  with step have eqs: "st3 = st2" "s2 = s1" "cb2 = cb\<lparr>requested_with_fee := requested\<rparr>" "und = []"
    by auto
  have cfg_st: "CONFIG st = Some (CurrentConfig cfg)"
    using cfg(1) unfolding eqs by (subst (asm) st2) simp
  have wait': "\<forall>a b. waiting L st' a b
      = waiting L st a b + (if a = to_vec_str L user \<and> b = cb_id cb then unat m else 0)"
    using wait by (simp add: st' eqs waiting_def)
  have frame: "st' = st\<lparr>STATE := Some s1, WAIT := WAIT st',
      CURRENT_BATCH := Some (cb\<lparr>requested_with_fee := requested\<rparr>)\<rparr>"
    unfolding st' eqs by (subst st2) simp
  have burn: "messages r = [WasmExecute addr (Cw20Msg (Burn amount)) []]" by (simp add: msgs eqs)
  show ?thesis
    by (intro exI [of _ st1] exI [of _ s] exI [of _ issued] exI [of _ m] exI [of _ s1]
        exI [of _ requested] exI [of _ cfg] exI [of _ token] exI [of _ addr] conjI impI
        sl le m wait' req frame s1 rate cfg_st cfg(2,3) burn)
qed

theorem unbond_within_epoch_witness:
  "\<exists>st' r. execute_unbond ref_lib (sample_querier 900 1000 0) sample_storage (sample_env 120) 300
        ''alice'' = Ok (st', r)
    \<and> messages r = [WasmExecute ''token'' (Cw20Msg (Burn 300)) []]
    \<and> waiting ref_lib st' (to_vec_str ref_lib ''alice'') 1 = 285
    \<and> waiting ref_lib st' (to_vec_str ref_lib ''bob'') 1 = 0"
proof -
  obtain st' r where ok: "execute_unbond ref_lib (sample_querier 900 1000 0) sample_storage
      (sample_env 120) 300 ''alice'' = Ok (st', r)"
    and msgs: "messages r = [WasmExecute ''token'' (Cw20Msg (Burn 300)) []]"
    by (simp add: sample_state_def eval_defs Let_def less_decimal_def)
  have early: "unat (block_seconds (sample_env 120))
      \<le> unat (last_unbonded_time sample_state) + unat (epoch_period sample_params)"
    by (simp add: sample_state_def)
  from unbond_within_epoch [OF cosmwasm_ref_lib ok sample_storage_sel(4,5,6) early]
  obtain st1 s issued and m :: u128 where sl: "slashing ref_lib (sample_querier 900 1000 0) sample_storage
      (sample_env 120) = Ok st1" "STATE st1 = Some s"
      "unwrap_or 0 (query_total_issued ref_lib (sample_querier 900 1000 0) st1) = Ok issued"
    and fee: "unat m + peg_fee (exchange_rate s < er_threshold sample_params)
        (units (peg_recovery_fee sample_params))
        (unat issued + unat (requested_with_fee \<lparr>cb_id = 1, requested_with_fee = 0\<rparr>))
        (unat (total_bond_amount s)) (unat (300 :: u128)) = unat (300 :: u128)"
    and wait: "\<forall>a b. waiting ref_lib st' a b = waiting ref_lib sample_storage a b
      + (if a = to_vec_str ref_lib ''alice'' \<and> b = cb_id \<lparr>cb_id = 1, requested_with_fee = 0\<rparr> then unat m else 0)"
    by blast
  from sl have "exchange_rate s < dec_one" "total_bond_amount s = 900" "issued = 1000"
    by (auto simp: sample_state_def eval_defs less_decimal_def)
  with fee have "unat m = 285" by (simp add: peg_fee_def)
  moreover have "waiting ref_lib sample_storage a b = 0" for a b by (simp add: waiting_def)
  ultimately show ?thesis using wait ok msgs by simp
qed

text \<open>
  C18: an unbond after the epoch also closes the batch. The caller is credited as inside the epoch, with the
  burnt amount less the peg recovery fee. The new rate is the bond after the slashing check per
  remaining issued and requested token. The amount undelegated is the batch total at that rate, rounded
  down, taken from the hub's delegations and never one; the bonded amount falls by exactly it, and of the
  state only bond, rate and epoch start change; the batch is filed in the history, unreleased, with its
  total and the new rate; a fresh empty batch with the next id starts its epoch at the current block time;
  and the last message burns the whole amount at the registered token contract.
\<close>

theorem unbond_closes_batch:
  assumes "cosmwasm L" and "execute_unbond L Q st env amount user = Ok (st', r)"
    and "PARAMETERS st = Some p" and "CURRENT_BATCH st = Some cb" and "STATE st = Some s0"
    and "unat (last_unbonded_time s0) + unat (epoch_period p) < unat (block_seconds env)"
    and "query_all_delegations Q (contract_address env) = Ok ds"
    and "unat (block_height env) + length ds < 2 ^ 64"
  shows "\<exists>st1 s issued m requested h s' cb' picks cfg token addr.
      slashing L Q st env = Ok st1 \<and> STATE st1 = Some s
    \<and> unwrap_or 0 (query_total_issued L Q st1) = Ok issued \<and> unat amount \<le> unat issued
    \<and> m \<le> amount
    \<and> unat m + peg_fee (exchange_rate s < er_threshold p) (units (peg_recovery_fee p))
           (unat issued + unat (requested_with_fee cb)) (unat (total_bond_amount s)) (unat amount) = unat amount
    \<and> unat requested = unat (requested_with_fee cb) + unat m
    \<and> (\<forall>a b. waiting L st' a b
          = waiting L st a b + (if a = to_vec_str L user \<and> b = cb_id cb then unat m else 0))
    \<and> h = \<lparr>hist_batch_id = cb_id cb, hist_time = block_seconds env, hist_amount = requested,
           applied_exchange_rate = exchange_rate s', withdraw_rate = exchange_rate s',
           released = False\<rparr>
    \<and> st' = st\<lparr>STATE := Some s', WAIT := WAIT st', CURRENT_BATCH := Some cb',
              HISTORY := kv_put (HISTORY st) (to_be_bytes (cb_id cb)) h\<rparr>
    \<and> unat (cb_id cb') = unat (cb_id cb) + 1 \<and> requested_with_fee cb' = 0
    \<and> s' = s\<lparr>total_bond_amount := total_bond_amount s', exchange_rate := exchange_rate s',
              last_unbonded_time := block_seconds env\<rparr>
    \<and> units (exchange_rate s') = rate_units (unat (total_bond_amount s))
         (unat issued - unat amount + unat requested)
    \<and> (let undelegated = unat requested * units (exchange_rate s') div E18 in
         undelegated \<noteq> 1 \<and> covers picks ds undelegated
       \<and> unat (total_bond_amount s) = unat (total_bond_amount s') + undelegated)
    \<and> CONFIG st = Some (CurrentConfig cfg) \<and> token_contract cfg = Some token
    \<and> addr_humanize L token = Ok addr
    \<and> messages r = undelegations (underlying_coin_denom p) picks
        @ [WasmExecute addr (Cw20Msg (Burn amount)) []]"
proof -
  obtain st1 s issued m requested st2 s1 passed st3 s2 cb2 und cfg token addr where
    sl: "slashing L Q st env = Ok st1" "STATE st1 = Some s"
      "unwrap_or 0 (query_total_issued L Q st1) = Ok issued"
    and m: "m \<le> amount" "unat m + peg_fee (exchange_rate s < er_threshold p) (units (peg_recovery_fee p))
           (unat issued + unat (requested_with_fee cb)) (unat (total_bond_amount s)) (unat amount) = unat amount"
    and req: "unat requested = unat (requested_with_fee cb) + unat m" and le: "unat amount \<le> unat issued"
    and st2: "st2 = st\<lparr>STATE := Some s, WAIT := WAIT st2\<rparr>"
    and wait: "\<And>a b. waiting L st2 a b
           = waiting L st a b + (if a = to_vec_str L user \<and> b = cb_id cb then unat m else 0)"
    and s1: "s1 = s\<lparr>exchange_rate := exchange_rate s1\<rparr>"
    and rate: "units (exchange_rate s1) = rate_units (unat (total_bond_amount s))
           (unat issued - unat amount + unat requested)"
    and time: "unat (block_seconds env) = unat (last_unbonded_time s0) + unat passed"
    and step: "(if epoch_period p < passed
          then close_batch L Q st2 env s1 (cb\<lparr>requested_with_fee := requested\<rparr>)
          else Ok (st2, s1, cb\<lparr>requested_with_fee := requested\<rparr>, [])) = Ok (st3, s2, cb2, und)"
    and st': "st' = st3\<lparr>CURRENT_BATCH := Some cb2, STATE := Some s2\<rparr>"
    and cfg: "CONFIG st3 = Some (CurrentConfig cfg)" "token_contract cfg = Some token"
      "addr_humanize L token = Ok addr"
    and msgs: "messages r = und @ [WasmExecute addr (Cw20Msg (Burn amount)) []]"
    by (rule cosmwasm.execute_unbond_summary [OF assms(1-5)]) blast
  from time assms(6) have "epoch_period p < passed" by (simp add: word_less_nat_alt)
  moreover define batch where "batch = cb\<lparr>requested_with_fee := requested\<rparr>"
  ultimately have close: "close_batch L Q st2 env s1 batch = Ok (st3, s2, cb2, und)"
    and batch: "cb_id batch = cb_id cb" "requested_with_fee batch = requested" using step by simp_all
  have par: "PARAMETERS st2 = Some p" by (subst st2) (simp add: assms(3))
  let ?n = "unat requested * units (exchange_rate s1) div E18"
  obtain picks where und: "und = undelegations (underlying_coin_denom p) picks" "covers picks ds ?n"
    "?n \<noteq> 1" "unat (total_bond_amount s1) = unat (total_bond_amount s2) + ?n"
    and s2: "s2 = s1\<lparr>total_bond_amount := total_bond_amount s2, last_unbonded_time := block_seconds env\<rparr>"
    and cb2: "unat (cb_id cb2) = unat (cb_id cb) + 1" "requested_with_fee cb2 = 0"
    and st3: "st3 = st2\<lparr>HISTORY := kv_put (HISTORY st2) (to_be_bytes (cb_id cb))
           \<lparr>hist_batch_id = cb_id cb, hist_time = block_seconds env, hist_amount = requested,
            applied_exchange_rate = exchange_rate s1, withdraw_rate = exchange_rate s1,
            released = False\<rparr>\<rparr>"
    using cosmwasm.close_batch_undelegates [OF assms(1) close par assms(7,8) refl, unfolded batch] .
  let ?h = "\<lparr>hist_batch_id = cb_id cb, hist_time = block_seconds env, hist_amount = requested,
     applied_exchange_rate = exchange_rate s2, withdraw_rate = exchange_rate s2,
     released = False\<rparr>"
  have same: "total_bond_amount s1 = total_bond_amount s" "exchange_rate s2 = exchange_rate s1"
    by (subst s1, simp) (subst s2, simp)
  have s2': "s2 = s\<lparr>total_bond_amount := total_bond_amount s2, exchange_rate := exchange_rate s2,
      last_unbonded_time := block_seconds env\<rparr>"
    unfolding same(2) by (subst s2, subst s1) simp
  have cfg_st: "CONFIG st = Some (CurrentConfig cfg)"
    using cfg(1) unfolding st3 by (simp, subst (asm) st2) simp
  have wait': "\<forall>a b. waiting L st' a b
      = waiting L st a b + (if a = to_vec_str L user \<and> b = cb_id cb then unat m else 0)"
    using wait by (simp add: st' st3 waiting_def)
  have frame: "st' = st\<lparr>STATE := Some s2, WAIT := WAIT st', CURRENT_BATCH := Some cb2,
      HISTORY := kv_put (HISTORY st) (to_be_bytes (cb_id cb)) ?h\<rparr>"
    unfolding st' st3 same(2) by (subst st2, subst (2) st2) simp
  show ?thesis
    by (intro exI [of _ st1] exI [of _ s] exI [of _ issued] exI [of _ m] exI [of _ requested] exI [of _ ?h]
        exI [of _ s2] exI [of _ cb2] exI [of _ picks] exI [of _ cfg] exI [of _ token] exI [of _ addr] conjI
        sl le m req wait' refl frame cb2 s2' cfg_st cfg(2,3))
      (use und same rate in \<open>simp_all add: Let_def msgs\<close>)
qed

theorem unbond_closes_batch_witness:
  "\<exists>st' r cb'. execute_unbond ref_lib (sample_querier 1000 1000 0) sample_storage (sample_env 200) 300
        ''alice'' = Ok (st', r)
    \<and> messages r = [Undelegate ''val1'' \<lparr>denom = ''uluna'', coin_amount = 300\<rparr>,
        WasmExecute ''token'' (Cw20Msg (Burn 300)) []]
    \<and> CURRENT_BATCH st' = Some cb' \<and> unat (cb_id cb') = 2 \<and> requested_with_fee cb' = 0"
proof -
  obtain st' r where ok: "execute_unbond ref_lib (sample_querier 1000 1000 0) sample_storage
      (sample_env 200) 300 ''alice'' = Ok (st', r)"
    and msgs: "messages r = [Undelegate ''val1'' \<lparr>denom = ''uluna'', coin_amount = 300\<rparr>,
        WasmExecute ''token'' (Cw20Msg (Burn 300)) []]"
    by (simp add: sample_state_def eval_defs Let_def)
  have late: "unat (last_unbonded_time sample_state) + unat (epoch_period sample_params)
      < unat (block_seconds (sample_env 200))" by (simp add: sample_state_def)
  have height: "unat (block_height (sample_env 200)) + length [sample_delegation 1000] < 2 ^ 64" by simp
  from unbond_closes_batch [OF cosmwasm_ref_lib ok sample_storage_sel(4,5,6) late sample_querier_sel(1)
      height]
  obtain s' h cb' where "st' = sample_storage\<lparr>STATE := Some s', WAIT := WAIT st',
      CURRENT_BATCH := Some cb', HISTORY := kv_put (HISTORY sample_storage)
        (to_be_bytes (cb_id \<lparr>cb_id = 1, requested_with_fee = 0\<rparr>)) h\<rparr>"
    and cb': "unat (cb_id cb') = unat (cb_id \<lparr>cb_id = 1, requested_with_fee = 0\<rparr>) + 1"
      "requested_with_fee cb' = 0" by blast
  from this(1) have "CURRENT_BATCH st' = Some cb'" by (rule ssubst) simp
  with ok msgs cb' show ?thesis by simp
qed

end
