(* ===== verification/SignedInteger.thy ===== *)
theory SignedInteger
  imports Host
begin

text \<open>
  \<open>packages/signed_integers\<close>: the difference of two unsigned amounts as a magnitude and a sign.
  The flag is set for a negative value.
\<close>

datatype signed_int = SignedInt (magnitude: u128) (negative: bool)

definition from_subtraction :: "cw_lib \<Rightarrow> u128 \<Rightarrow> u128 \<Rightarrow> signed_int res" where
  "from_subtraction L minuend subtrahend =
     (case uint_checked_sub L minuend subtrahend of
        Err _ \<Rightarrow> and_then (unwrap (uint_checked_sub L subtrahend minuend))
                  (\<lambda>d. Ok (SignedInt d True))
      | Ok d \<Rightarrow> Ok (SignedInt d False)
      | Panic p \<Rightarrow> Panic p)"

declare from_subtraction_def [eval_defs]

definition signed_value :: "signed_int \<Rightarrow> int" where
  "signed_value s = (if negative s then - int (unat (magnitude s)) else int (unat (magnitude s)))"

context uint_decimal
begin

lemma from_subtraction_eq:
  "from_subtraction L m s =
     Ok (if s \<le> m then SignedInt (m - s) False else SignedInt (s - m) True)"
proof (cases "s \<le> m")
  case True
  then show ?thesis by (simp add: from_subtraction_def checked_sub_le)
next
  case False
  then have "m < s" by simp
  then obtain e where "uint_checked_sub L m s = Err e"
    using checked_sub_not_ok by (auto simp: is_err_iff)
  with \<open>m < s\<close> show ?thesis by (simp add: from_subtraction_def checked_sub_le)
qed

end

lemmas from_subtraction_eq = uint_decimal.from_subtraction_eq

text \<open>
  The subtraction never fails; the signed value is the integer difference of the two amounts,
  and zero is never flagged negative.
\<close>

lemma from_subtraction_value:
  assumes "uint_decimal L"
  shows "\<exists>d. from_subtraction L m s = Ok d \<and> signed_value d = int (unat m) - int (unat s)
           \<and> (negative d \<longleftrightarrow> unat m < unat s)"
  by (auto simp: from_subtraction_eq [OF assms] signed_value_def unat_sub word_le_nat_alt of_nat_diff
      simp del: of_nat_unat)

end
