(* ===== verification/Settlement.thy ===== *)
theory Settlement
  imports Prelude
begin

text \<open>
  The settlement of unbonding batches as an abstract specification on numbers: the batches claim
  amounts that sum to a total, the hub received a possibly different amount, and the difference is
  shared out in proportion with the 18-digit rounding of the code. Theory HubWithdraw shows that the
  second loop of \<open>process_withdraw_rate\<close> computes exactly this.
\<close>

section \<open>Specification\<close>

text \<open>A batch's share of the difference: its 18-digit weight times the difference.\<close>

definition slash_share :: "nat \<Rightarrow> nat \<Rightarrow> nat \<Rightarrow> nat" where
  "slash_share claims diff u = u * E18 div claims * diff div E18"

text \<open>What is taken from a batch when less than the claims was received.\<close>

definition slash_cut :: "nat \<Rightarrow> nat \<Rightarrow> nat \<Rightarrow> nat" where
  "slash_cut claims diff u = slash_share claims diff u + (if diff = 0 then 0 else 1)"

text \<open>A batch that claims less than what is taken from it.\<close>

definition overcut :: "nat \<Rightarrow> nat \<Rightarrow> nat \<Rightarrow> bool" where
  "overcut claims diff u = (u < slash_cut claims diff u)"

definition settled :: "nat \<Rightarrow> nat \<Rightarrow> nat \<Rightarrow> nat" where
  "settled claims received u =
     (if claims < received then u + slash_share claims (received - claims) u - 1
      else if overcut claims (claims - received) u then slash_cut claims (claims - received) u - u
      else u - slash_cut claims (claims - received) u)"

section \<open>Bounds\<close>

lemma sum_list_if: "(\<Sum>x\<leftarrow>xs. if P x then c else 0) = c * length (filter P xs)" for c :: nat
  by (induction xs) simp_all

lemma slash_share_le: "slash_share claims diff u \<le> u * diff div claims"
proof (cases "claims = 0")
  case False
  let ?w = "u * E18 div claims" and ?s = "slash_share claims diff u"
  have "?s * E18 * claims \<le> ?w * diff * claims"
    unfolding slash_share_def by (intro mult_le_mono1 div_times_less_eq_dividend)
  also have "\<dots> = ?w * claims * diff" by (simp only: ac_simps)
  also have "\<dots> \<le> u * E18 * diff" by (intro mult_le_mono1 div_times_less_eq_dividend)
  finally have "?s * claims * E18 \<le> u * diff * E18" by (simp only: ac_simps)
  then have "?s * claims \<le> u * diff" by simp
  with False show ?thesis by (simp add: less_eq_div_iff_mult_less_eq)
qed (simp add: slash_share_def)

lemma slash_share_le_claim:
  assumes "diff \<le> claims"
  shows "slash_share claims diff u \<le> u"
  using slash_share_le mult_div_le [OF assms] by (rule order_trans)

lemma sum_slash_share_le:
  assumes "sum_list us = claims"
  shows "(\<Sum>u\<leftarrow>us. slash_share claims diff u) \<le> diff"
proof -
  have "(\<Sum>u\<leftarrow>us. slash_share claims diff u) \<le> (\<Sum>u\<leftarrow>us. u * diff div claims)"
    by (rule sum_list_mono) (rule slash_share_le)
  also have "\<dots> \<le> (\<Sum>u\<leftarrow>us. u * diff) div claims" by (rule sum_list_div_le_div_sum_list)
  also have "\<dots> = claims * diff div claims" by (simp add: sum_list_mult_const assms)
  also have "\<dots> \<le> diff" by simp
  finally show ?thesis .
qed

text \<open>
  Taking one extra coin from every batch makes up for the rounding, as long as the number of batches
  times the difference stays within the 18 digits.
\<close>

lemma sum_weights_ge:
  assumes "sum_list us = claims" and "0 < claims"
  shows "E18 \<le> (\<Sum>u\<leftarrow>us. u * E18 div claims) + length us"
proof -
  have "u * E18 \<le> (u * E18 div claims + 1) * claims" for u
    using assms(2) dividend_less_div_times [of claims "u * E18"] by (simp add: less_imp_le)
  then have "(\<Sum>u\<leftarrow>us. u * E18) \<le> (\<Sum>u\<leftarrow>us. (u * E18 div claims + 1) * claims)"
    by (intro sum_list_mono) simp
  moreover have "(\<Sum>u\<leftarrow>us. u * E18) = E18 * claims"
    using assms(1) by (simp add: sum_list_mult_const)
  moreover have "(\<Sum>u\<leftarrow>us. (u * E18 div claims + 1) * claims)
      = ((\<Sum>u\<leftarrow>us. u * E18 div claims) + length us) * claims"
    by (simp only: sum_list_mult_const sum_list_addf sum_list_triv) simp
  ultimately have "E18 * claims \<le> ((\<Sum>u\<leftarrow>us. u * E18 div claims) + length us) * claims"
    by (simp only:)
  with assms(2) show ?thesis by (simp only: mult_le_cancel2)
qed

lemma sum_slash_cut_ge:
  assumes "sum_list us = claims" and "0 < claims" and "0 < diff" and "length us * diff \<le> E18"
  shows "diff \<le> (\<Sum>u\<leftarrow>us. slash_cut claims diff u)"
proof -
  let ?w = "\<lambda>u. u * E18 div claims" and ?n = "length us"
  let ?C = "\<Sum>u\<leftarrow>us. slash_cut claims diff u"
  from assms(1,2) have "us \<noteq> []" by auto
  have "?w u * diff + 1 \<le> slash_cut claims diff u * E18" for u
    using dividend_less_div_times [of E18 "?w u * diff"] assms(3)
    by (simp add: slash_cut_def slash_share_def add_mult_distrib)
  then have "(\<Sum>u\<leftarrow>us. ?w u * diff + 1) \<le> (\<Sum>u\<leftarrow>us. slash_cut claims diff u * E18)"
    by (intro sum_list_mono) simp
  moreover have "(\<Sum>u\<leftarrow>us. ?w u * diff + 1) = (\<Sum>u\<leftarrow>us. ?w u) * diff + ?n"
    by (simp only: sum_list_mult_const sum_list_addf sum_list_triv) simp
  ultimately have C: "(\<Sum>u\<leftarrow>us. ?w u) * diff + ?n \<le> ?C * E18"
    by (simp only: sum_list_mult_const)
  have "E18 * diff \<le> ((\<Sum>u\<leftarrow>us. ?w u) + ?n) * diff"
    using sum_weights_ge [OF assms(1,2)] by (intro mult_le_mono1)
  with C assms(4) have "E18 * diff + ?n \<le> ?C * E18 + E18" by (simp add: add_mult_distrib)
  with \<open>us \<noteq> []\<close> have "E18 * diff < E18 * (?C + 1)" by (cases us) auto
  then show ?thesis by simp
qed

text \<open>
  The sum of the settled amounts: at most what was received, plus two for every batch that claims
  less than its cut. Such a batch is credited with one coin although nothing is left of it.
\<close>

theorem settled_sum_le:
  assumes "sum_list us = claims" and "0 < claims"
    and "length us * (claims - received) \<le> E18"
    and "\<And>u. u \<in> set us \<Longrightarrow> claims < received \<Longrightarrow> 1 \<le> slash_share claims (received - claims) u"
  shows "(\<Sum>u\<leftarrow>us. settled claims received u)
       \<le> received + 2 * length (filter (overcut claims (claims - received)) us)"
proof (cases "claims < received")
  case True
  have "(\<Sum>u\<leftarrow>us. settled claims received u)
      \<le> (\<Sum>u\<leftarrow>us. u + slash_share claims (received - claims) u)"
    using True by (intro sum_list_mono) (simp add: settled_def)
  also have "\<dots> \<le> claims + (received - claims)"
    using sum_slash_share_le [OF assms(1)] assms(1) by (simp add: sum_list_addf)
  finally show ?thesis using True by simp
next
  case False
  let ?d = "claims - received"
  have "settled claims received u + slash_cut claims ?d u
      = u + (if overcut claims ?d u then 2 else 0)" for u
    using False slash_share_le_claim [of ?d claims u]
    by (auto simp: settled_def overcut_def slash_cut_def split: if_splits)
  then have "(\<Sum>u\<leftarrow>us. settled claims received u + slash_cut claims ?d u)
      = (\<Sum>u\<leftarrow>us. u + (if overcut claims ?d u then 2 else 0))" by simp
  also have "(\<Sum>u\<leftarrow>us. u + (if overcut claims ?d u then 2 else 0))
      = claims + 2 * length (filter (overcut claims ?d) us)"
    using assms(1) by (simp add: sum_list_addf sum_list_if)
  finally have sum: "(\<Sum>u\<leftarrow>us. settled claims received u) + (\<Sum>u\<leftarrow>us. slash_cut claims ?d u)
      = claims + 2 * length (filter (overcut claims ?d) us)" by (simp add: sum_list_addf)
  have "?d \<le> (\<Sum>u\<leftarrow>us. slash_cut claims ?d u)"
    using sum_slash_cut_ge [OF assms(1,2), of ?d] assms(3) by (cases "?d = 0") simp_all
  with sum False show ?thesis by simp
qed

text \<open>A batch gets at most its claim when the hub received no more than the claims.\<close>

lemma settled_le_claim:
  assumes "received \<le> claims" and "\<not> overcut claims (claims - received) u"
  shows "settled claims received u \<le> u"
  using assms by (simp add: settled_def)

end
