(* ===== verification/HubWithdraw.thy ===== *)
theory HubWithdraw
  imports HubUnbond SignedInteger Settlement
begin

text \<open>
  \<open>execute_withdraw_unbonded\<close> and \<open>process_withdraw_rate\<close> of \<open>contracts/prism_hub/src/unbond.rs\<close>:
  the batches whose unbonding period has passed are released at a rate that accounts for what the
  hub actually received, and the caller is paid for the released batches.
\<close>

section \<open>Releasing batches\<close>

text \<open>The first loop: the total that the matured batches claim, and their number.\<close>

function count_loop ::
  "cw_lib \<Rightarrow> hub_storage \<Rightarrow> u64 \<Rightarrow> u64 \<Rightarrow> u128 \<Rightarrow> u64 \<Rightarrow> (u128 \<times> u64) res" where
  "count_loop L st historical_time i total_unbonded_amount batch_count =
     (case read_unbond_history st i of
        Ok h \<Rightarrow>
          if historical_time < hist_time h then Ok (total_unbonded_amount, batch_count)
          else if released h then Ok (total_unbonded_amount, batch_count)
          else
            and_then (uint_mul_dec L (hist_amount h) (withdraw_rate h)) (\<lambda>unbonded_amount.
            and_then (uint_add L total_unbonded_amount unbonded_amount) (\<lambda>total'.
            and_then (u64_add batch_count 1) (\<lambda>count'.
            and_then (u64_add i 1) (\<lambda>i'.
            count_loop L st historical_time i' total' count'))))
      | Err _ \<Rightarrow> Ok (total_unbonded_amount, batch_count)
      | Panic p \<Rightarrow> Panic p)"
  by pat_completeness auto

termination
  by (relation "measure (\<lambda>(L, st, t, i, n, c). 2 ^ 64 - unat i)") (auto dest: u64_add_one_decreases)

text \<open>The amount of a batch after its share of the difference (lines 279 to 297).\<close>

definition actual_unbonded_of_batch :: "cw_lib \<Rightarrow> u128 \<Rightarrow> signed_int \<Rightarrow> u128 \<Rightarrow> u128 res" where
  "actual_unbonded_of_batch L total_unbonded_amount slashed_amount unbonded_amount_of_batch =
     and_then (dec_from_ratio L unbonded_amount_of_batch total_unbonded_amount)
       (\<lambda>batch_slashing_weight.
     and_then (uint_mul_dec L (magnitude slashed_amount) batch_slashing_weight)
       (\<lambda>slashed_amount_of_batch.
     if negative slashed_amount then
       and_then (uint_checked_sub L slashed_amount_of_batch 1) (\<lambda>slashed'.
       uint_add L unbonded_amount_of_batch slashed')
     else
       and_then (if magnitude slashed_amount \<noteq> 0 then uint_add L slashed_amount_of_batch 1
                 else Ok slashed_amount_of_batch) (\<lambda>slashed'.
       and_then (from_subtraction L unbonded_amount_of_batch slashed') (\<lambda>d.
       Ok (magnitude d)))))"

definition release_history ::
  "cw_lib \<Rightarrow> u128 \<Rightarrow> signed_int \<Rightarrow> unbond_history \<Rightarrow> unbond_history res" where
  "release_history L total_unbonded_amount slashed_amount history =
     and_then (uint_mul_dec L (hist_amount history) (withdraw_rate history)) (\<lambda>unbonded.
     and_then (actual_unbonded_of_batch L total_unbonded_amount slashed_amount unbonded)
       (\<lambda>actual_unbonded.
     and_then (dec_from_ratio L actual_unbonded (hist_amount history)) (\<lambda>new_withdraw_rate.
     Ok (history\<lparr>withdraw_rate := new_withdraw_rate, released := True\<rparr>))))"

text \<open>The second loop: store the new rate of each matured batch.\<close>

function release_loop ::
  "cw_lib \<Rightarrow> hub_storage \<Rightarrow> u64 \<Rightarrow> u128 \<Rightarrow> signed_int \<Rightarrow> u64 \<Rightarrow> u64 \<Rightarrow> (hub_storage \<times> u64) res" where
  "release_loop L st historical_time total_unbonded_amount slashed_amount last_processed iterator =
     (case read_unbond_history st iterator of
        Ok h \<Rightarrow>
          if historical_time < hist_time h then Ok (st, last_processed)
          else if released h then Ok (st, last_processed)
          else
            and_then (release_history L total_unbonded_amount slashed_amount h) (\<lambda>history_for_i.
            and_then (store_unbond_history st iterator history_for_i) (\<lambda>st'.
            and_then (u64_add iterator 1) (\<lambda>iterator'.
            release_loop L st' historical_time total_unbonded_amount slashed_amount iterator
              iterator')))
      | Err _ \<Rightarrow> Ok (st, last_processed)
      | Panic p \<Rightarrow> Panic p)"
  by pat_completeness auto

termination
  by (relation "measure (\<lambda>(L, st, t, n, s, l, i). 2 ^ 64 - unat i)") (auto dest: u64_add_one_decreases)

definition process_withdraw_rate ::
  "cw_lib \<Rightarrow> hub_storage \<Rightarrow> u64 \<Rightarrow> u128 \<Rightarrow> hub_storage res" where
  "process_withdraw_rate L st historical_time hub_balance =
     and_then (load ''State'' (STATE st)) (\<lambda>state.
     and_then (from_subtraction L hub_balance (prev_hub_balance state)) (\<lambda>balance_change.
     and_then (uint_add L (actual_unbonded_amount state) (magnitude balance_change))
       (\<lambda>actual_unbonded.
     and_then (u64_add (last_processed_batch state) 1) (\<lambda>first.
     and_then (count_loop L st historical_time first 0 0) (\<lambda>(total_unbonded_amount, batch_count).
     and_then
       (if 1 \<le> batch_count then
          and_then (from_subtraction L total_unbonded_amount actual_unbonded) (\<lambda>slashed_amount.
          and_then (u64_add (last_processed_batch state) 1) (\<lambda>iterator.
          release_loop L st historical_time total_unbonded_amount slashed_amount
            (last_processed_batch state) iterator))
        else Ok (st, last_processed_batch state)) (\<lambda>(st', last_processed).
     Ok (st'\<lparr>STATE := Some (state\<lparr>last_processed_batch := last_processed,
                                     actual_unbonded_amount := 0\<rparr>)\<rparr>)))))))"

section \<open>Withdrawing\<close>

definition execute_withdraw_unbonded ::
  "cw_lib \<Rightarrow> querier \<Rightarrow> hub_storage \<Rightarrow> env \<Rightarrow> message_info \<Rightarrow> (hub_storage \<times> response) res" where
  "execute_withdraw_unbonded L Q st env info =
     (let sender_human = sender info in
     and_then (load ''Parameters'' (PARAMETERS st)) (\<lambda>params.
     let coin_denom = underlying_coin_denom params in
     and_then (u64_sub (block_seconds env) (unbonding_period params)) (\<lambda>historical_time.
     and_then (query_balance Q (contract_address env) coin_denom) (\<lambda>balance.
     let hub_balance = coin_amount balance in
     and_then (process_withdraw_rate L st historical_time hub_balance) (\<lambda>st1.
     and_then (unwrap (get_finished_amount L st1 sender_human)) (\<lambda>withdraw_amount.
     if withdraw_amount = 0
     then Err (GenericErr (''No withdrawable '' @ coin_denom @ '' assets are available yet''))
     else
     and_then (get_unbond_batches L st1 sender_human) (\<lambda>deprecated_batches.
     and_then (remove_unbond_wait_list L st1 deprecated_batches sender_human) (\<lambda>st2.
     and_then (uint_checked_sub L hub_balance withdraw_amount) (\<lambda>prev_balance.
     and_then (load ''State'' (STATE st2)) (\<lambda>last_state.
     Ok (st2\<lparr>STATE := Some (last_state\<lparr>prev_hub_balance := prev_balance\<rparr>)\<rparr>,
         respond
           [BankSend sender_human [\<lparr>denom = coin_denom, coin_amount = withdraw_amount\<rparr>]]
           [(''action'', AttrText ''finish_burn''),
            (''from'', AttrText (contract_address env)),
            (''amount'', AttrUint withdraw_amount)])))))))))))"

declare count_loop.simps [simp del] release_loop.simps [simp del]

lemmas hub_withdraw_defs =
  count_loop.simps actual_unbonded_of_batch_def release_history_def release_loop.simps
  process_withdraw_rate_def execute_withdraw_unbonded_def

declare hub_withdraw_defs [eval_defs]

section \<open>The matured batches\<close>

text \<open>A batch is matured when it is filed, unreleased and not younger than the given time.\<close>

definition matured :: "unbond_history kv \<Rightarrow> u64 \<Rightarrow> u64 \<Rightarrow> bool" where
  "matured hist t b =
     (case kv_get hist (to_be_bytes b) of
        Some h \<Rightarrow> hist_time h \<le> t \<and> \<not> released h
      | None \<Rightarrow> False)"

text \<open>The maximal run of matured batches from an id on.\<close>

function due_ids :: "unbond_history kv \<Rightarrow> u64 \<Rightarrow> u64 \<Rightarrow> u64 list" where
  "due_ids hist t i =
     (if matured hist t i then i # (if unat i + 1 < 2 ^ 64 then due_ids hist t (i + 1) else [])
      else [])"
  by pat_completeness auto

termination
  by (relation "measure (\<lambda>(hist, t, i). 2 ^ 64 - unat i)") (auto simp: unat_add_no_overflow)

declare due_ids.simps [simp del]

text \<open>What a filed batch claims at its current rate.\<close>

definition unbonded :: "unbond_history kv \<Rightarrow> u64 \<Rightarrow> nat" where
  "unbonded hist b =
     (case kv_get hist (to_be_bytes b) of
        Some h \<Rightarrow> unat (hist_amount h) * units (withdraw_rate h) div E18
      | None \<Rightarrow> 0)"

lemma due_ids_ge: "b \<in> set (due_ids hist t i) \<Longrightarrow> i \<le> b"
proof (induction hist t i rule: due_ids.induct)
  case (1 hist t i)
  show ?case
  proof (cases "b = i")
    case False
    with 1 have "unat i + 1 < 2 ^ 64" "b \<in> set (due_ids hist t (i + 1))" "matured hist t i"
      by (auto simp: due_ids.simps [of _ _ i] split: if_splits)
    with 1 have "i + 1 \<le> b" by simp
    with \<open>unat i + 1 < 2 ^ 64\<close> show ?thesis by (simp add: word_le_nat_alt unat_add_no_overflow)
  qed simp
qed

lemma due_ids_matured: "b \<in> set (due_ids hist t i) \<Longrightarrow> matured hist t b"
  by (induction hist t i rule: due_ids.induct)
    (subst (asm) (2) due_ids.simps, auto split: if_splits)

lemma distinct_due_ids: "distinct (due_ids hist t i)"
proof (induction hist t i rule: due_ids.induct)
  case (1 hist t i)
  have "i \<notin> set (due_ids hist t (i + 1))" if "unat i + 1 < 2 ^ 64"
    using due_ids_ge [of i hist t "i + 1"] that by (auto simp: word_le_nat_alt unat_add_no_overflow)
  with 1 show ?case by (subst due_ids.simps) auto
qed

lemma unbonded_put_other:
  "b \<noteq> c \<Longrightarrow> unbonded (kv_put hist (to_be_bytes c) h) b = unbonded hist b"
  by (simp add: unbonded_def)

lemma matured_put_other:
  "b \<noteq> c \<Longrightarrow> matured (kv_put hist (to_be_bytes c) h) t b = matured hist t b"
  by (simp add: matured_def)

text \<open>Storing an earlier batch does not change the run.\<close>

lemma due_ids_put_less: "c < i \<Longrightarrow> due_ids (kv_put hist (to_be_bytes c) h) t i = due_ids hist t i"
proof (induction hist t i rule: due_ids.induct)
  case (1 hist t i)
  have "due_ids (kv_put hist (to_be_bytes c) h) t (i + 1) = due_ids hist t (i + 1)"
    if "matured hist t i" "unat i + 1 < 2 ^ 64"
    using that 1 by (simp add: word_less_nat_alt unat_add_no_overflow)
  with 1(2) show ?case by (subst (1 2) due_ids.simps) (auto simp: matured_put_other)
qed

lemma due_ids_nth: "j < length (due_ids hist t i) \<Longrightarrow> unat (due_ids hist t i ! j) = unat i + j"
proof (induction hist t i arbitrary: j rule: due_ids.induct)
  case (1 hist t i)
  show ?case
  proof (cases j)
    case 0
    with 1 show ?thesis by (auto simp: due_ids.simps [of _ _ i] split: if_splits)
  next
    case (Suc k)
    with 1(2) have i: "matured hist t i" "unat i + 1 < 2 ^ 64" "k < length (due_ids hist t (i + 1))"
      by (auto simp: due_ids.simps [of _ _ i] split: if_splits)
    from i(1,2) have "due_ids hist t i = i # due_ids hist t (i + 1)" by (subst due_ids.simps) simp
    with 1(1) [OF i] i(2) Suc show ?thesis by (simp add: unat_add_no_overflow)
  qed
qed

text \<open>The run consists of the ids below which, from its start on, everything is matured.\<close>

lemma set_due_ids:
  "b \<in> set (due_ids hist t i) \<longleftrightarrow> i \<le> b \<and> (\<forall>c. i \<le> c \<and> c \<le> b \<longrightarrow> matured hist t c)"
proof (induction hist t i rule: due_ids.induct)
  case (1 hist t i)
  show ?case
  proof (cases "matured hist t i \<and> i < b")
    case True
    then have "unat i < unat b" by (simp add: word_less_nat_alt)
    then have "unat i + 1 < 18446744073709551616" using unat_lt_64 [of b] by linarith
    then have fits: "unat i + 1 < 2 ^ 64" by simp
    then have ge: "i + 1 \<le> c \<longleftrightarrow> i < c" for c
      by (auto simp: word_le_nat_alt word_less_nat_alt unat_add_no_overflow)
    have "due_ids hist t i = i # due_ids hist t (i + 1)"
      using True fits by (subst due_ids.simps) simp
    with 1 True fits ge show ?thesis by (auto simp: le_less)
  next
    case False
    then show ?thesis using due_ids_ge [of b hist t i] due_ids_matured [of b hist t i]
      by (auto simp: due_ids.simps [of _ _ i] not_less)
  qed
qed

text \<open>The batches that a withdrawal at a time releases, and the amount it settles them against.\<close>

definition matured_run :: "hub_storage \<Rightarrow> hub_state \<Rightarrow> u64 \<Rightarrow> u64 list" where
  "matured_run st s t = due_ids (HISTORY st) t (last_processed_batch s + 1)"

definition received_by :: "hub_state \<Rightarrow> u128 \<Rightarrow> nat" where
  "received_by s bal =
     unat (actual_unbonded_amount s)
     + (if prev_hub_balance s \<le> bal then unat bal - unat (prev_hub_balance s)
        else unat (prev_hub_balance s) - unat bal)"

definition released_batch :: "hub_storage \<Rightarrow> u64 \<Rightarrow> bool" where
  "released_batch st b = (\<exists>h. kv_get (HISTORY st) (to_be_bytes b) = Some h \<and> released h)"

section \<open>What the loops compute\<close>

text \<open>The claim of a filed batch, and the entry that replaces it when it is released.\<close>

definition claimed_by :: "unbond_history \<Rightarrow> nat" where
  "claimed_by h = unat (hist_amount h) * units (withdraw_rate h) div E18"

text \<open>
  A batch can be settled when the batches claim something, the batch is not empty, has a share in a
  surplus, and its cut and its new rate fit 128 bits.
\<close>

definition can_settle :: "nat \<Rightarrow> nat \<Rightarrow> unbond_history \<Rightarrow> bool" where
  "can_settle claims received h =
     (0 < claims \<and> 0 < unat (hist_amount h)
      \<and> (claims < received \<longrightarrow> 1 \<le> slash_share claims (received - claims) (claimed_by h))
      \<and> (received \<le> claims \<longrightarrow> slash_cut claims (claims - received) (claimed_by h) < 2 ^ 128)
      \<and> settled claims received (claimed_by h) * E18 div unat (hist_amount h) < 2 ^ 128)"

definition settles_as :: "nat \<Rightarrow> nat \<Rightarrow> unbond_history \<Rightarrow> unbond_history \<Rightarrow> bool" where
  "settles_as claims received h h' =
     (can_settle claims received h \<and> h' = h\<lparr>withdraw_rate := withdraw_rate h', released := True\<rparr>
      \<and> units (withdraw_rate h') = settled claims received (claimed_by h) * E18 div unat (hist_amount h))"

lemma matured_iff:
  "matured (HISTORY st) t i \<longleftrightarrow>
     (\<exists>h. read_unbond_history st i = Ok h \<and> \<not> t < hist_time h \<and> \<not> released h)"
  by (auto simp: matured_def res_simps not_less split: option.splits)

lemma unbonded_claimed_by: "kv_get hist (to_be_bytes b) = Some h \<Longrightarrow> unbonded hist b = claimed_by h"
  by (simp add: unbonded_def claimed_by_def)

text \<open>At its new rate a released batch pays at most its settled amount.\<close>

lemma settles_as_value:
  assumes "settles_as n r h h'"
  shows "claimed_by h' \<le> settled n r (claimed_by h)"
proof -
  from assms have h': "h' = h\<lparr>withdraw_rate := withdraw_rate h', released := True\<rparr>"
    and rate: "units (withdraw_rate h') = settled n r (claimed_by h) * E18 div unat (hist_amount h)"
    by (simp_all add: settles_as_def)
  have "hist_amount h' = hist_amount h" by (subst h') simp
  then show ?thesis
    using floor_ratio_times_le [of "unat (hist_amount h)" "settled n r (claimed_by h)" E18]
    by (simp add: claimed_by_def [of h'] rate)
qed

lemma settles_as_h': "settles_as n r h h' \<Longrightarrow> h' = h\<lparr>withdraw_rate := withdraw_rate h', released := True\<rparr>"
  by (simp add: settles_as_def)

lemma released_update [simp]: "released (h\<lparr>withdraw_rate := r, released := b\<rparr>) = b"
  and hist_amount_update: "hist_amount (h\<lparr>withdraw_rate := r, released := b\<rparr>) = hist_amount h"
  and hist_batch_id_update: "hist_batch_id (h\<lparr>withdraw_rate := r, released := b\<rparr>) = hist_batch_id h"
  by simp_all

lemma settles_as_fields:
  assumes "settles_as n r h h'"
  shows "released h' \<and> hist_amount h' = hist_amount h \<and> hist_batch_id h' = hist_batch_id h"
  using settles_as_h' [OF assms] by (metis (no_types) released_update hist_amount_update hist_batch_id_update)

text \<open>Each loop stops exactly at the end of the run, and else takes one step.\<close>

lemma count_loop_stop:
  "\<not> matured (HISTORY st) t i \<Longrightarrow> count_loop L st t i n c = Ok (n, c)"
  by (auto simp: count_loop.simps [of _ _ _ i] matured_iff split: res.splits)

lemma count_loop_step:
  assumes "matured (HISTORY st) t i" and "read_unbond_history st i = Ok h"
  shows "count_loop L st t i n c =
     and_then (uint_mul_dec L (hist_amount h) (withdraw_rate h)) (\<lambda>u.
     and_then (uint_add L n u) (\<lambda>n'. and_then (u64_add c 1) (\<lambda>c'. and_then (u64_add i 1) (\<lambda>i'.
     count_loop L st t i' n' c'))))"
  using assms by (simp add: count_loop.simps [of _ _ _ i] matured_iff)

lemma release_loop_stop:
  "\<not> matured (HISTORY st) t i \<Longrightarrow> release_loop L st t n d l i = Ok (st, l)"
  by (auto simp: release_loop.simps [of _ _ _ _ _ _ i] matured_iff split: res.splits)

lemma release_loop_step:
  assumes "matured (HISTORY st) t i" and "read_unbond_history st i = Ok h"
  shows "release_loop L st t n d l i =
     and_then (release_history L n d h) (\<lambda>h'. and_then (store_unbond_history st i h') (\<lambda>st'.
     and_then (u64_add i 1) (\<lambda>i'. release_loop L st' t n d i i')))"
  using assms by (simp add: release_loop.simps [of _ _ _ _ _ _ i] matured_iff)

lemma maturedE:
  assumes "matured (HISTORY st) t i"
  obtains h where "read_unbond_history st i = Ok h" and "kv_get (HISTORY st) (to_be_bytes i) = Some h"
    and "\<not> released h"
  using assms by (auto simp: matured_iff res_simps)

lemma due_ids_Cons:
  assumes "matured hist t i" and "u64_add i 1 = Ok j"
  shows "due_ids hist t i = i # due_ids hist t j"
  using assms by (subst due_ids.simps) (auto simp: u64_add_def split: if_splits)

lemma due_ids_Nil: "\<not> matured hist t i \<Longrightarrow> due_ids hist t i = []"
  by (subst due_ids.simps) simp

context cosmwasm
begin

lemma count_loop_OkD:
  assumes "count_loop L st t i n c = Ok (n', c')"
  shows "unat n' = unat n + (\<Sum>b\<leftarrow>due_ids (HISTORY st) t i. unbonded (HISTORY st) b)
       \<and> unat c' = unat c + length (due_ids (HISTORY st) t i)"
  using assms
proof (induction "2 ^ 64 - unat i" arbitrary: i n c rule: less_induct)
  case less
  show ?case
  proof (cases "matured (HISTORY st) t i")
    case False
    with less.prems show ?thesis by (simp add: count_loop_stop due_ids_Nil)
  next
    case True
    then obtain h where h: "read_unbond_history st i = Ok h"
      "kv_get (HISTORY st) (to_be_bytes i) = Some h" by (rule maturedE)
    from less.prems obtain u m d j where u: "uint_mul_dec L (hist_amount h) (withdraw_rate h) = Ok u"
      and m: "uint_add L n u = Ok m" and d: "u64_add c 1 = Ok d" and j: "u64_add i 1 = Ok j"
      and rest: "count_loop L st t j m d = Ok (n', c')"
      by (auto simp: count_loop_step [OF True h(1)])
    have "2 ^ 64 - unat j < 2 ^ 64 - unat i" using u64_add_one_decreases [OF j] by simp
    from less.hyps [OF this rest] u m d show ?thesis
      by (simp add: due_ids_Cons [OF True j] unbonded_def h arith_iffs u64_add_eq_Ok)
  qed
qed

text \<open>The code settles a batch as the specification says.\<close>

lemma actual_unbonded_of_batch_OkD:
  assumes "actual_unbonded_of_batch L n d u = Ok a" and "from_subtraction L n received = Ok d"
  shows "unat a = settled (unat n) (unat received) (unat u)" and "0 < unat n"
    and "unat n < unat received \<Longrightarrow> 1 \<le> slash_share (unat n) (unat received - unat n) (unat u)"
    and "unat received \<le> unat n \<Longrightarrow> slash_cut (unat n) (unat n - unat received) (unat u) < 2 ^ 128"
proof -
  from assms(1) obtain w s where w: "dec_from_ratio L u n = Ok w" and s: "uint_mul_dec L (magnitude d) w = Ok s"
    and rest: "(if negative d then and_then (uint_checked_sub L s 1) (uint_add L u)
       else and_then (if magnitude d \<noteq> 0 then uint_add L s 1 else Ok s) (\<lambda>s'.
            and_then (from_subtraction L u s') (\<lambda>e. Ok (magnitude e)))) = Ok a"
    by (auto simp: actual_unbonded_of_batch_def)
  from w show n: "0 < unat n" by (simp add: from_ratio_iff)
  have s': "unat s = slash_share (unat n) (unat (magnitude d)) (unat u)"
    using w s by (simp add: from_ratio_iff mul_dec_iff slash_share_def mult.commute)
  have d: "d = (if received \<le> n then SignedInt (n - received) False else SignedInt (received - n) True)"
    using assms(2) by (simp add: from_subtraction_eq)
  have "unat a = settled (unat n) (unat received) (unat u)
      \<and> (unat n < unat received \<longrightarrow> 1 \<le> slash_share (unat n) (unat received - unat n) (unat u))
      \<and> (unat received \<le> unat n \<longrightarrow> slash_cut (unat n) (unat n - unat received) (unat u) < 2 ^ 128)"
  proof (cases "received \<le> n")
    case False
    with d have mag: "unat (magnitude d) = unat received - unat n" "negative d"
      by (simp_all add: unat_sub_le)
    with rest obtain x where "uint_checked_sub L s 1 = Ok x" "uint_add L u x = Ok a" by auto
    then have "unat s = 1 + unat x" "unat a = unat u + unat x" by (simp_all add: arith_iffs)
    with s' mag False show ?thesis by (simp add: settled_def word_le_nat_alt)
  next
    case True
    with d have mag: "unat (magnitude d) = unat n - unat received" "\<not> negative d"
      by (simp_all add: unat_sub_le)
    with rest obtain x where x: "(if magnitude d \<noteq> 0 then uint_add L s 1 else Ok s) = Ok x"
      and a: "from_subtraction L u x = Ok (SignedInt a (\<not> x \<le> u))"
      by (auto simp: from_subtraction_eq split: if_splits)
    have cut: "unat x = slash_cut (unat n) (unat n - unat received) (unat u)"
      using x s' mag(1) by (auto simp: slash_cut_def uint_add_iff unat_eq_zero split: if_splits)
    moreover have "unat a = (if unat x \<le> unat u then unat u - unat x else unat x - unat u)"
      using a by (auto simp: from_subtraction_eq unat_sub_le word_le_nat_alt split: if_splits)
    moreover have "slash_cut (unat n) (unat n - unat received) (unat u) < 2 ^ 128"
      unfolding cut [symmetric] by simp
    ultimately show ?thesis using True by (simp add: cut settled_def overcut_def word_le_nat_alt)
  qed
  then show "unat a = settled (unat n) (unat received) (unat u)"
    and "unat n < unat received \<Longrightarrow> 1 \<le> slash_share (unat n) (unat received - unat n) (unat u)"
    and "unat received \<le> unat n \<Longrightarrow> slash_cut (unat n) (unat n - unat received) (unat u) < 2 ^ 128"
    by simp_all
qed

lemma release_history_OkD:
  assumes "release_history L n d h = Ok h'" and "from_subtraction L n received = Ok d"
  shows "settles_as (unat n) (unat received) h h'"
proof -
  from assms(1) obtain u a r where u: "uint_mul_dec L (hist_amount h) (withdraw_rate h) = Ok u"
    and a: "actual_unbonded_of_batch L n d u = Ok a"
    and r: "dec_from_ratio L a (hist_amount h) = Ok r"
    and h': "h' = h\<lparr>withdraw_rate := r, released := True\<rparr>"
    by (auto simp: release_history_def)
  from u have u': "unat u = claimed_by h" by (simp add: mul_dec_iff claimed_by_def)
  note settles = actual_unbonded_of_batch_OkD [OF a assms(2), unfolded u']
  have rate: "settled (unat n) (unat received) (claimed_by h) * E18 div unat (hist_amount h) = units r"
    and "0 < unat (hist_amount h)"
    using r settles(1) by (simp_all add: from_ratio_iff)
  moreover have "units r < 2 ^ 128" by simp
  ultimately show ?thesis using settles by (simp add: settles_as_def can_settle_def rate h')
qed

lemma release_loop_OkD:
  assumes "release_loop L st t n d l i = Ok (st', l')" and "from_subtraction L n received = Ok d"
  shows "st' = st\<lparr>HISTORY := HISTORY st'\<rparr>
     \<and> (\<forall>b \<in> set (due_ids (HISTORY st) t i). \<exists>h h'.
          kv_get (HISTORY st) (to_be_bytes b) = Some h \<and> kv_get (HISTORY st') (to_be_bytes b) = Some h'
          \<and> settles_as (unat n) (unat received) h h')
     \<and> (\<forall>k. k \<notin> to_be_bytes ` set (due_ids (HISTORY st) t i) \<longrightarrow>
          kv_get (HISTORY st') k = kv_get (HISTORY st) k)
     \<and> l' = (if due_ids (HISTORY st) t i = [] then l else last (due_ids (HISTORY st) t i))
     \<and> (history_ok (HISTORY st) \<longrightarrow> history_ok (HISTORY st'))"
  using assms(1)
proof (induction "2 ^ 64 - unat i" arbitrary: i st l rule: less_induct)
  case less
  show ?case
  proof (cases "matured (HISTORY st) t i")
    case False
    with less.prems show ?thesis by (simp add: release_loop_stop due_ids_Nil)
  next
    case True
    then obtain h where h: "read_unbond_history st i = Ok h"
      "kv_get (HISTORY st) (to_be_bytes i) = Some h" by (rule maturedE)
    from less.prems obtain h' j where h': "release_history L n d h = Ok h'" and j: "u64_add i 1 = Ok j"
      and rest: "release_loop L (st\<lparr>HISTORY := kv_put (HISTORY st) (to_be_bytes i) h'\<rparr>) t n d i j
        = Ok (st', l')"
      by (auto simp: release_loop_step [OF True h(1)] store_unbond_history_def)
    note settles = release_history_OkD [OF h' assms(2)]
    have "i < j" using j by (simp add: u64_add_eq_Ok word_less_nat_alt)
    then have same: "due_ids (kv_put (HISTORY st) (to_be_bytes i) h') t j = due_ids (HISTORY st) t j"
      by (rule due_ids_put_less)
    have notin: "i \<notin> set (due_ids (HISTORY st) t j)" using due_ids_ge \<open>i < j\<close> by fastforce
    have closer: "2 ^ 64 - unat j < 2 ^ 64 - unat i" using u64_add_one_decreases [OF j] by simp
    let ?ids = "due_ids (HISTORY st) t j"
    note IH = less.hyps [OF closer rest]
    have frame: "st' = st\<lparr>HISTORY := HISTORY st'\<rparr>" using IH by simp
    have others: "kv_get (HISTORY st') k = (if k = to_be_bytes i then Some h' else kv_get (HISTORY st) k)"
      if "k \<notin> to_be_bytes ` set ?ids" for k
      using IH that by (simp add: same)
    have here: "kv_get (HISTORY st') (to_be_bytes i) = Some h'" using notin by (subst others) auto
    have later: "\<exists>g g'. kv_get (HISTORY st) (to_be_bytes b) = Some g
        \<and> kv_get (HISTORY st') (to_be_bytes b) = Some g' \<and> settles_as (unat n) (unat received) g g'"
      if b: "b \<in> set ?ids" for b
    proof -
      from b notin have "b \<noteq> i" by auto
      then show ?thesis using IH [THEN conjunct2, THEN conjunct1, rule_format, of b] b by (simp add: same)
    qed
    have last: "l' = (if ?ids = [] then i else last ?ids)" using IH by (simp add: same)
    have "hist_batch_id h' = hist_batch_id h" using settles by (subst settles_as_h') simp_all
    then have ok: "history_ok (HISTORY st')" if "history_ok (HISTORY st)"
      using IH history_ok_put [OF that] history_ok_get [OF that h(2)] by simp
    show ?thesis
      unfolding due_ids_Cons [OF True j]
      using frame others here later last ok h(2) settles by (intro conjI ballI allI impI) auto
  qed
qed

text \<open>A request is gone or its batch is not released: then nothing can be withdrawn.\<close>

lemma finished_total_zero:
  assumes "bucket_ok L (WAIT st a)" and "\<And>b. released_batch st b \<Longrightarrow> waiting L st a b = 0"
  shows "finished_total L st a = 0"
proof -
  have "(case from_slice_u64 L k of Ok b \<Rightarrow> claim_value (HISTORY st) b (unat v)
         | Err _ \<Rightarrow> 0 | Panic _ \<Rightarrow> 0) = 0" if "(k, v) \<in> set (WAIT st a)" for k v
  proof -
    from assms(1) that obtain b where k: "k = to_vec_u64 L b" by (force simp: bucket_ok_def)
    with assms(1) that have "kv_get (WAIT st a) (to_vec_u64 L b) = Some v"
      by (simp add: bucket_ok_def kv_entries_get [symmetric])
    then have "released_batch st b \<Longrightarrow> unat v = 0" using assms(2) [of b] by (simp add: waiting_def)
    then show ?thesis
      by (auto simp: k u64_round_trip claim_value_def released_batch_def split: option.splits)
  qed
  then show ?thesis by (auto simp: finished_total_def sum_list_eq_0_iff)
qed

text \<open>Removing the batches that a withdrawal collects removes exactly the released ones.\<close>

lemma remove_released_waiting:
  assumes "get_unbond_batches L st u = Ok bs" and "bucket_ok L (WAIT st (to_vec_str L u))"
  shows "waiting L (st\<lparr>WAIT := (WAIT st)(to_vec_str L u :=
            remove_batches L (WAIT st (to_vec_str L u)) bs), STATE := x\<rparr>) a b
       = (if a = to_vec_str L u \<and> released_batch st b then 0 else waiting L st a b)"
  using get_unbond_batches_set [OF assms, folded released_batch_def]
  by (auto simp: waiting_def kv_get_remove_batches image_iff split: option.splits)

lemma execute_withdraw_unbonded_OkE:
  assumes "execute_withdraw_unbonded L Q st env info = Ok (st', r)" and "PARAMETERS st = Some p"
  obtains t bal st1 paid bs s1 where
    "unat (block_seconds env) = unat (unbonding_period p) + unat t"
    and "query_balance Q (contract_address env) (underlying_coin_denom p) = Ok bal"
    and "process_withdraw_rate L st t (coin_amount bal) = Ok st1" and "STATE st1 = Some s1"
    and "get_finished_amount L st1 (sender info) = Ok paid" and "0 < paid" and "paid \<le> coin_amount bal"
    and "get_unbond_batches L st1 (sender info) = Ok bs"
    and "st' = st1\<lparr>WAIT := (WAIT st1)(to_vec_str L (sender info) :=
             remove_batches L (WAIT st1 (to_vec_str L (sender info))) bs),
           STATE := Some (s1\<lparr>prev_hub_balance := coin_amount bal - paid\<rparr>)\<rparr>"
    and "messages r
       = [BankSend (sender info) [\<lparr>denom = underlying_coin_denom p, coin_amount = paid\<rparr>]]"
proof -
  let ?u = "to_vec_str L (sender info)"
  from assms obtain t bal st1 paid bs rest s1 where
    t: "u64_sub (block_seconds env) (unbonding_period p) = Ok t"
    and bal: "query_balance Q (contract_address env) (underlying_coin_denom p) = Ok bal"
    and st1: "process_withdraw_rate L st t (coin_amount bal) = Ok st1"
    and paid: "get_finished_amount L st1 (sender info) = Ok paid" "paid \<noteq> 0"
    and bs: "get_unbond_batches L st1 (sender info) = Ok bs"
    and sub: "uint_checked_sub L (coin_amount bal) paid = Ok rest" and s1: "STATE st1 = Some s1"
    and st': "st' = st1\<lparr>WAIT := (WAIT st1)(?u := remove_batches L (WAIT st1 ?u) bs),
       STATE := Some (s1\<lparr>prev_hub_balance := rest\<rparr>)\<rparr>"
    and msgs: "messages r
       = [BankSend (sender info) [\<lparr>denom = underlying_coin_denom p, coin_amount = paid\<rparr>]]"
    unfolding execute_withdraw_unbonded_def remove_unbond_wait_list_def Let_def
    by (clarsimp simp: res_simps split: if_splits)
  have t': "unat (block_seconds env) = unat (unbonding_period p) + unat t"
    using t by (auto simp: u64_sub_eq_Ok unat_sub_le word_le_nat_alt)
  have le: "paid \<le> coin_amount bal" and rest: "rest = coin_amount bal - paid"
    using sub by (auto simp: checked_sub_iff word_le_nat_alt word_unat_eq_iff unat_sub)
  show thesis
    by (rule that [OF t' bal st1 s1 paid(1) _ le bs st' [unfolded rest] msgs])
      (simp add: paid(2) word_gt_0)
qed

text \<open>The whole release step, with both loops.\<close>

lemma process_withdraw_rate_OkE:
  assumes "process_withdraw_rate L st t bal = Ok st'" and "STATE st = Some s"
  obtains l' where "unat (last_processed_batch s) + 1 < 2 ^ 64"
    and "st' = st\<lparr>HISTORY := HISTORY st',
           STATE := Some (s\<lparr>last_processed_batch := l', actual_unbonded_amount := 0\<rparr>)\<rparr>"
    and "unat l' = unat (last_processed_batch s) + length (matured_run st s t)"
    and "\<And>b. b \<in> set (matured_run st s t) \<Longrightarrow> \<exists>h h'.
           kv_get (HISTORY st) (to_be_bytes b) = Some h \<and> kv_get (HISTORY st') (to_be_bytes b) = Some h'
         \<and> settles_as (\<Sum>b\<leftarrow>matured_run st s t. unbonded (HISTORY st) b) (received_by s bal) h h'"
    and "\<And>k. k \<notin> to_be_bytes ` set (matured_run st s t) \<Longrightarrow>
           kv_get (HISTORY st') k = kv_get (HISTORY st) k"
    and "history_ok (HISTORY st) \<Longrightarrow> history_ok (HISTORY st')"
proof -
  from assms obtain d received i n c st1 l' where
    d: "from_subtraction L bal (prev_hub_balance s) = Ok d"
    and received: "uint_add L (actual_unbonded_amount s) (magnitude d) = Ok received"
    and i: "u64_add (last_processed_batch s) 1 = Ok i" and n: "count_loop L st t i 0 0 = Ok (n, c)"
    and step: "(if 1 \<le> c then and_then (from_subtraction L n received) (\<lambda>d.
           and_then (u64_add (last_processed_batch s) 1)
             (release_loop L st t n d (last_processed_batch s)))
         else Ok (st, last_processed_batch s)) = Ok (st1, l')"
    and st': "st' = st1\<lparr>STATE := Some (s\<lparr>last_processed_batch := l', actual_unbonded_amount := 0\<rparr>)\<rparr>"
    by (auto simp: process_withdraw_rate_def res_simps)
  from i have i': "i = last_processed_batch s + 1" "unat (last_processed_batch s) + 1 < 2 ^ 64"
    by (auto simp: u64_add_def split: if_splits)
  note run = matured_run_def [of st s t, folded i'(1)]
  have received': "unat received = received_by s bal"
    using received d by (auto simp: uint_add_iff from_subtraction_eq received_by_def unat_sub_le word_le_nat_alt
        split: if_splits)
  note counts = count_loop_OkD [OF n, folded run]
  have c: "1 \<le> c \<longleftrightarrow> matured_run st s t \<noteq> []"
    using counts by (simp add: word_le_nat_alt Suc_le_eq)
  show thesis
  proof (cases "matured_run st s t = []")
    case True
    with step c have "st1 = st" "l' = last_processed_batch s" by auto
    then show thesis using True i'(2) by (intro that [of l']) (simp_all add: st')
  next
    case False
    with step c obtain e where e: "from_subtraction L n received = Ok e"
      and loop: "release_loop L st t n e (last_processed_batch s) i = Ok (st1, l')" by (auto simp: i)
    note rel = release_loop_OkD [OF loop e, folded run]
    have l': "unat l' = unat (last_processed_batch s) + length (matured_run st s t)"
      using rel False due_ids_nth [of "length (matured_run st s t) - 1" "HISTORY st" t i, folded run] i'
      by (simp add: last_conv_nth unat_add_no_overflow)
    have "st' = st\<lparr>HISTORY := HISTORY st',
         STATE := Some (s\<lparr>last_processed_batch := l', actual_unbonded_amount := 0\<rparr>)\<rparr>"
      unfolding st' by (subst rel [THEN conjunct1]) simp
    with rel l' i'(2) counts show thesis by (intro that [of l']) (simp_all add: st' received')
  qed
qed

lemma releases_covered:
  assumes "process_withdraw_rate L st t bal = Ok st'" and "STATE st = Some s"
    and "claims = (\<Sum>b\<leftarrow>matured_run st s t. unbonded (HISTORY st) b)"
    and "length (matured_run st s t) * (claims - received_by s bal) \<le> E18"
  shows "(\<Sum>b\<leftarrow>matured_run st s t. unbonded (HISTORY st') b)
     \<le> received_by s bal + 2 * length (filter (\<lambda>b. overcut claims (claims - received_by s bal)
           (unbonded (HISTORY st) b)) (matured_run st s t))"
proof (cases "matured_run st s t = []")
  case False
  let ?run = "matured_run st s t" and ?us = "map (unbonded (HISTORY st)) (matured_run st s t)"
  obtain l' :: u64 where run: "\<And>b. b \<in> set ?run \<Longrightarrow> \<exists>h h'.
           kv_get (HISTORY st) (to_be_bytes b) = Some h \<and> kv_get (HISTORY st') (to_be_bytes b) = Some h'
         \<and> settles_as claims (received_by s bal) h h'" and "unat l' = unat (last_processed_batch s) + length ?run"
    unfolding assms(3) by (rule process_withdraw_rate_OkE [OF assms(1,2)]) blast
  have settled: "unbonded (HISTORY st') b \<le> settled claims (received_by s bal) (unbonded (HISTORY st) b)
      \<and> 0 < claims \<and> (claims < received_by s bal \<longrightarrow>
          1 \<le> slash_share claims (received_by s bal - claims) (unbonded (HISTORY st) b))"
    if "b \<in> set ?run" for b
  proof -
    from run [OF that] obtain h h' where h: "kv_get (HISTORY st) (to_be_bytes b) = Some h"
      "kv_get (HISTORY st') (to_be_bytes b) = Some h'" "settles_as claims (received_by s bal) h h'" by blast
    then show ?thesis using settles_as_value [OF h(3)] by (simp add: unbonded_claimed_by settles_as_def can_settle_def)
  qed
  from False obtain b where "b \<in> set ?run" by (cases ?run) auto
  with settled have pos: "0 < claims" by blast
  have "(\<Sum>b\<leftarrow>?run. unbonded (HISTORY st') b)
      \<le> (\<Sum>b\<leftarrow>?run. settled claims (received_by s bal) (unbonded (HISTORY st) b))"
    using settled by (intro sum_list_mono) blast
  also have "\<dots> = (\<Sum>u\<leftarrow>?us. settled claims (received_by s bal) u)" by (simp add: o_def)
  also have "\<dots> \<le> received_by s bal + 2 * length (filter (overcut claims (claims - received_by s bal)) ?us)"
    using assms(3,4) pos settled by (intro settled_sum_le) auto
  finally show ?thesis by (simp add: filter_map o_def)
qed simp

lemma process_withdraw_rate_WAIT:
  assumes "process_withdraw_rate L st t bal = Ok st'" and "STATE st = Some s"
  shows "WAIT st' = WAIT st"
  by (rule process_withdraw_rate_OkE [OF assms]) (erule ssubst, simp)

end

section \<open>Properties\<close>

text \<open>
  C10: processing the withdraw rates releases exactly the run of consecutive matured batches after the
  last processed one. Each of them gets the rate that pays its settled amount per burnt token; the
  amounts are settled against what the hub received since the last withdrawal. No other history
  entry and no other cell changes, and the last processed batch advances by the length of the run.
\<close>

theorem process_withdraw_rate_releases:
  assumes "cosmwasm L" and "process_withdraw_rate L st t bal = Ok st'" and "STATE st = Some s"
  shows "\<exists>l'. st' = st\<lparr>HISTORY := HISTORY st',
           STATE := Some (s\<lparr>last_processed_batch := l', actual_unbonded_amount := 0\<rparr>)\<rparr>
    \<and> unat l' = unat (last_processed_batch s) + length (matured_run st s t)
    \<and> (\<forall>b. if last_processed_batch s < b
             \<and> (\<forall>c. last_processed_batch s < c \<and> c \<le> b \<longrightarrow> matured (HISTORY st) t c)
          then \<exists>h h'. kv_get (HISTORY st) (to_be_bytes b) = Some h
             \<and> kv_get (HISTORY st') (to_be_bytes b) = Some h'
             \<and> settles_as (\<Sum>b\<leftarrow>matured_run st s t. unbonded (HISTORY st) b) (received_by s bal) h h'
          else kv_get (HISTORY st') (to_be_bytes b) = kv_get (HISTORY st) (to_be_bytes b))"
proof -
  obtain l' where fits: "unat (last_processed_batch s) + 1 < 2 ^ 64"
    and st': "st' = st\<lparr>HISTORY := HISTORY st',
           STATE := Some (s\<lparr>last_processed_batch := l', actual_unbonded_amount := 0\<rparr>)\<rparr>"
    and l': "unat l' = unat (last_processed_batch s) + length (matured_run st s t)"
    and run: "\<And>b. b \<in> set (matured_run st s t) \<Longrightarrow> \<exists>h h'.
           kv_get (HISTORY st) (to_be_bytes b) = Some h \<and> kv_get (HISTORY st') (to_be_bytes b) = Some h'
         \<and> settles_as (\<Sum>b\<leftarrow>matured_run st s t. unbonded (HISTORY st) b) (received_by s bal) h h'"
    and rest: "\<And>k. k \<notin> to_be_bytes ` set (matured_run st s t) \<Longrightarrow>
           kv_get (HISTORY st') k = kv_get (HISTORY st) k"
    by (rule cosmwasm.process_withdraw_rate_OkE [OF assms]) blast
  have ge: "last_processed_batch s + 1 \<le> c \<longleftrightarrow> last_processed_batch s < c" for c
    using fits by (auto simp: word_le_nat_alt word_less_nat_alt unat_add_no_overflow)
  have mem: "b \<in> set (matured_run st s t) \<longleftrightarrow> last_processed_batch s < b
      \<and> (\<forall>c. last_processed_batch s < c \<and> c \<le> b \<longrightarrow> matured (HISTORY st) t c)" for b
    by (simp add: matured_run_def set_due_ids ge)
  have "kv_get (HISTORY st') (to_be_bytes b) = kv_get (HISTORY st) (to_be_bytes b)"
    if "b \<notin> set (matured_run st s t)" for b
    using that by (intro rest) auto
  with run have "if b \<in> set (matured_run st s t)
      then \<exists>h h'. kv_get (HISTORY st) (to_be_bytes b) = Some h
         \<and> kv_get (HISTORY st') (to_be_bytes b) = Some h'
         \<and> settles_as (\<Sum>b\<leftarrow>matured_run st s t. unbonded (HISTORY st) b) (received_by s bal) h h'
      else kv_get (HISTORY st') (to_be_bytes b) = kv_get (HISTORY st) (to_be_bytes b)" for b
    by (cases "b \<in> set (matured_run st s t)") simp_all
  then show ?thesis unfolding mem by (intro exI [of _ l'] conjI allI st' l')
qed

text \<open>
  C13: released batches are covered by what the hub received. Let the balance not have fallen since the
  last withdrawal, so that what arrived is the recorded unbonded amount plus the growth of the balance,
  and let the number of released batches times the shortfall (the coins by which the claims of these
  batches exceed what arrived) be at most \<open>10^18\<close>, the precision of the weights. Then paying every token of
  the newly released batches at the new rates costs at most what arrived, plus two coins for each
  batch whose claim is smaller than the slash taken from it.
\<close>

theorem released_batches_covered:
  assumes "cosmwasm L" and "process_withdraw_rate L st t bal = Ok st'" and "STATE st = Some s"
    and "prev_hub_balance s \<le> bal"
    and "arrived = unat (actual_unbonded_amount s) + (unat bal - unat (prev_hub_balance s))"
    and "claims = (\<Sum>b\<leftarrow>matured_run st s t. unbonded (HISTORY st) b)"
    and "length (matured_run st s t) * (claims - arrived) \<le> E18"
  shows "(\<Sum>b\<leftarrow>matured_run st s t. unbonded (HISTORY st') b)
     \<le> arrived + 2 * length (filter (\<lambda>b. overcut claims (claims - arrived) (unbonded (HISTORY st) b))
           (matured_run st s t))"
proof -
  have "arrived = received_by s bal" using assms(4,5) by (simp add: received_by_def)
  with assms(6,7) show ?thesis by (auto intro: cosmwasm.releases_covered [OF assms(1-3)])
qed

theorem released_batches_covered_witness:
  "\<exists>st'. process_withdraw_rate ref_lib sample_unbonding 150 990 = Ok st'
     \<and> (\<Sum>b\<leftarrow>[1, 2]. unbonded (HISTORY st') b) \<le> 990"
proof -
  obtain st' where ok: "process_withdraw_rate ref_lib sample_unbonding 150 990 = Ok st'"
    by (simp add: eval_defs sample_state_def Let_def to_be_bytes_less_iff)
  have run: "matured_run sample_unbonding sample_state 150 = [1, 2]"
    by (simp add: matured_run_def due_ids.simps matured_def sample_state_def kv_get_def)
  have claims: "1000 = (\<Sum>b\<leftarrow>matured_run sample_unbonding sample_state 150.
      unbonded (HISTORY sample_unbonding) b)"
    by (simp add: run unbonded_def kv_get_def)
  have grown: "prev_hub_balance sample_state \<le> 990"
    "990 = unat (actual_unbonded_amount sample_state)
         + (unat (990 :: u128) - unat (prev_hub_balance sample_state))"
    by (simp_all add: sample_state_def)
  have "length (matured_run sample_unbonding sample_state 150) * (1000 - 990) \<le> E18" by (simp add: run)
  from released_batches_covered [OF cosmwasm_ref_lib ok sample_unbonding_sel(2) grown claims this] ok
  show ?thesis
    by (simp add: run unbonded_def kv_get_def overcut_def slash_cut_def slash_share_def)
qed

text \<open>
  Two situations stop every withdrawal, whoever calls. With matured batches that together claim
  nothing, and with a surplus so small that some matured batch has no share in it, processing the
  withdraw rates never succeeds.
\<close>

lemma withdrawals_blocked:
  assumes "cosmwasm L" and "STATE st = Some s" and "matured_run st s t \<noteq> []"
    and "claims = (\<Sum>b\<leftarrow>matured_run st s t. unbonded (HISTORY st) b)"
    and "claims = 0 \<or> claims < received_by s bal \<and> (\<exists>b \<in> set (matured_run st s t).
           slash_share claims (received_by s bal - claims) (unbonded (HISTORY st) b) = 0)"
  shows "\<not> is_ok (process_withdraw_rate L st t bal)"
proof
  assume "is_ok (process_withdraw_rate L st t bal)"
  then obtain st' where ok: "process_withdraw_rate L st t bal = Ok st'" by (auto simp: is_ok_iff)
  obtain l' :: u64 where run: "\<And>b. b \<in> set (matured_run st s t) \<Longrightarrow> \<exists>h h'.
           kv_get (HISTORY st) (to_be_bytes b) = Some h \<and> kv_get (HISTORY st') (to_be_bytes b) = Some h'
         \<and> settles_as claims (received_by s bal) h h'"
    and "unat l' = unat (last_processed_batch s) + length (matured_run st s t)"
    unfolding assms(4) by (rule cosmwasm.process_withdraw_rate_OkE [OF assms(1) ok assms(2)]) blast
  have *: "0 < claims \<and> (claims < received_by s bal \<longrightarrow>
      slash_share claims (received_by s bal - claims) (unbonded (HISTORY st) b) \<noteq> 0)"
    if "b \<in> set (matured_run st s t)" for b
    using run [OF that] by (fastforce simp: settles_as_def can_settle_def unbonded_claimed_by)
  from assms(3) obtain b where "b \<in> set (matured_run st s t)" by (cases "matured_run st s t") auto
  with * assms(5) show False by fastforce
qed

text \<open>
  C14: a successful withdrawal pays the caller, in one transfer, exactly the value of the caller's
  requests in released batches, after the matured batches have been released. Those requests are
  removed, so that nothing is left to withdraw, and no other request changes. The amount is positive
  and at most the hub's balance; the rest of the balance is what the next withdrawal compares with.
\<close>

theorem withdraw_pays_finished:
  assumes "cosmwasm L" and "execute_withdraw_unbonded L Q st env info = Ok (st', r)"
    and "PARAMETERS st = Some p" and "STATE st = Some s" and "\<forall>a. bucket_ok L (WAIT st a)"
  shows "\<exists>t bal st1 s1 paid. unat (block_seconds env) = unat (unbonding_period p) + unat t
    \<and> query_balance Q (contract_address env) (underlying_coin_denom p) = Ok bal
    \<and> process_withdraw_rate L st t (coin_amount bal) = Ok st1 \<and> STATE st1 = Some s1
    \<and> unat paid = finished_total L st1 (to_vec_str L (sender info))
    \<and> 0 < paid \<and> paid \<le> coin_amount bal
    \<and> messages r = [BankSend (sender info) [\<lparr>denom = underlying_coin_denom p, coin_amount = paid\<rparr>]]
    \<and> st' = st1\<lparr>WAIT := WAIT st', STATE := Some (s1\<lparr>prev_hub_balance := coin_amount bal - paid\<rparr>)\<rparr>
    \<and> (\<forall>a b. waiting L st' a b = (if a = to_vec_str L (sender info) \<and> released_batch st1 b then 0
                                else waiting L st a b))
    \<and> finished_total L st' (to_vec_str L (sender info)) = 0"
proof -
  let ?u = "to_vec_str L (sender info)"
  obtain t bal st1 paid bs s1 where
    t: "unat (block_seconds env) = unat (unbonding_period p) + unat t"
    and bal: "query_balance Q (contract_address env) (underlying_coin_denom p) = Ok bal"
    and st1: "process_withdraw_rate L st t (coin_amount bal) = Ok st1" and s1: "STATE st1 = Some s1"
    and paid: "get_finished_amount L st1 (sender info) = Ok paid" "0 < paid" "paid \<le> coin_amount bal"
    and bs: "get_unbond_batches L st1 (sender info) = Ok bs"
    and st': "st' = st1\<lparr>WAIT := (WAIT st1)(?u := remove_batches L (WAIT st1 ?u) bs),
       STATE := Some (s1\<lparr>prev_hub_balance := coin_amount bal - paid\<rparr>)\<rparr>"
    and msgs: "messages r
       = [BankSend (sender info) [\<lparr>denom = underlying_coin_denom p, coin_amount = paid\<rparr>]]"
    by (rule cosmwasm.execute_withdraw_unbonded_OkE [OF assms(1-3)])
  have wait: "WAIT st1 = WAIT st" by (rule cosmwasm.process_withdraw_rate_WAIT [OF assms(1) st1 assms(4)])
  have ok: "bucket_ok L (WAIT st1 ?u)" using assms(5) by (simp add: wait)
  have "waiting L st1 a b = waiting L st a b" for a b by (simp add: waiting_def wait)
  then have waiting: "waiting L st' a b = (if a = ?u \<and> released_batch st1 b then 0 else waiting L st a b)" for a b
    using cosmwasm.remove_released_waiting [OF assms(1) bs ok] by (simp add: st')
  have ok': "bucket_ok L (WAIT st' ?u)" using ok by (simp add: st' bucket_ok_remove_batches)
  have hist: "HISTORY st' = HISTORY st1" by (simp add: st')
  have "finished_total L st' ?u = 0"
    by (rule cosmwasm.finished_total_zero [OF assms(1) ok']) (simp add: waiting released_batch_def hist)
  then show ?thesis
    by (intro exI [of _ t] exI [of _ bal] exI [of _ st1] exI [of _ s1] exI [of _ paid] conjI allI
        t bal st1 s1 paid(2,3) msgs cosmwasm.get_finished_amount_value [OF assms(1) paid(1)] waiting)
      (simp_all add: st')
qed

theorem withdraw_pays_finished_witness:
  "\<exists>st' r. execute_withdraw_unbonded ref_lib (sample_querier 1000 1000 990) sample_unbonding
      (sample_env 200) \<lparr>sender = ''alice'', funds = []\<rparr> = Ok (st', r)
     \<and> messages r = [BankSend ''alice'' [\<lparr>denom = ''uluna'', coin_amount = 494\<rparr>]]
     \<and> finished_total ref_lib st' (to_vec_str ref_lib ''alice'') = 0"
proof -
  obtain st' r where ok: "execute_withdraw_unbonded ref_lib (sample_querier 1000 1000 990)
      sample_unbonding (sample_env 200) \<lparr>sender = ''alice'', funds = []\<rparr> = Ok (st', r)"
    and msgs: "messages r = [BankSend ''alice'' [\<lparr>denom = ''uluna'', coin_amount = 494\<rparr>]]"
    by (simp add: eval_defs sample_state_def Let_def to_be_bytes_less_iff o_def)
  have "\<forall>a. bucket_ok ref_lib (WAIT sample_unbonding a)"
    by (auto simp: bucket_ok_def kv_ok_def simp del: ref_lib_sel)
  from withdraw_pays_finished [OF cosmwasm_ref_lib ok sample_unbonding_sel(1,2) this] ok msgs
  show ?thesis by auto
qed

theorem process_withdraw_rate_releases_witness:
  "\<exists>st' s'. process_withdraw_rate ref_lib sample_unbonding 150 990 = Ok st' \<and> STATE st' = Some s'
     \<and> unat (last_processed_batch s') = 2"
proof -
  obtain st' where ok: "process_withdraw_rate ref_lib sample_unbonding 150 990 = Ok st'"
    by (simp add: eval_defs sample_state_def Let_def to_be_bytes_less_iff)
  have run: "matured_run sample_unbonding sample_state 150 = [1, 2]"
    by (simp add: matured_run_def due_ids.simps matured_def sample_state_def kv_get_def)
  from process_withdraw_rate_releases [OF cosmwasm_ref_lib ok sample_unbonding_sel(2)]
  obtain l' where st': "st' = sample_unbonding\<lparr>HISTORY := HISTORY st', STATE := Some (sample_state
      \<lparr>last_processed_batch := l', actual_unbonded_amount := 0\<rparr>)\<rparr>" and l': "unat l' = unat (last_processed_batch sample_state) + 2"
    unfolding run by auto
  from st' have "STATE st' = Some (sample_state\<lparr>last_processed_batch := l', actual_unbonded_amount := 0\<rparr>)"
    by (rule ssubst) simp
  with ok l' show ?thesis by (simp add: sample_state_def)
qed

end
