(* ===== verification/HubContract.thy ===== *)
theory HubContract
  imports HubConfig HubBond HubCompound HubWithdraw
begin

text \<open>
  The entry points of \<open>contracts/prism_hub/src/contract.rs\<close> (\<open>instantiate\<close>, \<open>execute\<close>, \<open>query\<close>,
  \<open>migrate\<close>), the CW20 receive hook, and \<open>migration.rs\<close>.
\<close>

section \<open>Instantiation\<close>

definition hub_instantiate ::
  "cw_lib \<Rightarrow> hub_storage \<Rightarrow> env \<Rightarrow> message_info \<Rightarrow> hub_instantiate_msg \<Rightarrow>
   (hub_storage \<times> response) res" where
  "hub_instantiate L st env info msg =
     and_then (addr_canonicalize L (sender info)) (\<lambda>_.
     let st1 = st\<lparr>PAUSE := Some False\<rparr> in
     and_then (ok_or (GenericErr ''No uluna assets are provided to bond'')
                 (find_payment (im_underlying_coin_denom msg) (funds info))) (\<lambda>payment.
     and_then (addr_validate L (sender info)) (\<lambda>admin.
     and_then (admin_set L (Some admin)) (\<lambda>admin_cell.
     let st2 = st1\<lparr>ADMIN := admin_cell\<rparr> in
     and_then (addr_canonicalize L (im_rewards_contract msg)) (\<lambda>rewards_raw.
     let st3 = st2\<lparr>CONFIG := Some (CurrentConfig
           \<lparr>token_contract_registered = False, token_contract = None,
            protocol_fee_collector = None, rewards_contract = Some rewards_raw\<rparr>)\<rparr>;
         state =
           \<lparr>exchange_rate = dec_one, second_exchange_rate = dec_one,
            total_bond_amount = coin_amount payment,
            last_index_modification = block_seconds env, prev_hub_balance = 0,
            actual_unbonded_amount = 0, principle_balance_before_exchange_update = 0,
            last_unbonded_time = block_seconds env, last_processed_batch = 0\<rparr>;
         st4 = st3\<lparr>STATE := Some state\<rparr> in
     and_then (validate_params msg) (\<lambda>_.
     let st5 = st4\<lparr>PARAMETERS := Some
           \<lparr>epoch_period = im_epoch_period msg,
            underlying_coin_denom = im_underlying_coin_denom msg,
            unbonding_period = im_unbonding_period msg,
            peg_recovery_fee = im_peg_recovery_fee msg,
            er_threshold = im_er_threshold msg, protocol_fee = im_protocol_fee msg\<rparr>\<rparr>;
         st6 = st5\<lparr>CURRENT_BATCH := Some \<lparr>cb_id = 1, requested_with_fee = 0\<rparr>\<rparr> in
     Ok (st6,
         respond
           [WasmExecute (contract_address env) (HubMsg (RegisterValidator (im_validator msg))) [],
            Delegate (im_validator msg) payment,
            SetWithdrawAddress (im_rewards_contract msg)]
           [(''register-validator'', AttrText (im_validator msg)),
            (''bond'', AttrUint (coin_amount payment))])))))))"

section \<open>Execution\<close>

definition receive_cw20 ::
  "cw_lib \<Rightarrow> querier \<Rightarrow> hub_storage \<Rightarrow> env \<Rightarrow> message_info \<Rightarrow> cw20_receive_msg \<Rightarrow>
   (hub_storage \<times> response) res" where
  "receive_cw20 L Q st env info msg =
     and_then (from_binary_hook L (cw20_msg msg)) (\<lambda>hook.
     case hook of Unbond \<Rightarrow>
       and_then (load_config st) (\<lambda>conf.
       and_then (addr_canonicalize L (sender info)) (\<lambda>contract_raw.
       and_then (expect ''the token contract must have been registered'' (token_contract conf))
         (\<lambda>token.
       if contract_raw \<noteq> token then Err (GenericErr ''unauthorized'')
       else execute_unbond L Q st env (cw20_amount msg) (cw20_sender msg)))))"

definition execute_update_admin ::
  "cw_lib \<Rightarrow> hub_storage \<Rightarrow> message_info \<Rightarrow> string \<Rightarrow> (hub_storage \<times> response) res" where
  "execute_update_admin L st info admin =
     and_then (addr_validate L admin) (\<lambda>admin'.
     case admin_execute_update L (ADMIN st) info (Some admin') of
       Inr (cell, r) \<Rightarrow> Ok (st\<lparr>ADMIN := cell\<rparr>, r)
     | Inl e \<Rightarrow> (case e of NotAdmin \<Rightarrow> Err (GenericErr ''Caller is not admin'')
                         | AdminStd std_error \<Rightarrow> Err std_error))"

definition hub_execute ::
  "cw_lib \<Rightarrow> querier \<Rightarrow> hub_storage \<Rightarrow> env \<Rightarrow> message_info \<Rightarrow> hub_execute_msg \<Rightarrow>
   (hub_storage \<times> response) res" where
  "hub_execute L Q st env info msg =
     (case msg of
        Pause \<Rightarrow>
          and_then (unwrap_assert_admin L (ADMIN st) (sender info)) (\<lambda>_.
          Ok (st\<lparr>PAUSE := Some True\<rparr>, respond [] []))
      | Unpause \<Rightarrow>
          and_then (unwrap_assert_admin L (ADMIN st) (sender info)) (\<lambda>_.
          Ok (st\<lparr>PAUSE := Some False\<rparr>, respond [] []))
      | Receive m \<Rightarrow> and_then (is_contract_paused st) (\<lambda>_. receive_cw20 L Q st env info m)
      | Bond validator \<Rightarrow>
          and_then (is_contract_paused st) (\<lambda>_. execute_bond L Q st env info validator)
      | UpdateGlobalIndex \<Rightarrow>
          and_then (is_contract_paused st) (\<lambda>_. execute_update_global L Q st env)
      | UpdateExchangeRate \<Rightarrow>
          and_then (is_contract_paused st) (\<lambda>_. execute_update_exchange_rate L Q st env info)
      | WithdrawUnbonded \<Rightarrow>
          and_then (is_contract_paused st) (\<lambda>_. execute_withdraw_unbonded L Q st env info)
      | RegisterValidator validator \<Rightarrow>
          and_then (is_contract_paused st) (\<lambda>_. execute_register_validator L Q st env info validator)
      | DeregisterValidator validator \<Rightarrow>
          and_then (is_contract_paused st)
            (\<lambda>_. execute_deregister_validator L Q st env info validator)
      | CheckSlashing \<Rightarrow> and_then (is_contract_paused st) (\<lambda>_. execute_slashing L Q st env)
      | UpdateParams epoch unbonding recovery_fee threshold fee \<Rightarrow>
          and_then (is_contract_paused st)
            (\<lambda>_. execute_update_params L st info epoch unbonding recovery_fee threshold fee)
      | UpdateConfig token collector \<Rightarrow>
          and_then (is_contract_paused st) (\<lambda>_. execute_update_config L st info token collector)
      | UpdateAdmin admin \<Rightarrow>
          and_then (is_contract_paused st) (\<lambda>_. execute_update_admin L st info admin))"

section \<open>Migration\<close>

definition read_legacy_config :: "hub_storage \<Rightarrow> legacy_config res" where
  "read_legacy_config st =
     and_then (load ''LegacyConfig'' (CONFIG st)) (\<lambda>c.
     case c of
       LegacyConfig lc \<Rightarrow> Ok lc
     | CurrentConfig cfg \<Rightarrow>
         Ok \<lparr>lc_token_contract = token_contract cfg,
             lc_protocol_fee_collector = protocol_fee_collector cfg\<rparr>)"

definition migrate_config :: "hub_storage \<Rightarrow> canonical_addr option \<Rightarrow> hub_storage res" where
  "migrate_config st rewards =
     and_then (read_legacy_config st) (\<lambda>legacy_config.
     Ok (st\<lparr>CONFIG := Some (CurrentConfig
         \<lparr>token_contract_registered = False,
          token_contract = lc_token_contract legacy_config,
          protocol_fee_collector = lc_protocol_fee_collector legacy_config,
          rewards_contract = rewards\<rparr>)\<rparr>))"

definition hub_migrate :: "cw_lib \<Rightarrow> hub_storage \<Rightarrow> hub_migrate_msg \<Rightarrow> (hub_storage \<times> response) res" where
  "hub_migrate L st msg =
     and_then (addr_canonicalize L msg) (\<lambda>rewards.
     and_then (migrate_config st (Some rewards)) (\<lambda>st'.
     Ok (st', respond [SetWithdrawAddress msg] [(''action'', AttrText ''migration'')])))"

section \<open>Queries\<close>

text \<open>An optional stored address as text: \<open>addr_humanize(..).unwrap()\<close> where it is set.\<close>

definition humanize_opt :: "cw_lib \<Rightarrow> canonical_addr option \<Rightarrow> string option res" where
  "humanize_opt L a =
     (case a of
        Some raw \<Rightarrow> and_then (unwrap (addr_humanize L raw)) (\<lambda>h. Ok (Some h))
      | None \<Rightarrow> Ok None)"

definition query_config :: "cw_lib \<Rightarrow> hub_storage \<Rightarrow> config_response res" where
  "query_config L st =
     and_then (load_config st) (\<lambda>config.
     and_then (humanize_opt L (token_contract config)) (\<lambda>token.
     and_then (humanize_opt L (protocol_fee_collector config)) (\<lambda>fee_collector.
     and_then (humanize_opt L (rewards_contract config)) (\<lambda>rewards.
     Ok \<lparr>cr_token_contract = token, cr_protocol_fee_collector = fee_collector,
         cr_rewards_contract = rewards\<rparr>))))"

definition query_state :: "hub_storage \<Rightarrow> state_response res" where
  "query_state st =
     and_then (load ''State'' (STATE st)) (\<lambda>state.
     Ok \<lparr>sr_exchange_rate = exchange_rate state,
         sr_total_bond_amount = total_bond_amount state,
         sr_last_index_modification = last_index_modification state,
         sr_principle_balance_before_exchange_update =
           principle_balance_before_exchange_update state,
         sr_prev_hub_balance = prev_hub_balance state,
         sr_actual_unbonded_amount = actual_unbonded_amount state,
         sr_last_unbonded_time = last_unbonded_time state,
         sr_last_processed_batch = last_processed_batch state\<rparr>)"

definition query_withdrawable_unbonded ::
  "cw_lib \<Rightarrow> hub_storage \<Rightarrow> string \<Rightarrow> env \<Rightarrow> u128 res" where
  "query_withdrawable_unbonded L st address env =
     and_then (load ''Parameters'' (PARAMETERS st)) (\<lambda>params.
     and_then (u64_sub (block_seconds env) (unbonding_period params)) (\<lambda>historical_time.
     query_get_finished_amount L st address historical_time))"

definition query_unbond_requests :: "cw_lib \<Rightarrow> hub_storage \<Rightarrow> string \<Rightarrow> (string \<times> unbond_request) res" where
  "query_unbond_requests L st address =
     (if is_err (addr_validate L address) then Err (GenericErr ''invalid address'')
      else and_then (get_unbond_requests L st address) (\<lambda>requests. Ok (address, requests)))"

definition query_white_validators :: "cw_lib \<Rightarrow> hub_storage \<Rightarrow> string list res" where
  "query_white_validators L st = and_then (read_validators L st) (\<lambda>validators. Ok validators)"

definition query_current_batch :: "hub_storage \<Rightarrow> current_batch res" where
  "query_current_batch st =
     and_then (load ''CurrentBatch'' (CURRENT_BATCH st)) (\<lambda>batch.
     Ok \<lparr>cb_id = cb_id batch, requested_with_fee = requested_with_fee batch\<rparr>)"

definition query_params :: "hub_storage \<Rightarrow> parameters res" where
  "query_params st = load ''Parameters'' (PARAMETERS st)"

definition query_unbond_requests_limitation ::
  "hub_storage \<Rightarrow> u64 option \<Rightarrow> u32 option \<Rightarrow> unbond_history list res" where
  "query_unbond_requests_limitation st start limit =
     and_then (all_unbond_history st start limit) (\<lambda>requests. Ok requests)"

definition hub_query :: "cw_lib \<Rightarrow> hub_storage \<Rightarrow> env \<Rightarrow> hub_query_msg \<Rightarrow> hub_query_response res" where
  "hub_query L st env msg =
     (case msg of
        QConfig \<Rightarrow> and_then (query_config L st) (\<lambda>r. Ok (ConfigResponse r))
      | QState \<Rightarrow> and_then (query_state st) (\<lambda>r. Ok (StateResponse r))
      | QCurrentBatch \<Rightarrow>
          and_then (query_current_batch st) (\<lambda>b.
          Ok (CurrentBatchResponse (cb_id b) (requested_with_fee b)))
      | QWhitelistedValidators \<Rightarrow>
          and_then (query_white_validators L st) (\<lambda>vs. Ok (WhitelistedValidatorsResponse vs))
      | QWithdrawableUnbonded address \<Rightarrow>
          and_then (query_withdrawable_unbonded L st address env) (\<lambda>a.
          Ok (WithdrawableUnbondedResponse a))
      | QParameters \<Rightarrow> and_then (query_params st) (\<lambda>p. Ok (ParametersResponse p))
      | QUnbondRequests address \<Rightarrow>
          and_then (query_unbond_requests L st address) (\<lambda>(a, rs). Ok (UnbondRequestsResponse a rs))
      | QAllHistory start_from limit \<Rightarrow>
          and_then (query_unbond_requests_limitation st start_from limit) (\<lambda>hs. Ok (AllHistoryResponse hs))
      | QAdmin \<Rightarrow> and_then (admin_query L (ADMIN st)) (\<lambda>a. Ok (AdminResponse a)))"

lemmas hub_contract_defs =
  hub_instantiate_def receive_cw20_def execute_update_admin_def hub_execute_def
  read_legacy_config_def migrate_config_def hub_migrate_def humanize_opt_def query_config_def
  query_state_def query_withdrawable_unbonded_def query_unbond_requests_def query_white_validators_def
  query_current_batch_def query_params_def query_unbond_requests_limitation_def hub_query_def

declare hub_contract_defs [eval_defs]

section \<open>Properties\<close>

lemma unpaused_if_ok:
  assumes "hub_execute L Q st env info msg = Ok (st', r)"
  shows "msg = Pause \<or> msg = Unpause \<or> PAUSE st = Some False"
  using assms by (cases msg) (auto simp: hub_execute_def dest: is_contract_paused_OkD)

text \<open>
  C26: access control. Whatever message succeeds, its sender had the right to it: the stored admin
  for pausing, parameters, configuration, the admin itself and removing validators; the admin or the
  hub for adding a validator; the registered rewards contract for compounding; the registered token
  contract for unbonding. The rest is open to everyone. And while the hub is paused nothing but pausing and
  unpausing succeeds.
\<close>

theorem hub_execute_authorised:
  assumes "cosmwasm L" and "hub_execute L Q st env info msg = Ok (st', r)"
  shows "(msg = Pause \<or> msg = Unpause \<or> PAUSE st = Some False) \<and> (case msg of
      Pause \<Rightarrow> ADMIN st = Some (Some (sender info))
    | Unpause \<Rightarrow> ADMIN st = Some (Some (sender info))
    | UpdateConfig _ _ \<Rightarrow> ADMIN st = Some (Some (sender info))
    | UpdateAdmin _ \<Rightarrow> ADMIN st = Some (Some (sender info))
    | UpdateParams _ _ _ _ _ \<Rightarrow> ADMIN st = Some (Some (sender info))
    | DeregisterValidator _ \<Rightarrow> ADMIN st = Some (Some (sender info))
    | RegisterValidator _ \<Rightarrow> ADMIN st = Some (Some (sender info))
        \<or> addr_canonicalize L (sender info) = addr_canonicalize L (contract_address env)
    | UpdateExchangeRate \<Rightarrow> \<exists>cfg raw. CONFIG st = Some (CurrentConfig cfg)
        \<and> rewards_contract cfg = Some raw \<and> addr_humanize L raw = Ok (sender info)
    | Receive _ \<Rightarrow> \<exists>cfg raw. CONFIG st = Some (CurrentConfig cfg)
        \<and> token_contract cfg = Some raw \<and> addr_canonicalize L (sender info) = Ok raw
    | _ \<Rightarrow> True)" (is "_ \<and> ?auth")
proof (rule conjI [OF unpaused_if_ok [OF assms(2)]])
  have admin: "admin_controller L" using assms(1) by (simp add: cosmwasm_def)
  note admin_simps = admin_controller.unwrap_assert_admin_Ok [OF admin]
  show ?auth
  proof (cases msg)
    case (UpdateAdmin a)
    with assms(2) obtain a' x where "admin_execute_update L (ADMIN st) info (Some a') = Inr x"
      by (auto simp: hub_execute_def execute_update_admin_def split: sum.splits admin_error.splits)
    then have "admin_assert L (ADMIN st) (sender info) = Inr ()"
      using admin_controller.admin_update_rejected [OF admin, of "ADMIN st" info _ "Some a'"]
      by (cases "admin_assert L (ADMIN st) (sender info)") auto
    then show ?thesis using UpdateAdmin by (simp add: admin_controller.admin_assert_iff [OF admin])
  next
    case (RegisterValidator v)
    with assms(2) obtain a where "admin_get L (ADMIN st) = Ok (Some a)"
      and "sender info = a \<or> addr_canonicalize L (sender info) = addr_canonicalize L (contract_address env)"
      by (auto simp: hub_execute_def execute_register_validator_def res_simps split: if_splits)
    moreover from this(1) have "ADMIN st = Some (Some a)"
      using admin_controller.admin_get_unset [OF admin]
      by (cases "ADMIN st") (auto simp: admin_controller.admin_get_stored [OF admin])
    ultimately show ?thesis using RegisterValidator by auto
  next
    case UpdateExchangeRate
    with assms(2) have "execute_update_exchange_rate L Q st env info = Ok (st', r)"
      by (auto simp: hub_execute_def)
    then show ?thesis
      by (rule execute_update_exchange_rate_OkE) (auto simp: UpdateExchangeRate)
  next
    case (Receive m)
    with assms(2) show ?thesis
      by (cases "from_binary_hook L (cw20_msg m)")
        (auto simp: hub_execute_def receive_cw20_def res_simps split: cw20_hook_msg.splits if_splits)
  qed (use assms(2) in \<open>auto simp: hub_execute_def execute_update_params_def execute_update_config_def
        execute_deregister_validator_def admin_simps\<close>)
qed

theorem hub_execute_authorised_witness:
  "\<exists>st' r. hub_execute ref_lib (sample_querier 0 0 0) sample_storage (sample_env 1)
      \<lparr>sender = ''owner'', funds = []\<rparr> Pause = Ok (st', r) \<and> PAUSE st' = Some True
    \<and> ADMIN sample_storage = Some (Some ''owner'')"
proof -
  obtain st' r where ok: "hub_execute ref_lib (sample_querier 0 0 0) sample_storage (sample_env 1)
      \<lparr>sender = ''owner'', funds = []\<rparr> Pause = Ok (st', r)" and "PAUSE st' = Some True"
    by (simp add: eval_defs)
  with hub_execute_authorised [OF cosmwasm_ref_lib ok] show ?thesis by auto
qed

text \<open>
  C28: a fresh hub. Instantiation bonds the attached coin of the declared kind, records the sender as
  the admin, starts unpaused with the first batch empty, no token and a rate of one, and asks the chain to
  whitelist and delegate to the given validator and to pay rewards to the rewards contract. The
  parameters are stored as given: none of the checks on them can fail.
\<close>

theorem hub_instantiate_establishes:
  assumes "cosmwasm L" and "hub_instantiate L empty_storage env info msg = Ok (st', r)"
  shows "\<exists>pay s raw. find_payment (im_underlying_coin_denom msg) (funds info) = Some pay
    \<and> addr_canonicalize L (im_rewards_contract msg) = Ok raw
    \<and> STATE st' = Some s \<and> total_bond_amount s = coin_amount pay \<and> exchange_rate s = dec_one
    \<and> last_processed_batch s = 0 \<and> prev_hub_balance s = 0 \<and> actual_unbonded_amount s = 0
    \<and> last_unbonded_time s = block_seconds env
    \<and> PAUSE st' = Some False \<and> ADMIN st' = Some (Some (sender info))
    \<and> CURRENT_BATCH st' = Some \<lparr>cb_id = 1, requested_with_fee = 0\<rparr>
    \<and> PARAMETERS st' = Some \<lparr>epoch_period = im_epoch_period msg,
        underlying_coin_denom = im_underlying_coin_denom msg,
        unbonding_period = im_unbonding_period msg, peg_recovery_fee = im_peg_recovery_fee msg,
        er_threshold = im_er_threshold msg, protocol_fee = im_protocol_fee msg\<rparr>
    \<and> CONFIG st' = Some (CurrentConfig \<lparr>token_contract_registered = False, token_contract = None,
        protocol_fee_collector = None, rewards_contract = Some raw\<rparr>)
    \<and> HISTORY st' = [] \<and> VALIDATORS st' = [] \<and> (\<forall>a. WAIT st' a = [])
    \<and> messages r = [WasmExecute (contract_address env) (HubMsg (RegisterValidator (im_validator msg))) [],
        Delegate (im_validator msg) pay, SetWithdrawAddress (im_rewards_contract msg)]"
proof -
  have admin: "admin_controller L" and api: "address_api L" using assms(1) by (simp_all add: cosmwasm_def)
  show ?thesis
    using assms(2) address_api.validate_same [OF api]
    unfolding hub_instantiate_def Let_def validate_params_def empty_storage_def
    by (clarsimp simp: res_simps admin_controller.admin_set_stores [OF admin])
qed

theorem hub_instantiate_establishes_witness:
  "\<exists>st' r s. hub_instantiate ref_lib empty_storage (sample_env 100)
      \<lparr>sender = ''owner'', funds = [\<lparr>denom = ''uluna'', coin_amount = 1000\<rparr>]\<rparr>
      \<lparr>im_epoch_period = 30, im_underlying_coin_denom = ''uluna'', im_unbonding_period = 50,
       im_peg_recovery_fee = dec_zero, im_er_threshold = dec_one, im_validator = ''val1'',
       im_protocol_fee = dec_zero, im_rewards_contract = ''rewards''\<rparr> = Ok (st', r)
    \<and> STATE st' = Some s \<and> unat (total_bond_amount s) = 1000"
    (is "\<exists>st' r s. hub_instantiate _ _ ?env ?info ?msg = _ \<and> _")
proof -
  obtain st' r where ok: "hub_instantiate ref_lib empty_storage ?env ?info ?msg = Ok (st', r)"
    by (simp add: eval_defs)
  from hub_instantiate_establishes [OF cosmwasm_ref_lib ok] ok show ?thesis
    by (auto simp: find_payment_def)
qed

text \<open>
  C33: migration keeps the token contract and the fee collector of the old layout and sets the
  rewards contract, whose address also becomes the receiver of staking rewards. It clears the flag that
  protects a registered token contract, so the next configuration update by the admin can replace
  the token contract.
\<close>

theorem migrate_reopens_token_registration:
  assumes "cosmwasm L" and "hub_migrate L st m = Ok (st', r)" and "ADMIN st = Some (Some (sender info))"
    and "addr_canonicalize L t = Ok raw"
  shows "\<exists>cfg rewards st2 r2 cfg2. CONFIG st' = Some (CurrentConfig cfg)
    \<and> addr_canonicalize L m = Ok rewards \<and> rewards_contract cfg = Some rewards
    \<and> messages r = [SetWithdrawAddress m]
    \<and> (case CONFIG st of
         Some (LegacyConfig lc) \<Rightarrow> token_contract cfg = lc_token_contract lc
           \<and> protocol_fee_collector cfg = lc_protocol_fee_collector lc
       | Some (CurrentConfig old) \<Rightarrow> token_contract cfg = token_contract old
           \<and> protocol_fee_collector cfg = protocol_fee_collector old
       | None \<Rightarrow> False)
    \<and> execute_update_config L st' info (Some t) None = Ok (st2, r2)
    \<and> CONFIG st2 = Some (CurrentConfig cfg2) \<and> token_contract cfg2 = Some raw"
proof -
  have admin: "admin_controller L" using assms(1) by (simp add: cosmwasm_def)
  from assms(2) obtain rewards lc where rewards: "addr_canonicalize L m = Ok rewards"
    and lc: "read_legacy_config st = Ok lc"
    and st': "st' = st\<lparr>CONFIG := Some (CurrentConfig \<lparr>token_contract_registered = False,
       token_contract = lc_token_contract lc, protocol_fee_collector = lc_protocol_fee_collector lc,
       rewards_contract = Some rewards\<rparr>)\<rparr>" and msgs: "messages r = [SetWithdrawAddress m]"
    by (auto simp: hub_migrate_def migrate_config_def)
  have "case CONFIG st of
         Some (LegacyConfig l) \<Rightarrow> l = lc
       | Some (CurrentConfig old) \<Rightarrow> lc_token_contract lc = token_contract old
           \<and> lc_protocol_fee_collector lc = protocol_fee_collector old
       | None \<Rightarrow> False"
    using lc by (cases "CONFIG st") (auto simp: read_legacy_config_def split: config_cell.splits)
  then show ?thesis
    using rewards msgs assms(3,4)
    by (auto simp: st' execute_update_config_def load_config_def
        admin_controller.unwrap_assert_admin_eq [OF admin] split: option.splits config_cell.splits)
qed

theorem migrate_reopens_token_registration_witness:
  "\<exists>st' r st2 r2 cfg2. hub_migrate ref_lib sample_storage ''rewards2'' = Ok (st', r)
    \<and> execute_update_config ref_lib st' \<lparr>sender = ''owner'', funds = []\<rparr> (Some ''token2'') None = Ok (st2, r2)
    \<and> CONFIG st2 = Some (CurrentConfig cfg2) \<and> token_contract cfg2 = Some (map char_byte ''token2'')"
proof -
  obtain st' r where ok: "hub_migrate ref_lib sample_storage ''rewards2'' = Ok (st', r)"
    by (simp add: eval_defs)
  have "ADMIN sample_storage = Some (Some (sender \<lparr>sender = ''owner'', funds = []\<rparr>))"
    and "addr_canonicalize ref_lib ''token2'' = Ok (map char_byte ''token2'')" by simp_all
  from migrate_reopens_token_registration [OF cosmwasm_ref_lib ok this] ok show ?thesis by auto
qed

end
