(* ===== verification/HubInvariant.thy ===== *)
theory HubInvariant
  imports HubContract
begin

text \<open>
  The hub as a state machine: the storages that instantiation and any sequence of successful
  messages can reach, and the invariant of the unbonding books. Batches are filed in the history
  exactly up to the current one, released exactly up to the last processed one, and what the users
  have waiting in a batch adds up to the batch's total until the batch is released.
\<close>

section \<open>The invariant\<close>

text \<open>What all users together have waiting in a batch.\<close>

definition waiting_users :: "hub_storage \<Rightarrow> byte list set" where
  "waiting_users st = {a. WAIT st a \<noteq> []}"

definition total_waiting :: "cw_lib \<Rightarrow> hub_storage \<Rightarrow> u64 \<Rightarrow> nat" where
  "total_waiting L st b = (\<Sum>a \<in> waiting_users st. waiting L st a b)"

definition stores_ok :: "cw_lib \<Rightarrow> hub_storage \<Rightarrow> bool" where
  "stores_ok L st = (history_ok (HISTORY st) \<and> whitelist_ok L (VALIDATORS st)
     \<and> (\<forall>a. bucket_ok L (WAIT st a)) \<and> finite (waiting_users st))"

text \<open>The books, for the current batch id, its requested total and the last processed batch.\<close>

definition books_ok :: "cw_lib \<Rightarrow> hub_storage \<Rightarrow> u64 \<Rightarrow> u128 \<Rightarrow> u64 \<Rightarrow> bool" where
  "books_ok L st cur requested processed =
     (processed < cur
      \<and> (\<forall>b. kv_get (HISTORY st) (to_be_bytes b) \<noteq> None \<longleftrightarrow> 0 < b \<and> b < cur)
      \<and> (\<forall>b h. kv_get (HISTORY st) (to_be_bytes b) = Some h \<longrightarrow>
           (if b \<le> processed then released h \<and> total_waiting L st b \<le> unat (hist_amount h)
            else \<not> released h \<and> total_waiting L st b = unat (hist_amount h)))
      \<and> total_waiting L st cur = unat requested
      \<and> (\<forall>b. b = 0 \<or> cur < b \<longrightarrow> total_waiting L st b = 0))"

definition hub_inv :: "cw_lib \<Rightarrow> hub_storage \<Rightarrow> bool" where
  "hub_inv L st =
     (stores_ok L st \<and> PARAMETERS st \<noteq> None
      \<and> (\<exists>s cb. STATE st = Some s \<and> CURRENT_BATCH st = Some cb \<and> actual_unbonded_amount s = 0
          \<and> books_ok L st (cb_id cb) (requested_with_fee cb) (last_processed_batch s)))"

lemma hub_invE:
  assumes "hub_inv L st"
  obtains p s cb where "PARAMETERS st = Some p" and "STATE st = Some s" and "CURRENT_BATCH st = Some cb"
    and "stores_ok L st" and "actual_unbonded_amount s = 0"
    and "books_ok L st (cb_id cb) (requested_with_fee cb) (last_processed_batch s)"
  using assms by (auto simp: hub_inv_def)

text \<open>Totals depend on the wait list alone.\<close>

lemma waiting_update [simp]:
  "waiting L (st\<lparr>STATE := x\<rparr>) = waiting L st" "waiting L (st\<lparr>CURRENT_BATCH := y\<rparr>) = waiting L st"
  "waiting L (st\<lparr>HISTORY := z\<rparr>) = waiting L st"
  by (simp_all add: waiting_def fun_eq_iff)

lemma waiting_users_update [simp]:
  "waiting_users (st\<lparr>STATE := x\<rparr>) = waiting_users st"
  "waiting_users (st\<lparr>CURRENT_BATCH := y\<rparr>) = waiting_users st"
  "waiting_users (st\<lparr>HISTORY := z\<rparr>) = waiting_users st"
  by (simp_all add: waiting_users_def)

lemma total_waiting_update [simp]:
  "total_waiting L (st\<lparr>STATE := x\<rparr>) = total_waiting L st"
  "total_waiting L (st\<lparr>CURRENT_BATCH := y\<rparr>) = total_waiting L st"
  "total_waiting L (st\<lparr>HISTORY := z\<rparr>) = total_waiting L st"
  by (simp_all add: total_waiting_def fun_eq_iff)

lemma stores_ok_update [simp]:
  "stores_ok L (st\<lparr>STATE := x\<rparr>) = stores_ok L st" "stores_ok L (st\<lparr>CURRENT_BATCH := y\<rparr>) = stores_ok L st"
  by (simp_all add: stores_ok_def)

lemma books_ok_update [simp]:
  "books_ok L (st\<lparr>STATE := x\<rparr>) = books_ok L st" "books_ok L (st\<lparr>CURRENT_BATCH := y\<rparr>) = books_ok L st"
  by (simp_all add: books_ok_def fun_eq_iff)

section \<open>Machine\<close>

text \<open>
  One step is a successful message or a migration; the guard restricts the messages and the answers of
  the chain that are considered. Reachable are the storages after instantiation and any number of steps.
\<close>

inductive hub_step ::
  "cw_lib \<Rightarrow> (hub_storage \<Rightarrow> querier \<Rightarrow> env \<Rightarrow> hub_execute_msg \<Rightarrow> bool) \<Rightarrow> hub_storage \<Rightarrow> hub_storage \<Rightarrow> bool"
  for L G where
  message: "hub_execute L Q st env info msg = Ok (st', r) \<Longrightarrow> G st Q env msg \<Longrightarrow> hub_step L G st st'"
| migration: "hub_migrate L st m = Ok (st', r) \<Longrightarrow> hub_step L G st st'"

inductive hub_reachable ::
  "cw_lib \<Rightarrow> (hub_storage \<Rightarrow> querier \<Rightarrow> env \<Rightarrow> hub_execute_msg \<Rightarrow> bool) \<Rightarrow> hub_storage \<Rightarrow> bool"
  for L G where
  start: "hub_instantiate L empty_storage env info msg = Ok (st, r) \<Longrightarrow> hub_reachable L G st"
| step: "hub_reachable L G st \<Longrightarrow> hub_step L G st st' \<Longrightarrow> hub_reachable L G st'"

inductive_cases hub_stepE: "hub_step L G st st'"

section \<open>Totals\<close>

lemma waiting_not_user: "a \<notin> waiting_users st \<Longrightarrow> waiting L st a b = 0"
  by (simp add: waiting_users_def waiting_def kv_get_def)

lemma total_waiting_superset:
  assumes "finite A" and "waiting_users st \<subseteq> A"
  shows "total_waiting L st b = (\<Sum>a \<in> A. waiting L st a b)"
  unfolding total_waiting_def
  by (rule sum.mono_neutral_left [OF assms]) (simp add: waiting_not_user)

lemma waiting_le_total: "finite (waiting_users st) \<Longrightarrow> waiting L st a b \<le> total_waiting L st b"
  by (cases "a \<in> waiting_users st")
    (auto simp: total_waiting_def waiting_not_user intro: member_le_sum)

lemma total_waiting_add:
  assumes "finite (waiting_users st)" and "waiting_users st' \<subseteq> insert u (waiting_users st)"
    and "\<And>a b. waiting L st' a b = waiting L st a b + (if a = u \<and> b = c then m else 0)"
  shows "total_waiting L st' b = total_waiting L st b + (if b = c then m else 0)"
proof -
  let ?A = "insert u (waiting_users st)"
  have "finite ?A" using assms(1) by simp
  then have "total_waiting L st' b = (\<Sum>a \<in> ?A. waiting L st' a b)"
    using assms(2) by (rule total_waiting_superset)
  also have "\<dots> = (\<Sum>a \<in> ?A. waiting L st a b) + (\<Sum>a \<in> ?A. if a = u \<and> b = c then m else 0)"
    by (simp add: assms(3) sum.distrib)
  also have "(\<Sum>a \<in> ?A. if a = u \<and> b = c then m else 0) = (if b = c then m else 0)"
    using \<open>finite ?A\<close> by (simp add: sum.delta)
  also have "(\<Sum>a \<in> ?A. waiting L st a b) = total_waiting L st b"
    using \<open>finite ?A\<close> by (simp add: total_waiting_superset [symmetric] subset_insertI)
  finally show ?thesis .
qed

lemma total_waiting_remove:
  assumes "finite (waiting_users st)" and "waiting_users st' \<subseteq> waiting_users st"
    and "\<And>a b. waiting L st' a b = (if a = u \<and> P b then 0 else waiting L st a b)"
  shows "total_waiting L st' b \<le> total_waiting L st b"
    and "\<not> P b \<Longrightarrow> total_waiting L st' b = total_waiting L st b"
proof -
  have eq: "total_waiting L st' b = (\<Sum>a \<in> waiting_users st. waiting L st' a b)"
    using assms(1,2) by (rule total_waiting_superset)
  show "total_waiting L st' b \<le> total_waiting L st b"
    unfolding eq unfolding total_waiting_def by (rule sum_mono) (simp add: assms(3))
  show "\<not> P b \<Longrightarrow> total_waiting L st' b = total_waiting L st b"
    unfolding eq unfolding total_waiting_def by (rule sum.cong) (simp_all add: assms(3))
qed

section \<open>Preservation\<close>

text \<open>A step that leaves the unbonding books alone keeps the invariant.\<close>

definition same_books :: "hub_storage \<Rightarrow> hub_storage \<Rightarrow> bool" where
  "same_books st st' =
     (WAIT st' = WAIT st \<and> HISTORY st' = HISTORY st \<and> CURRENT_BATCH st' = CURRENT_BATCH st
      \<and> (\<forall>s. STATE st = Some s \<longrightarrow> (\<exists>s'. STATE st' = Some s'
            \<and> last_processed_batch s' = last_processed_batch s
            \<and> actual_unbonded_amount s' = actual_unbonded_amount s
            \<and> prev_hub_balance s' = prev_hub_balance s
            \<and> last_unbonded_time s' = last_unbonded_time s)))"

lemma same_booksI:
  assumes "STATE st = Some s" and "st' = st\<lparr>STATE := Some s'\<rparr>"
    and "last_processed_batch s' = last_processed_batch s"
    and "actual_unbonded_amount s' = actual_unbonded_amount s"
    and "prev_hub_balance s' = prev_hub_balance s"
    and "last_unbonded_time s' = last_unbonded_time s"
  shows "same_books st st'"
  using assms by (simp add: same_books_def)

lemma same_books_update [simp]:
  "same_books st (st\<lparr>PAUSE := a\<rparr>)" "same_books st (st\<lparr>ADMIN := b\<rparr>)" "same_books st (st\<lparr>CONFIG := c\<rparr>)"
  "same_books st (st\<lparr>PARAMETERS := d\<rparr>)" "same_books st (st\<lparr>VALIDATORS := e\<rparr>)" "same_books st st"
  by (simp_all add: same_books_def)

lemma total_waiting_same: "same_books st st' \<Longrightarrow> total_waiting L st' b = total_waiting L st b"
  by (simp add: same_books_def total_waiting_def waiting_users_def waiting_def)

lemma hub_inv_frame:
  assumes "hub_inv L st" and "same_books st st'" and "PARAMETERS st' \<noteq> None"
    and "whitelist_ok L (VALIDATORS st')"
  shows "hub_inv L st'"
proof -
  obtain s cb where s: "STATE st = Some s" "CURRENT_BATCH st = Some cb"
    and inv: "stores_ok L st" "actual_unbonded_amount s = 0"
      "books_ok L st (cb_id cb) (requested_with_fee cb) (last_processed_batch s)"
    using assms(1) by (rule hub_invE) blast
  have users: "waiting_users st' = waiting_users st"
    using assms(2) by (simp add: waiting_users_def same_books_def)
  have "books_ok L st' = books_ok L st"
    using assms(2) total_waiting_same [OF assms(2), of L] by (simp add: books_ok_def same_books_def fun_eq_iff)
  with inv s assms show ?thesis
    by (auto simp: hub_inv_def stores_ok_def users same_books_def)
qed

lemma books_ok_entry:
  "books_ok L st cur requested processed \<Longrightarrow> kv_get (HISTORY st) (to_be_bytes b) = Some h \<Longrightarrow>
     if b \<le> processed then released h \<and> total_waiting L st b \<le> unat (hist_amount h)
     else \<not> released h \<and> total_waiting L st b = unat (hist_amount h)"
  by (simp add: books_ok_def)

text \<open>The moves of the books: a request, the end of an epoch, a release, a withdrawal.\<close>

lemma books_ok_request:
  assumes "books_ok L st cur requested processed" and "HISTORY st' = HISTORY st"
    and "\<And>b. total_waiting L st' b = total_waiting L st b + (if b = cur then m else 0)"
    and "unat requested' = unat requested + m"
  shows "books_ok L st' cur requested' processed"
proof -
  have "b \<noteq> cur" if "kv_get (HISTORY st) (to_be_bytes b) = Some h" for b h
    using assms(1) that by (auto simp: books_ok_def)
  with assms show ?thesis by (auto simp: books_ok_def)
qed

lemma books_ok_close:
  assumes "books_ok L st cur requested processed"
    and "HISTORY st' = kv_put (HISTORY st) (to_be_bytes cur) h"
    and "\<And>b. total_waiting L st' b = total_waiting L st b" and "\<not> released h"
    and "hist_amount h = requested" and "unat cur' = unat cur + 1"
  shows "books_ok L st' cur' 0 processed"
proof -
  have le: "b < cur' \<longleftrightarrow> b < cur \<or> b = cur" "cur < cur'" "cur' \<le> b \<Longrightarrow> cur < b" for b
    using assms(6) by (auto simp: word_less_nat_alt word_le_nat_alt word_unat_eq_iff)
  have "processed < cur" "0 < cur" using assms(1) by (auto simp: books_ok_def word_gt_0)
  then show ?thesis
    using assms(1-5) le by (auto simp: books_ok_def)
qed

lemma set_due_ids_interval:
  "b \<in> set (due_ids hist t i) \<longleftrightarrow> unat i \<le> unat b \<and> unat b < unat i + length (due_ids hist t i)"
proof
  assume "b \<in> set (due_ids hist t i)"
  then obtain j where "j < length (due_ids hist t i)" "b = due_ids hist t i ! j"
    by (auto simp: in_set_conv_nth)
  with due_ids_nth [of j hist t i] show "unat i \<le> unat b \<and> unat b < unat i + length (due_ids hist t i)"
    by simp
next
  assume b: "unat i \<le> unat b \<and> unat b < unat i + length (due_ids hist t i)"
  then have j: "unat b - unat i < length (due_ids hist t i)" by auto
  from due_ids_nth [OF j] b have "due_ids hist t i ! (unat b - unat i) = b"
    by (simp add: word_unat_eq_iff)
  with nth_mem [OF j] show "b \<in> set (due_ids hist t i)" by simp
qed

lemma set_due_ids_after:
  assumes "processed < cur" and "unat l' = unat processed + length (due_ids hist t (processed + 1))"
  shows "b \<in> set (due_ids hist t (processed + 1)) \<longleftrightarrow> processed < b \<and> b \<le> l'"
  unfolding set_due_ids_interval using assms(2)
  by (auto simp: unat_u64_succ [OF assms(1)] word_less_nat_alt word_le_nat_alt)

lemma books_ok_release:
  assumes "books_ok L st cur requested processed"
    and "\<And>b. b \<in> set (due_ids (HISTORY st) t (processed + 1)) \<Longrightarrow> \<exists>h h'.
           kv_get (HISTORY st) (to_be_bytes b) = Some h \<and> kv_get (HISTORY st') (to_be_bytes b) = Some h'
           \<and> released h' \<and> hist_amount h' = hist_amount h"
    and "\<And>b. b \<notin> set (due_ids (HISTORY st) t (processed + 1)) \<Longrightarrow>
           kv_get (HISTORY st') (to_be_bytes b) = kv_get (HISTORY st) (to_be_bytes b)"
    and "unat l' = unat processed + length (due_ids (HISTORY st) t (processed + 1))"
    and "\<And>b. total_waiting L st' b = total_waiting L st b"
  shows "books_ok L st' cur requested l'"
proof -
  let ?ids = "due_ids (HISTORY st) t (processed + 1)"
  have less: "processed < cur" using assms(1) by (simp add: books_ok_def)
  note run = set_due_ids_after [OF less assms(4)]
  have filed: "kv_get (HISTORY st') (to_be_bytes b) \<noteq> None \<longleftrightarrow> kv_get (HISTORY st) (to_be_bytes b) \<noteq> None" for b
    using assms(2,3) [of b] by (cases "b \<in> set ?ids") auto
  have "l' < cur"
  proof (cases "?ids = []")
    case False
    then have "processed < l'" using assms(4) by (simp add: word_less_nat_alt)
    then have "l' \<in> set ?ids" by (simp add: run)
    with assms(2) have "kv_get (HISTORY st) (to_be_bytes l') \<noteq> None" by fastforce
    with assms(1) show ?thesis by (simp add: books_ok_def)
  qed (use assms(4) less in \<open>simp add: word_unat_eq_iff word_less_nat_alt\<close>)
  moreover have "if b \<le> l' then released h' \<and> total_waiting L st b \<le> unat (hist_amount h')
      else \<not> released h' \<and> total_waiting L st b = unat (hist_amount h')"
    if h': "kv_get (HISTORY st') (to_be_bytes b) = Some h'" for b h'
  proof (cases "b \<in> set ?ids")
    case True
    with assms(2) h' obtain h where h: "kv_get (HISTORY st) (to_be_bytes b) = Some h" "released h'"
      "hist_amount h' = hist_amount h" by fastforce
    moreover from True have "processed < b" "b \<le> l'" by (simp_all add: run)
    ultimately show ?thesis using assms(1,5) by (auto simp: books_ok_def)
  next
    case False
    then have "kv_get (HISTORY st) (to_be_bytes b) = Some h'" using assms(3) h' by simp
    moreover have "b \<le> l' \<longleftrightarrow> b \<le> processed"
      using False assms(4) by (auto simp: run word_le_nat_alt word_less_nat_alt)
    ultimately show ?thesis using assms(1,5) by (auto simp: books_ok_def)
  qed
  ultimately show ?thesis
    using assms(1) filed unfolding books_ok_def [of L st] books_ok_def [of L st'] by (simp add: assms(5))
qed

lemma books_ok_withdraw:
  assumes "books_ok L st cur requested processed" and "HISTORY st' = HISTORY st"
    and "\<And>b. total_waiting L st' b \<le> total_waiting L st b"
    and "\<And>b. \<not> released_batch st b \<Longrightarrow> total_waiting L st' b = total_waiting L st b"
  shows "books_ok L st' cur requested processed"
proof -
  have "\<not> released_batch st cur" using assms(1) by (auto simp: books_ok_def released_batch_def)
  moreover have "total_waiting L st' b \<le> unat (hist_amount h)"
    if "kv_get (HISTORY st) (to_be_bytes b) = Some h" "b \<le> processed" for b h
    using books_ok_entry [OF assms(1) that(1)] that(2) assms(3) [of b] by simp
  moreover have "total_waiting L st' b = 0" if "b = 0 \<or> cur < b" for b
    using assms(1) assms(3) [of b] that by (auto simp: books_ok_def)
  moreover have "total_waiting L st' b = unat (hist_amount h) \<and> \<not> released h"
    if "kv_get (HISTORY st) (to_be_bytes b) = Some h" "\<not> b \<le> processed" for b h
    using assms(1) assms(4) [of b] that by (auto simp: books_ok_def released_batch_def)
  ultimately show ?thesis using assms(1,2) assms(4) [of cur] by (auto simp: books_ok_def)
qed

context cosmwasm
begin

lemma close_batch_files:
  assumes "close_batch L Q st env s cb = Ok (st', s', cb', msgs)"
  obtains h where "unat (cb_id cb') = unat (cb_id cb) + 1" and "requested_with_fee cb' = 0"
    and "hist_batch_id h = cb_id cb" and "hist_amount h = requested_with_fee cb" and "\<not> released h"
    and "st' = st\<lparr>HISTORY := kv_put (HISTORY st) (to_be_bytes (cb_id cb)) h\<rparr>"
    and "last_processed_batch s' = last_processed_batch s"
    and "actual_unbonded_amount s' = actual_unbonded_amount s"
    and "prev_hub_balance s' = prev_hub_balance s"
proof -
  let ?h = "\<lparr>hist_batch_id = cb_id cb, hist_time = block_seconds env,
    hist_amount = requested_with_fee cb, applied_exchange_rate = exchange_rate s,
    withdraw_rate = exchange_rate s, released = False\<rparr>"
  from assms obtain bonded where facts: "u64_add (cb_id cb) 1 = Ok (cb_id cb')" "requested_with_fee cb' = 0"
    "st' = st\<lparr>HISTORY := kv_put (HISTORY st) (to_be_bytes (cb_id cb)) ?h\<rparr>"
    "s' = s\<lparr>total_bond_amount := bonded, last_unbonded_time := block_seconds env\<rparr>"
    by (rule close_batch_OkE) blast
  show thesis by (rule that [of ?h]) (use facts in \<open>simp_all add: u64_add_eq_Ok\<close>)
qed

text \<open>
  What an unbond does to the books: it adds to the sender's entry in the current batch, and either
  raises the batch's total or files the batch with the raised total and opens the next one.
\<close>

lemma unbond_outcome:
  assumes "execute_unbond L Q st env amount user = Ok (st', r)"
    and "PARAMETERS st = Some p" and "CURRENT_BATCH st = Some cb" and "STATE st = Some s"
  obtains m requested s' cb' where "m \<le> amount"
    and "unat requested = unat (requested_with_fee cb) + unat m"
    and "STATE st' = Some s'" and "CURRENT_BATCH st' = Some cb'"
    and "last_processed_batch s' = last_processed_batch s"
    and "actual_unbonded_amount s' = actual_unbonded_amount s" and "prev_hub_balance s' = prev_hub_balance s"
    and "PARAMETERS st' = PARAMETERS st" and "VALIDATORS st' = VALIDATORS st"
    and "\<And>a b. waiting L st' a b
           = waiting L st a b + (if a = to_vec_str L user \<and> b = cb_id cb then unat m else 0)"
    and "\<And>a. a \<noteq> to_vec_str L user \<Longrightarrow> WAIT st' a = WAIT st a"
    and "\<And>a. (\<forall>a. bucket_ok L (WAIT st a)) \<Longrightarrow> bucket_ok L (WAIT st' a)"
    and "cb_id cb' = cb_id cb \<and> requested_with_fee cb' = requested \<and> HISTORY st' = HISTORY st
       \<or> unat (cb_id cb') = unat (cb_id cb) + 1 \<and> requested_with_fee cb' = 0
         \<and> (\<exists>h. hist_batch_id h = cb_id cb \<and> hist_amount h = requested \<and> \<not> released h
              \<and> HISTORY st' = kv_put (HISTORY st) (to_be_bytes (cb_id cb)) h)"
proof -
  obtain st1 t m requested st2 s1 passed st3 s2 cb2 und where
    sl: "slashing L Q st env = Ok st1" and "STATE st1 = Some t"
    and t: "t = s\<lparr>total_bond_amount := total_bond_amount t, exchange_rate := exchange_rate t\<rparr>"
    and le: "m \<le> amount" and req: "unat requested = unat (requested_with_fee cb) + unat m"
    and st2: "st2 = st\<lparr>STATE := Some t, WAIT := WAIT st2\<rparr>"
    and store: "store_unbond_wait_list L st1 (cb_id cb) user m = Ok st2"
    and wait: "\<And>a b. waiting L st2 a b
           = waiting L st a b + (if a = to_vec_str L user \<and> b = cb_id cb then unat m else 0)"
    and s1: "s1 = t\<lparr>exchange_rate := exchange_rate s1\<rparr>"
    and "unat (block_seconds env) = unat (last_unbonded_time s) + unat passed"
    and close: "(if epoch_period p < passed
          then close_batch L Q st2 env s1 (cb\<lparr>requested_with_fee := requested\<rparr>)
          else Ok (st2, s1, cb\<lparr>requested_with_fee := requested\<rparr>, [])) = Ok (st3, s2, cb2, und)"
    and st': "st' = st3\<lparr>CURRENT_BATCH := Some cb2, STATE := Some s2\<rparr>"
    by (rule execute_unbond_summary [OF assms]) blast
  have "WAIT st1 = WAIT st" using sl by (rule slashing_frame) simp
  note stored = store_unbond_wait_list_OkD(3,5) [OF store, unfolded this]
  have same: "HISTORY st2 = HISTORY st" "VALIDATORS st2 = VALIDATORS st" "PARAMETERS st2 = PARAMETERS st"
    by (subst st2, simp)+
  have s1': "last_processed_batch s1 = last_processed_batch s"
    "actual_unbonded_amount s1 = actual_unbonded_amount s" "prev_hub_balance s1 = prev_hub_balance s"
    by (subst s1, subst t, simp)+
  let ?batch = "cb\<lparr>requested_with_fee := requested\<rparr>"
  have step: "WAIT st3 = WAIT st2 \<and> VALIDATORS st3 = VALIDATORS st2 \<and> PARAMETERS st3 = PARAMETERS st2
      \<and> last_processed_batch s2 = last_processed_batch s1 \<and> prev_hub_balance s2 = prev_hub_balance s1
      \<and> actual_unbonded_amount s2 = actual_unbonded_amount s1
      \<and> (cb_id cb2 = cb_id cb \<and> requested_with_fee cb2 = requested \<and> HISTORY st3 = HISTORY st2
         \<or> unat (cb_id cb2) = unat (cb_id cb) + 1 \<and> requested_with_fee cb2 = 0
           \<and> (\<exists>h. hist_batch_id h = cb_id cb \<and> hist_amount h = requested \<and> \<not> released h
                \<and> HISTORY st3 = kv_put (HISTORY st2) (to_be_bytes (cb_id cb)) h))"
  proof (cases "epoch_period p < passed")
    case True
    with close have "close_batch L Q st2 env s1 ?batch = Ok (st3, s2, cb2, und)" by simp
    then show ?thesis by (rule close_batch_files) auto
  qed (use close in auto)
  show thesis
    by (rule that [OF le req, of s2 cb2])
      (use step stored wait in \<open>simp_all add: st' waiting_def same s1' del: One_nat_def\<close>)
qed

lemma unbond_preserves:
  assumes "hub_inv L st" and "execute_unbond L Q st env amount user = Ok (st', r)"
  shows "hub_inv L st'"
proof -
  obtain p s cb where par: "PARAMETERS st = Some p" and s: "STATE st = Some s"
    and cb: "CURRENT_BATCH st = Some cb" and stores: "stores_ok L st"
    and zero: "actual_unbonded_amount s = 0"
    and books: "books_ok L st (cb_id cb) (requested_with_fee cb) (last_processed_batch s)"
    using assms(1) by (rule hub_invE)
  obtain m requested s' cb' where "m \<le> amount"
    and req: "unat requested = unat (requested_with_fee cb) + unat m"
    and s': "STATE st' = Some s'" "CURRENT_BATCH st' = Some cb'" "last_processed_batch s' = last_processed_batch s"
      "actual_unbonded_amount s' = actual_unbonded_amount s" "prev_hub_balance s' = prev_hub_balance s"
    and same: "PARAMETERS st' = PARAMETERS st" "VALIDATORS st' = VALIDATORS st"
    and wait: "\<And>a b. waiting L st' a b
           = waiting L st a b + (if a = to_vec_str L user \<and> b = cb_id cb then unat m else 0)"
    and other: "\<And>a. a \<noteq> to_vec_str L user \<Longrightarrow> WAIT st' a = WAIT st a"
    and buckets: "\<And>a. (\<forall>a. bucket_ok L (WAIT st a)) \<Longrightarrow> bucket_ok L (WAIT st' a)"
    and hist: "cb_id cb' = cb_id cb \<and> requested_with_fee cb' = requested \<and> HISTORY st' = HISTORY st
       \<or> unat (cb_id cb') = unat (cb_id cb) + 1 \<and> requested_with_fee cb' = 0
         \<and> (\<exists>h. hist_batch_id h = cb_id cb \<and> hist_amount h = requested \<and> \<not> released h
              \<and> HISTORY st' = kv_put (HISTORY st) (to_be_bytes (cb_id cb)) h)"
    by (rule unbond_outcome [OF assms(2) par cb s]) (rule that; assumption)
  have fin: "finite (waiting_users st)" using stores by (simp add: stores_ok_def)
  have users: "waiting_users st' \<subseteq> insert (to_vec_str L user) (waiting_users st)"
    using other by (auto simp: waiting_users_def)
  note totals = total_waiting_add [OF fin users wait]
  let ?mid = "st'\<lparr>HISTORY := HISTORY st\<rparr>"
  have mid: "books_ok L ?mid (cb_id cb) requested (last_processed_batch s)"
    by (rule books_ok_request [OF books _ _ req]) (simp_all add: totals)
  from hist have "books_ok L st' (cb_id cb') (requested_with_fee cb') (last_processed_batch s)
      \<and> history_ok (HISTORY st')"
  proof (elim disjE conjE exE)
    assume same_batch: "cb_id cb' = cb_id cb" "requested_with_fee cb' = requested" "HISTORY st' = HISTORY st"
    then have "?mid = st'" by (simp flip: same_batch(3))
    with mid stores same_batch show ?thesis by (simp add: stores_ok_def)
  next
    fix h assume h: "unat (cb_id cb') = unat (cb_id cb) + 1" "requested_with_fee cb' = 0" "hist_batch_id h = cb_id cb"
      "hist_amount h = requested" "\<not> released h" "HISTORY st' = kv_put (HISTORY st) (to_be_bytes (cb_id cb)) h"
    have "books_ok L st' (cb_id cb') 0 (last_processed_batch s)"
      by (rule books_ok_close [OF mid _ _ h(5,4,1)]) (simp_all add: h)
    with h stores show ?thesis by (simp add: stores_ok_def history_ok_put)
  qed
  moreover have "finite (waiting_users st')" using fin users by (auto intro: finite_subset)
  ultimately show ?thesis
    using s' same stores buckets par zero by (auto simp: hub_inv_def stores_ok_def)
qed

lemma process_withdraw_rate_preserves:
  assumes "process_withdraw_rate L st t bal = Ok st1" and "STATE st = Some s" and "stores_ok L st"
    and "books_ok L st cur requested (last_processed_batch s)"
  obtains s1 where "STATE st1 = Some s1" and "actual_unbonded_amount s1 = 0"
    and "books_ok L st1 cur requested (last_processed_batch s1)" and "stores_ok L st1"
    and "PARAMETERS st1 = PARAMETERS st" and "CURRENT_BATCH st1 = CURRENT_BATCH st"
    and "WAIT st1 = WAIT st" and "prev_hub_balance s1 = prev_hub_balance s"
proof -
  obtain l' where frame: "st1 = st\<lparr>HISTORY := HISTORY st1,
           STATE := Some (s\<lparr>last_processed_batch := l', actual_unbonded_amount := 0\<rparr>)\<rparr>"
    and l': "unat l' = unat (last_processed_batch s) + length (matured_run st s t)"
    and run: "\<And>b. b \<in> set (matured_run st s t) \<Longrightarrow> \<exists>h h'.
           kv_get (HISTORY st) (to_be_bytes b) = Some h \<and> kv_get (HISTORY st1) (to_be_bytes b) = Some h'
         \<and> settles_as (\<Sum>b\<leftarrow>matured_run st s t. unbonded (HISTORY st) b) (received_by s bal) h h'"
    and others: "\<And>k. k \<notin> to_be_bytes ` set (matured_run st s t) \<Longrightarrow>
           kv_get (HISTORY st1) k = kv_get (HISTORY st) k"
    and ok: "history_ok (HISTORY st) \<Longrightarrow> history_ok (HISTORY st1)"
    by (rule process_withdraw_rate_OkE [OF assms(1,2)]) blast
  have same: "WAIT st1 = WAIT st" "VALIDATORS st1 = VALIDATORS st" "PARAMETERS st1 = PARAMETERS st"
    "CURRENT_BATCH st1 = CURRENT_BATCH st"
    "STATE st1 = Some (s\<lparr>last_processed_batch := l', actual_unbonded_amount := 0\<rparr>)"
    by (subst frame, simp)+
  have totals: "total_waiting L st1 b = total_waiting L st b" for b
    by (simp add: total_waiting_def waiting_users_def waiting_def same)
  have released: "\<exists>h h'. kv_get (HISTORY st) (to_be_bytes b) = Some h
      \<and> kv_get (HISTORY st1) (to_be_bytes b) = Some h' \<and> released h' \<and> hist_amount h' = hist_amount h"
    if "b \<in> set (matured_run st s t)" for b
  proof -
    from run [OF that] obtain h h' where h: "kv_get (HISTORY st) (to_be_bytes b) = Some h"
      "kv_get (HISTORY st1) (to_be_bytes b) = Some h'"
      and "released h'" "hist_amount h' = hist_amount h"
      by (auto dest: settles_as_fields)
    with h show ?thesis by blast
  qed
  have "kv_get (HISTORY st1) (to_be_bytes b) = kv_get (HISTORY st) (to_be_bytes b)"
    if "b \<notin> set (matured_run st s t)" for b using that by (intro others) auto
  note books = books_ok_release [OF assms(4) released [unfolded matured_run_def]
      this [unfolded matured_run_def] l' [unfolded matured_run_def] totals]
  have "stores_ok L st1" using assms(3) ok by (simp add: stores_ok_def same waiting_users_def)
  with books show thesis
    by (intro that [of "s\<lparr>last_processed_batch := l', actual_unbonded_amount := 0\<rparr>"]) (simp_all add: same)
qed

lemma withdraw_preserves:
  assumes "hub_inv L st" and "execute_withdraw_unbonded L Q st env info = Ok (st', r)"
  shows "hub_inv L st'"
proof -
  let ?u = "to_vec_str L (sender info)"
  obtain p s cb where par: "PARAMETERS st = Some p" and s: "STATE st = Some s"
    and cb: "CURRENT_BATCH st = Some cb" and stores: "stores_ok L st"
    and books: "books_ok L st (cb_id cb) (requested_with_fee cb) (last_processed_batch s)"
    using assms(1) by (rule hub_invE)
  obtain t bal st1 paid bs s1 where st1: "process_withdraw_rate L st t (coin_amount bal) = Ok st1"
    and s1: "STATE st1 = Some s1" and bs: "get_unbond_batches L st1 (sender info) = Ok bs"
    and st': "st' = st1\<lparr>WAIT := (WAIT st1)(?u := remove_batches L (WAIT st1 ?u) bs),
       STATE := Some (s1\<lparr>prev_hub_balance := coin_amount bal - paid\<rparr>)\<rparr>"
    and "query_balance Q (contract_address env) (underlying_coin_denom p) = Ok bal"
    by (rule execute_withdraw_unbonded_OkE [OF assms(2) par]) blast
  have mid: "actual_unbonded_amount s1 = 0" "stores_ok L st1" "CURRENT_BATCH st1 = Some cb"
    "PARAMETERS st1 = Some p"
    "books_ok L st1 (cb_id cb) (requested_with_fee cb) (last_processed_batch s1)"
    by (rule process_withdraw_rate_preserves [OF st1 s stores books], simp add: s1 par cb)+
  have fin: "finite (waiting_users st1)" and ok: "bucket_ok L (WAIT st1 ?u)"
    using mid(2) by (simp_all add: stores_ok_def)
  have users: "waiting_users st' \<subseteq> waiting_users st1" by (auto simp: waiting_users_def st')
  have waiting: "waiting L st' a b = (if a = ?u \<and> released_batch st1 b then 0 else waiting L st1 a b)" for a b
    unfolding st' by (rule remove_released_waiting [OF bs ok])
  have "books_ok L st' (cb_id cb) (requested_with_fee cb) (last_processed_batch s1)"
    by (rule books_ok_withdraw [OF mid(5) _ total_waiting_remove [OF fin users waiting]]) (simp add: st')
  moreover have "stores_ok L st'"
    using mid(2) users by (auto simp: stores_ok_def st' bucket_ok_remove_batches intro: finite_subset [OF _ fin])
  ultimately show ?thesis using mid by (simp add: hub_inv_def st')
qed

lemma slashing_same_books: "slashing L Q st env = Ok st' \<Longrightarrow> same_books st st'"
  by (erule slashing_frame) (simp add: same_books_def)

lemma bond_same_books:
  assumes "execute_bond L Q st env info v = Ok (st', r)"
  shows "same_books st st' \<and> PARAMETERS st' = PARAMETERS st \<and> VALIDATORS st' = VALIDATORS st"
proof -
  from assms obtain st1 s issued' cb bonded s' where sl: "slashing L Q st env = Ok st1"
    and "STATE st1 = Some s" and "CURRENT_BATCH st = Some cb"
    and upd: "update_exchange_rate L (s\<lparr>total_bond_amount := bonded\<rparr>) issued' (requested_with_fee cb) = Ok s'"
    and st': "st' = st1\<lparr>STATE := Some s'\<rparr>"
    by (rule execute_bond_OkE) blast
  moreover obtain q where "s' = s\<lparr>total_bond_amount := bonded, exchange_rate := q\<rparr>"
    using update_exchange_rate_OkD [OF upd] by auto
  moreover obtain s0 n q0 where "STATE st = Some s0"
    and "st1 = st\<lparr>STATE := Some (s0\<lparr>total_bond_amount := n, exchange_rate := q0\<rparr>)\<rparr>"
    by (rule slashing_frame [OF sl])
  ultimately show ?thesis by (auto simp: same_books_def)
qed

lemma compound_same_books:
  "execute_update_exchange_rate L Q st env info = Ok (st', r) \<Longrightarrow>
     same_books st st' \<and> PARAMETERS st' = PARAMETERS st \<and> VALIDATORS st' = VALIDATORS st"
  by (erule execute_update_exchange_rate_OkE) (simp add: same_books_def)

text \<open>Every message but an unbond and a withdrawal leaves the books alone.\<close>

lemma message_same_books:
  assumes "hub_execute L Q st env info msg = Ok (st', r)"
    and "msg \<noteq> WithdrawUnbonded" and "\<And>m. msg \<noteq> Receive m" and "PARAMETERS st \<noteq> None"
    and "whitelist_ok L (VALIDATORS st)"
  shows "same_books st st' \<and> PARAMETERS st' \<noteq> None \<and> whitelist_ok L (VALIDATORS st')"
proof (cases msg)
  case (Bond v)
  then show ?thesis using assms bond_same_books by (auto simp: hub_execute_def)
next
  case UpdateExchangeRate
  then show ?thesis using assms compound_same_books by (auto simp: hub_execute_def)
next
  case CheckSlashing
  with assms(1) have sl: "slashing L Q st env = Ok st'" by (auto simp: hub_execute_def execute_slashing_def)
  from sl have "PARAMETERS st' = PARAMETERS st" "VALIDATORS st' = VALIDATORS st"
    by (rule slashing_frame; simp)+
  with slashing_same_books [OF sl] assms(4,5) show ?thesis by simp
next
  case UpdateGlobalIndex
  then show ?thesis using assms
    by (auto simp: hub_execute_def execute_update_global_def res_simps same_books_def)
next
  case (RegisterValidator v)
  with assms(1) have "execute_register_validator L Q st env info v = Ok (st', r)"
    by (auto simp: hub_execute_def)
  from execute_register_validator_frame [OF this] assms(4,5) show ?thesis
    by (simp add: whitelist_ok_put)
next
  case (DeregisterValidator v)
  with assms(1) have "execute_deregister_validator L Q st env info v = Ok (st', r)"
    by (auto simp: hub_execute_def)
  from execute_deregister_validator_frame [OF this] assms(4,5) show ?thesis
    by (simp add: whitelist_ok_remove)
next
  case (UpdateParams a b c d e)
  with assms(1) have "execute_update_params L st info a b c d e = Ok (st', r)"
    by (auto simp: hub_execute_def)
  then show ?thesis using assms(5)
    by (auto simp: execute_update_params_def Let_def same_books_def)
next
  case (UpdateConfig t c)
  with assms(1) have "execute_update_config L st info t c = Ok (st', r)" by (auto simp: hub_execute_def)
  then have frame: "st' = st\<lparr>CONFIG := CONFIG st'\<rparr>" by (rule execute_update_config_frame)
  show ?thesis by (subst (1 2 3) frame) (simp add: assms(4,5))
next
  case (UpdateAdmin a)
  then show ?thesis using assms
    by (auto simp: hub_execute_def execute_update_admin_def split: sum.splits admin_error.splits)
qed (use assms in \<open>auto simp: hub_execute_def\<close>)

lemma receive_unbonds:
  "hub_execute L Q st env info (Receive m) = Ok (st', r) \<Longrightarrow>
     execute_unbond L Q st env (cw20_amount m) (cw20_sender m) = Ok (st', r)"
  by (cases "from_binary_hook L (cw20_msg m)")
    (auto simp: hub_execute_def receive_cw20_def split: cw20_hook_msg.splits if_splits)

lemma message_preserves:
  assumes "hub_inv L st" and "hub_execute L Q st env info msg = Ok (st', r)"
  shows "hub_inv L st'"
proof -
  from assms(1) have par: "PARAMETERS st \<noteq> None" and white: "whitelist_ok L (VALIDATORS st)"
    by (auto simp: hub_inv_def stores_ok_def)
  consider (withdraw) "msg = WithdrawUnbonded" | (receive) m where "msg = Receive m"
    | (other) "msg \<noteq> WithdrawUnbonded" "\<And>m. msg \<noteq> Receive m" by blast
  then show ?thesis
  proof cases
    case withdraw
    with assms(2) have "execute_withdraw_unbonded L Q st env info = Ok (st', r)"
      by (auto simp: hub_execute_def)
    with assms(1) show ?thesis by (rule withdraw_preserves)
  next
    case (receive m)
    with assms(2) have "execute_unbond L Q st env (cw20_amount m) (cw20_sender m) = Ok (st', r)"
      by (blast intro: receive_unbonds)
    with assms(1) show ?thesis by (rule unbond_preserves)
  next
    case other
    from message_same_books [OF assms(2) other par white] show ?thesis
      by (intro hub_inv_frame [OF assms(1)]) auto
  qed
qed

lemma instantiate_inv:
  assumes "hub_instantiate L empty_storage env info msg = Ok (st, r)"
  shows "hub_inv L st"
proof -
  from assms have "WAIT st = (\<lambda>_. [])" "HISTORY st = []" "VALIDATORS st = []" "PARAMETERS st \<noteq> None"
    "CURRENT_BATCH st = Some \<lparr>cb_id = 1, requested_with_fee = 0\<rparr>"
    "\<exists>s. STATE st = Some s \<and> actual_unbonded_amount s = 0 \<and> last_processed_batch s = 0
       \<and> prev_hub_balance s = 0"
    by (auto simp: hub_instantiate_def Let_def empty_storage_def)
  moreover have "\<not> (0 < b \<and> b < 1)" for b :: u64 by (auto simp: word_less_nat_alt)
  ultimately show ?thesis
    by (auto simp: hub_inv_def stores_ok_def books_ok_def total_waiting_def waiting_users_def kv_get_def)
qed

lemma migrate_preserves:
  assumes "hub_inv L st" and "hub_migrate L st m = Ok (st', r)"
  shows "hub_inv L st'"
proof -
  from assms(2) obtain c where st': "st' = st\<lparr>CONFIG := c\<rparr>"
    by (auto simp: hub_migrate_def migrate_config_def)
  have "PARAMETERS st \<noteq> None" "whitelist_ok L (VALIDATORS st)"
    using assms(1) by (auto simp: hub_inv_def stores_ok_def)
  then show ?thesis by (intro hub_inv_frame [OF assms(1)]) (simp_all add: st')
qed

lemma reachable_inv: "hub_reachable L G st \<Longrightarrow> hub_inv L st"
proof (induction rule: hub_reachable.induct)
  case (start env info msg st r)
  then show ?case by (rule instantiate_inv)
next
  case (step st st')
  from step.hyps(2) step.IH show ?case
    by (auto elim!: hub_stepE intro: message_preserves migrate_preserves)
qed

end

section \<open>Properties\<close>

text \<open>
  C3: the books balance in every reachable state, whatever the chain answers and whoever sends which
  messages in which order. The history holds exactly the batches before the current one; the released
  ones are exactly those up to the last processed batch; what the users have waiting in the current
  batch adds up to its requested total, in a closed batch to its filed amount, and in a released one
  to at most that; and nothing waits in any other batch.
\<close>

theorem hub_books_balance:
  assumes "cosmwasm L" and "hub_reachable L G st"
  shows "\<exists>s cb. STATE st = Some s \<and> CURRENT_BATCH st = Some cb
    \<and> last_processed_batch s < cb_id cb
    \<and> (\<forall>b. kv_get (HISTORY st) (to_be_bytes b) \<noteq> None \<longleftrightarrow> 0 < b \<and> b < cb_id cb)
    \<and> (\<forall>b h. kv_get (HISTORY st) (to_be_bytes b) = Some h \<longrightarrow> hist_batch_id h = b
         \<and> (released h \<longleftrightarrow> b \<le> last_processed_batch s)
         \<and> total_waiting L st b \<le> unat (hist_amount h)
         \<and> (\<not> released h \<longrightarrow> total_waiting L st b = unat (hist_amount h)))
    \<and> total_waiting L st (cb_id cb) = unat (requested_with_fee cb)
    \<and> (\<forall>b. b = 0 \<or> cb_id cb < b \<longrightarrow> total_waiting L st b = 0)"
proof -
  obtain s cb where s: "STATE st = Some s" "CURRENT_BATCH st = Some cb" and stores: "stores_ok L st"
    and books: "books_ok L st (cb_id cb) (requested_with_fee cb) (last_processed_batch s)"
    using cosmwasm.reachable_inv [OF assms] by (rule hub_invE) blast
  have "hist_batch_id h = b \<and> (released h \<longleftrightarrow> b \<le> last_processed_batch s)
      \<and> total_waiting L st b \<le> unat (hist_amount h)
      \<and> (\<not> released h \<longrightarrow> total_waiting L st b = unat (hist_amount h))"
    if "kv_get (HISTORY st) (to_be_bytes b) = Some h" for b h
    using books_ok_entry [OF books that] history_ok_get [OF _ that] stores
    by (auto simp: stores_ok_def split: if_splits)
  with s books show ?thesis by (auto simp: books_ok_def)
qed

text \<open>
  A concrete run: instantiation, registration of the token contract, an unbond inside the epoch, and
  a second one after it, which closes the batch.
\<close>

definition sample_instantiate :: hub_instantiate_msg where
  "sample_instantiate =
     \<lparr>im_epoch_period = 30, im_underlying_coin_denom = ''uluna'', im_unbonding_period = 50,
      im_peg_recovery_fee = dec_zero, im_er_threshold = dec_one, im_validator = ''val1'',
      im_protocol_fee = dec_zero, im_rewards_contract = ''rewards''\<rparr>"

definition run_start :: hub_storage where
  "run_start =
     \<lparr>PAUSE = Some False, ADMIN = Some (Some ''owner''),
      CONFIG = Some (CurrentConfig \<lparr>token_contract_registered = False, token_contract = None,
        protocol_fee_collector = None, rewards_contract = Some (map char_byte ''rewards'')\<rparr>),
      PARAMETERS = Some \<lparr>epoch_period = 30, underlying_coin_denom = ''uluna'', unbonding_period = 50,
        peg_recovery_fee = dec_zero, er_threshold = dec_one, protocol_fee = dec_zero\<rparr>,
      CURRENT_BATCH = Some \<lparr>cb_id = 1, requested_with_fee = 0\<rparr>,
      STATE = Some sample_state, WAIT = (\<lambda>_. []), HISTORY = [], VALIDATORS = []\<rparr>"

definition run_token :: hub_storage where
  "run_token = run_start\<lparr>CONFIG := Some (CurrentConfig
     \<lparr>token_contract_registered = True, token_contract = Some (map char_byte ''token''),
      protocol_fee_collector = None, rewards_contract = Some (map char_byte ''rewards'')\<rparr>)\<rparr>"

definition run_request :: hub_storage where
  "run_request = run_token\<lparr>CURRENT_BATCH := Some \<lparr>cb_id = 1, requested_with_fee = 300\<rparr>,
     WAIT := (\<lambda>_. [])(to_vec_str ref_lib ''alice'' := [(to_vec_u64 ref_lib 1, 300)])\<rparr>"

definition run_closed :: hub_storage where
  "run_closed = run_request
     \<lparr>CURRENT_BATCH := Some \<lparr>cb_id = 2, requested_with_fee = 0\<rparr>,
      WAIT := (\<lambda>_. [])(to_vec_str ref_lib ''alice'' := [(to_vec_u64 ref_lib 1, 300)],
        to_vec_str ref_lib ''bob'' := [(to_vec_u64 ref_lib 1, 300)]),
      HISTORY := [(to_be_bytes 1, \<lparr>hist_batch_id = 1, hist_time = 200, hist_amount = 600,
        applied_exchange_rate = dec_one, withdraw_rate = dec_one, released = False\<rparr>)],
      STATE := Some (sample_state\<lparr>total_bond_amount := 400, last_unbonded_time := 200\<rparr>)\<rparr>"

lemmas run_defs = run_closed_def run_request_def run_token_def run_start_def sample_state_def

lemma run_start_reached: "hub_reachable ref_lib G run_start"
proof -
  obtain r where "hub_instantiate ref_lib empty_storage (sample_env 100)
      \<lparr>sender = ''owner'', funds = [\<lparr>denom = ''uluna'', coin_amount = 1000\<rparr>]\<rparr> sample_instantiate
      = Ok (run_start, r)"
    by (simp add: eval_defs sample_instantiate_def run_defs)
  then show ?thesis by (rule hub_reachable.start)
qed

lemma run_token_step: "\<exists>r. hub_execute ref_lib (sample_querier 1000 1000 0) run_start (sample_env 100)
    \<lparr>sender = ''owner'', funds = []\<rparr> (UpdateConfig (Some ''token'') None) = Ok (run_token, r)"
  by (simp add: eval_defs run_defs)

lemma run_request_step: "\<exists>r. hub_execute ref_lib (sample_querier 1000 1000 0) run_token (sample_env 110)
    \<lparr>sender = ''token'', funds = []\<rparr>
    (Receive \<lparr>cw20_sender = ''alice'', cw20_amount = 300, cw20_msg = [0]\<rparr>) = Ok (run_request, r)"
  by (simp add: eval_defs Let_def run_defs)

lemma run_closed_step: "\<exists>r. hub_execute ref_lib (sample_querier 1000 700 0) run_request (sample_env 200)
    \<lparr>sender = ''token'', funds = []\<rparr>
    (Receive \<lparr>cw20_sender = ''bob'', cw20_amount = 300, cw20_msg = [0]\<rparr>) = Ok (run_closed, r)"
  by (simp add: eval_defs Let_def run_defs)

text \<open>The run does not withdraw, so it satisfies every guard that restricts withdrawals only.\<close>

lemma run_closed_reached:
  assumes "\<And>st Q env msg. msg \<noteq> WithdrawUnbonded \<Longrightarrow> G st Q env msg"
  shows "hub_reachable ref_lib G run_request" and "hub_reachable ref_lib G run_closed"
proof -
  have "hub_step ref_lib G run_start run_token"
    using run_token_step by (auto intro: hub_step.message assms)
  moreover have "hub_step ref_lib G run_token run_request"
    using run_request_step by (auto intro: hub_step.message assms)
  moreover have "hub_step ref_lib G run_request run_closed"
    using run_closed_step by (auto intro: hub_step.message assms)
  ultimately show "hub_reachable ref_lib G run_request" "hub_reachable ref_lib G run_closed"
    using run_start_reached by (blast intro: hub_reachable.step)+
qed

theorem hub_books_balance_witness:
  "total_waiting ref_lib run_closed 1 = 600 \<and> total_waiting ref_lib run_closed 2 = 0"
proof -
  have "hub_reachable ref_lib (\<lambda>_ _ _ _. True) run_closed" by (rule run_closed_reached) simp
  from hub_books_balance [OF cosmwasm_ref_lib this] obtain s cb where cb: "CURRENT_BATCH run_closed = Some cb"
    and "STATE run_closed = Some s"
    and filed: "\<forall>b h. kv_get (HISTORY run_closed) (to_be_bytes b) = Some h \<longrightarrow> hist_batch_id h = b
         \<and> (released h \<longleftrightarrow> b \<le> last_processed_batch s)
         \<and> total_waiting ref_lib run_closed b \<le> unat (hist_amount h)
         \<and> (\<not> released h \<longrightarrow> total_waiting ref_lib run_closed b = unat (hist_amount h))"
    and cur: "total_waiting ref_lib run_closed (cb_id cb) = unat (requested_with_fee cb)" by blast
  have "CURRENT_BATCH run_closed = Some \<lparr>cb_id = 2, requested_with_fee = 0\<rparr>"
    by (simp add: run_closed_def)
  with cb have "cb = \<lparr>cb_id = 2, requested_with_fee = 0\<rparr>" by simp
  with cur have "total_waiting ref_lib run_closed 2 = 0" by simp
  moreover obtain h where "kv_get (HISTORY run_closed) (to_be_bytes 1) = Some h" "\<not> released h"
    "hist_amount h = 600" by (simp add: run_closed_def kv_get_def)
  then have "total_waiting ref_lib run_closed 1 = unat (600 :: u128)" using filed by metis
  ultimately show ?thesis by simp
qed

end
