(* ===== verification/HubAdmission.thy ===== *)
theory HubAdmission
  imports HubInvariant
begin

text \<open>
  Which requests the hub admits: the exact conditions under which an unbond, a bond and the compounding of
  rewards go through, once the slashing check and the chain's answers are at hand. Every other condition of
  the handlers is a consequence of the invariant.
\<close>

section \<open>Specification\<close>

text \<open>When the peg recovery fee on an amount can be computed.\<close>

definition fee_computes :: "bool \<Rightarrow> nat \<Rightarrow> nat \<Rightarrow> nat \<Rightarrow> nat \<Rightarrow> bool" where
  "fee_computes below fee claims bonded amount =
     (below \<longrightarrow> amount * fee div E18 < 2 ^ 128 \<and> claims < 2 ^ 128 \<and> bonded \<le> claims
        \<and> peg_fee below fee claims bonded amount \<le> amount)"

text \<open>The fee of an unbond against the supply, the requests and the bond after the slashing check.\<close>

abbreviation unbond_fee :: "parameters \<Rightarrow> current_batch \<Rightarrow> hub_state \<Rightarrow> u128 \<Rightarrow> u128 \<Rightarrow> nat" where
  "unbond_fee p cb s issued amount \<equiv> peg_fee (exchange_rate s < er_threshold p) (units (peg_recovery_fee p))
     (unat issued + unat (requested_with_fee cb)) (unat (total_bond_amount s)) (unat amount)"

abbreviation unbond_fee_computes :: "parameters \<Rightarrow> current_batch \<Rightarrow> hub_state \<Rightarrow> u128 \<Rightarrow> u128 \<Rightarrow> bool" where
  "unbond_fee_computes p cb s issued amount \<equiv>
     fee_computes (exchange_rate s < er_threshold p) (units (peg_recovery_fee p))
       (unat issued + unat (requested_with_fee cb)) (unat (total_bond_amount s)) (unat amount)"

text \<open>When the batch can be closed: what it is worth is bonded and staked, and is not one coin.\<close>

definition admits_close :: "nat \<Rightarrow> nat \<Rightarrow> nat \<Rightarrow> u64 \<Rightarrow> bool" where
  "admits_close bonded stake und batch_id =
     (und \<noteq> 1 \<and> und \<le> bonded \<and> und \<le> stake \<and> unat batch_id + 1 < 2 ^ 64)"

text \<open>
  When an unbond is admitted: the tokens exist, the fee can be computed, the new supply and rate fit,
  and once the epoch is over the batch can be closed at the new rate.
\<close>

definition unbond_admitted ::
  "parameters \<Rightarrow> current_batch \<Rightarrow> hub_state \<Rightarrow> u128 \<Rightarrow> nat \<Rightarrow> env \<Rightarrow> u128 \<Rightarrow> bool" where
  "unbond_admitted p cb s issued stake env amount =
     (let requested = unat (requested_with_fee cb); bonded = unat (total_bond_amount s);
          fee = unbond_fee p cb s issued amount;
          rate = rate_units bonded (unat issued + requested - fee)
      in last_unbonded_time s \<le> block_seconds env \<and> amount \<le> issued
       \<and> unbond_fee_computes p cb s issued amount
       \<and> unat issued + requested - fee < 2 ^ 128 \<and> rate < 2 ^ 128
       \<and> (epoch_period p < block_seconds env - last_unbonded_time s \<longrightarrow>
            admits_close bonded stake ((requested + (unat amount - fee)) * rate div E18) (cb_id cb)))"

text \<open>
  When a bond is admitted: the payment can be divided by the rate, the fee can be computed, and the new
  bond, supply and rate fit.
\<close>

abbreviation bond_mint :: "hub_state \<Rightarrow> u128 \<Rightarrow> nat" where
  "bond_mint s payment \<equiv> quotient_9 (unat payment) (units (exchange_rate s))"

abbreviation bond_claims :: "current_batch \<Rightarrow> hub_state \<Rightarrow> u128 \<Rightarrow> u128 \<Rightarrow> nat" where
  "bond_claims cb s issued payment \<equiv> unat issued + bond_mint s payment + unat (requested_with_fee cb)"

abbreviation bond_fee :: "parameters \<Rightarrow> current_batch \<Rightarrow> hub_state \<Rightarrow> u128 \<Rightarrow> u128 \<Rightarrow> nat" where
  "bond_fee p cb s issued payment \<equiv> peg_fee (exchange_rate s < er_threshold p) (units (peg_recovery_fee p))
     (bond_claims cb s issued payment) (unat (total_bond_amount s) + unat payment) (bond_mint s payment)"

abbreviation bond_fee_computes :: "parameters \<Rightarrow> current_batch \<Rightarrow> hub_state \<Rightarrow> u128 \<Rightarrow> u128 \<Rightarrow> bool" where
  "bond_fee_computes p cb s issued payment \<equiv>
     fee_computes (exchange_rate s < er_threshold p) (units (peg_recovery_fee p))
       (bond_claims cb s issued payment) (unat (total_bond_amount s) + unat payment) (bond_mint s payment)"

definition bond_admitted :: "parameters \<Rightarrow> current_batch \<Rightarrow> hub_state \<Rightarrow> u128 \<Rightarrow> u128 \<Rightarrow> bool" where
  "bond_admitted p cb s issued payment =
     (let bonded = unat (total_bond_amount s) + unat payment;
          supply = bond_claims cb s issued payment - bond_fee p cb s issued payment
      in 1000000000 \<le> units (exchange_rate s)
       \<and> unat payment * E18 div (units (exchange_rate s) div 1000000000) < 2 ^ 128
       \<and> bond_fee_computes p cb s issued payment
       \<and> bonded < 2 ^ 128 \<and> supply < 2 ^ 128 \<and> rate_units bonded supply < 2 ^ 128)"

text \<open>
  When rewards are compounded: the protocol fee is at most the payment, there are tokens or requests to
  share them, and the new rate and bond fit.
\<close>

abbreviation fee_on :: "parameters \<Rightarrow> u128 \<Rightarrow> nat" where
  "fee_on p payment \<equiv> unat payment * units (protocol_fee p) div E18"

definition compound_admitted :: "parameters \<Rightarrow> current_batch \<Rightarrow> hub_state \<Rightarrow> u128 \<Rightarrow> u128 \<Rightarrow> bool" where
  "compound_admitted p cb s issued payment =
     (let rewards = unat payment - fee_on p payment; claims = unat issued + unat (requested_with_fee cb)
      in fee_on p payment \<le> unat payment \<and> 0 < claims \<and> claims < 2 ^ 128
       \<and> units (exchange_rate s) + rewards * E18 div claims < 2 ^ 128
       \<and> unat (total_bond_amount s) + rewards < 2 ^ 128)"

section \<open>The parts of the handlers\<close>

lemma u128_of_nat: "n < 2 ^ 128 \<Longrightarrow> \<exists>w :: u128. unat w = n"
  by (intro exI [of _ "of_nat n"]) (simp add: unat_of_nat)

lemma staked_le_delegated: "staked d ds \<le> delegated ds"
  by (induction ds) (auto simp: staked_def delegated_def)

lemma rate_value_le_bond:
  assumes "0 < b" and "r \<le> c"
  shows "r * rate_units b c div E18 \<le> b"
proof (cases "c = 0")
  case False
  have "r * (b * E18 div c) \<le> c * (b * E18 div c)" using assms(2) by (rule mult_le_mono1)
  also have "\<dots> \<le> b * E18" by (rule times_div_less_eq_dividend)
  finally have "r * (b * E18 div c) div E18 \<le> b * E18 div E18" by (rule div_le_mono)
  with False assms(1) show ?thesis by (simp add: rate_units_def)
qed (use assms in simp)

context cosmwasm
begin

lemma update_exchange_rate_ok_iff:
  "is_ok (update_exchange_rate L s ti rq) \<longleftrightarrow>
     unat ti + unat rq < 2 ^ 128 \<and> rate_units (unat (total_bond_amount s)) (unat ti + unat rq) < 2 ^ 128"
proof
  assume "is_ok (update_exchange_rate L s ti rq)"
  then obtain s' where ok: "update_exchange_rate L s ti rq = Ok s'" by (auto simp: is_ok_iff)
  then obtain sup where "uint_add L ti rq = Ok sup" by (auto simp: update_exchange_rate_def)
  then have "unat ti + unat rq = unat sup" by (simp add: uint_add_iff)
  moreover obtain r where "rate_units (unat (total_bond_amount s)) (unat ti + unat rq) = units r"
    using update_exchange_rate_OkD [OF ok] by metis
  ultimately show "unat ti + unat rq < 2 ^ 128
      \<and> rate_units (unat (total_bond_amount s)) (unat ti + unat rq) < 2 ^ 128" by simp
next
  assume fits: "unat ti + unat rq < 2 ^ 128
      \<and> rate_units (unat (total_bond_amount s)) (unat ti + unat rq) < 2 ^ 128"
  then have "unat (total_bond_amount s) * E18 div (unat ti + unat rq) < 2 ^ 128"
    by (auto simp: rate_units_def split: if_splits)
  with fits show "is_ok (update_exchange_rate L s ti rq)"
    using update_exchange_rate_fits by (simp add: is_ok_iff)
qed

text \<open>The common core of the two fee computations: the lesser of two words is taken from a third.\<close>

lemma peg_fee_words:
  "(\<exists>x y z. unat (x :: u128) = most \<and> unat (y :: u128) = claims \<and> unat y = bonded + unat (z :: u128)
      \<and> unat amount = unat (min x z) + unat m)
   \<longleftrightarrow> most < 2 ^ 128 \<and> claims < 2 ^ 128 \<and> bonded \<le> claims \<and> unat amount = min most (claims - bonded) + unat m"
    (is "?L \<longleftrightarrow> ?R") for amount m :: u128
proof
  assume ?L
  then obtain x y z :: u128 where x: "most = unat x" and y: "claims = unat y"
    and z: "unat y = bonded + unat z" and a: "unat amount = unat (min x z) + unat m" by metis
  have "unat x < 2 ^ 128" "unat y < 2 ^ 128" by simp_all
  moreover have "bonded \<le> unat y" "unat amount = min (unat x) (unat y - bonded) + unat m"
    using z a by (simp_all add: unat_min)
  ultimately show ?R unfolding x y by blast
next
  assume R: ?R
  from R have "claims - bonded < 2 ^ 128" by (simp add: less_imp_diff_less)
  with R obtain x y z :: u128 where "unat x = most" "unat y = claims" "unat z = claims - bonded"
    using u128_of_nat by metis
  with R show ?L by (intro exI [of _ x] exI [of _ y] exI [of _ z]) (simp add: unat_min)
qed

lemma unbond_less_peg_fee_iff:
  "unbond_less_peg_fee L rate threshold fee issued requested bonded amount = Ok m \<longleftrightarrow>
     fee_computes (rate < threshold) (units fee) (unat issued + unat requested) (unat bonded) (unat amount)
     \<and> unat m = unat amount
         - peg_fee (rate < threshold) (units fee) (unat issued + unat requested) (unat bonded) (unat amount)"
proof (cases "rate < threshold")
  case True
  have "unbond_less_peg_fee L rate threshold fee issued requested bonded amount = Ok m \<longleftrightarrow>
      (\<exists>x y z. unat (x :: u128) = unat amount * units fee div E18
         \<and> unat (y :: u128) = unat issued + unat requested \<and> unat y = unat bonded + unat (z :: u128)
         \<and> unat amount = unat (min x z) + unat m)"
    using True by (simp only: unbond_less_peg_fee_def if_True Let_def and_then_eq_Ok arith_iffs) blast
  then show ?thesis unfolding peg_fee_words using True by (auto simp: fee_computes_def peg_fee_def)
next
  case False
  then show ?thesis by (auto simp: unbond_less_peg_fee_def fee_computes_def peg_fee_def word_unat_eq_iff)
qed

lemma mint_less_peg_fee_iff:
  "mint_less_peg_fee L rate threshold fee issued requested bonded paid minted = Ok m \<longleftrightarrow>
     fee_computes (rate < threshold) (units fee) (unat issued + unat minted + unat requested)
       (unat bonded + unat paid) (unat minted)
     \<and> unat m = unat minted - peg_fee (rate < threshold) (units fee)
         (unat issued + unat minted + unat requested) (unat bonded + unat paid) (unat minted)"
proof (cases "rate < threshold")
  case True
  let ?claims = "unat issued + unat minted + unat requested" and ?bonded = "unat bonded + unat paid"
  have "mint_less_peg_fee L rate threshold fee issued requested bonded paid minted = Ok m \<longleftrightarrow>
      (\<exists>x s y b z. unat (x :: u128) = unat minted * units fee div E18
         \<and> unat (s :: u128) = unat issued + unat minted \<and> unat (y :: u128) = unat s + unat requested
         \<and> unat (b :: u128) = ?bonded \<and> unat y = unat b + unat (z :: u128)
         \<and> unat minted = unat (min x z) + unat m)"
    using True by (simp only: mint_less_peg_fee_def if_True Let_def and_then_eq_Ok arith_iffs) blast
  also have "\<dots> \<longleftrightarrow> (\<exists>x y z. unat (x :: u128) = unat minted * units fee div E18 \<and> unat (y :: u128) = ?claims
         \<and> unat y = ?bonded + unat (z :: u128) \<and> unat minted = unat (min x z) + unat m)"
  proof
    assume "\<exists>x y z. unat (x :: u128) = unat minted * units fee div E18 \<and> unat (y :: u128) = ?claims
         \<and> unat y = ?bonded + unat (z :: u128) \<and> unat minted = unat (min x z) + unat m"
    then obtain x y z :: u128 where xyz: "unat x = unat minted * units fee div E18" "unat y = ?claims"
      "unat y = ?bonded + unat z" "unat minted = unat (min x z) + unat m" by blast
    have "unat y < 2 ^ 128" by simp
    with xyz(2,3) have "unat (issued + minted) = unat issued + unat minted" "unat (bonded + paid) = ?bonded"
      by (simp_all add: unat_add_no_overflow)
    with xyz show "\<exists>x s y b z. unat (x :: u128) = unat minted * units fee div E18
         \<and> unat (s :: u128) = unat issued + unat minted \<and> unat (y :: u128) = unat s + unat requested
         \<and> unat (b :: u128) = ?bonded \<and> unat y = unat b + unat (z :: u128)
         \<and> unat minted = unat (min x z) + unat m" by metis
  next
    assume "\<exists>x s y b z. unat (x :: u128) = unat minted * units fee div E18
         \<and> unat (s :: u128) = unat issued + unat minted \<and> unat (y :: u128) = unat s + unat requested
         \<and> unat (b :: u128) = ?bonded \<and> unat y = unat b + unat (z :: u128)
         \<and> unat minted = unat (min x z) + unat m"
    then show "\<exists>x y z. unat (x :: u128) = unat minted * units fee div E18 \<and> unat (y :: u128) = ?claims
         \<and> unat y = ?bonded + unat (z :: u128) \<and> unat minted = unat (min x z) + unat m" by metis
  qed
  finally show ?thesis unfolding peg_fee_words using True by (auto simp: fee_computes_def peg_fee_def)
next
  case False
  then show ?thesis by (auto simp: mint_less_peg_fee_def fee_computes_def peg_fee_def word_unat_eq_iff)
qed

lemma close_batch_ok_iff:
  assumes "PARAMETERS st = Some p" and "query_all_delegations Q (contract_address env) = Ok ds"
    and "unat (block_height env) + length ds < 2 ^ 64"
  shows "is_ok (close_batch L Q st env s cb) \<longleftrightarrow>
     admits_close (unat (total_bond_amount s)) (delegated ds)
       (unat (requested_with_fee cb) * units (exchange_rate s) div E18) (cb_id cb)" (is "_ \<longleftrightarrow> ?R")
proof
  assume "is_ok (close_batch L Q st env s cb)"
  then obtain st' s' cb' msgs where "close_batch L Q st env s cb = Ok (st', s', cb', msgs)"
    by (auto simp: is_ok_iff)
  then obtain und bonded where "uint_mul_dec L (requested_with_fee cb) (exchange_rate s) = Ok und" "und \<noteq> 1"
    and pick: "pick_validator L Q st und (contract_address env) (block_height env) = Ok msgs"
    and "uint_checked_sub L (total_bond_amount s) und = Ok bonded" "u64_add (cb_id cb) 1 = Ok (cb_id cb')"
    by (rule close_batch_OkE) blast
  moreover from pick have "unat und \<le> delegated ds"
    using pick_validator_eq [OF assms, of und] by (auto split: if_splits)
  ultimately show ?R
    by (auto simp: admits_close_def arith_iffs u64_add_def word_unat_eq_iff split: if_splits)
next
  assume R: ?R
  then have "unat (requested_with_fee cb) * units (exchange_rate s) div E18 < 2 ^ 128"
    unfolding admits_close_def by (elim conjE) (rule le_less_trans, assumption, simp)
  then obtain und where und: "uint_mul_dec L (requested_with_fee cb) (exchange_rate s) = Ok und"
    "unat und = unat (requested_with_fee cb) * units (exchange_rate s) div E18"
    using mul_dec_fits by blast
  with R have bounds: "und \<noteq> 1" "und \<le> total_bond_amount s" "unat und \<le> delegated ds" "unat (cb_id cb) + 1 < 2 ^ 64"
    by (auto simp: admits_close_def word_le_nat_alt)
  from bounds(3) obtain picks where
    "pick_validator L Q st und (contract_address env) (block_height env) = Ok (undelegations (underlying_coin_denom p) picks)"
    using pick_validator_eq [OF assms, of und] by auto
  with und bounds show "is_ok (close_batch L Q st env s cb)"
    by (simp add: close_batch_def checked_sub_le Let_def store_unbond_history_def u64_add_def)
qed

lemma peg_fee_le: "fee_computes below fee claims bonded amount \<Longrightarrow> peg_fee below fee claims bonded amount \<le> amount"
  by (auto simp: fee_computes_def peg_fee_def)

lemma store_unbond_wait_list_fits:
  assumes "waiting L st (to_vec_str L user) b + unat m < 2 ^ 128"
  shows "\<exists>st'. store_unbond_wait_list L st b user m = Ok st'"
  using assms by (auto simp: store_unbond_wait_list_def Let_def waiting_def uint_add_fits split: option.splits)

lemma query_total_issued_OkE:
  assumes "query_total_issued L Q st = Ok issued"
  obtains cfg token addr where "CONFIG st = Some (CurrentConfig cfg)" and "token_contract cfg = Some token"
    and "addr_humanize L token = Ok addr"
  using assms by (auto simp: query_total_issued_def res_simps)

lemma unbond_admitted_if_ok:
  assumes "execute_unbond L Q st env amount user = Ok (st', r)"
    and par: "PARAMETERS st = Some p" and cb: "CURRENT_BATCH st = Some cb"
    and sl: "slashing L Q st env = Ok st1" and s: "STATE st1 = Some s"
    and ti: "query_total_issued L Q st1 = Ok issued"
    and ds: "query_all_delegations Q (contract_address env) = Ok ds"
      "unat (block_height env) + length ds < 2 ^ 64"
  shows "unbond_admitted p cb s issued (delegated ds) env amount"
proof -
  from assms(1) obtain m req st2 issued' s1 passed st3 s2 cb2 und where
    m: "unbond_less_peg_fee L (exchange_rate s) (er_threshold p) (peg_recovery_fee p) issued
           (requested_with_fee cb) (total_bond_amount s) amount = Ok m"
    and req: "uint_add L (requested_with_fee cb) m = Ok req"
    and store: "store_unbond_wait_list L st1 (cb_id cb) user m = Ok st2"
    and issued': "uint_checked_sub L issued amount = Ok issued'"
    and s1: "update_exchange_rate L s issued' req = Ok s1"
    and passed: "u64_sub (block_seconds env) (last_unbonded_time s1) = Ok passed"
    and close: "(if epoch_period p < passed
          then close_batch L Q st2 env s1 (cb\<lparr>requested_with_fee := req\<rparr>)
          else Ok (st2, s1, cb\<lparr>requested_with_fee := req\<rparr>, [])) = Ok (st3, s2, cb2, und)"
    by (rule execute_unbond_OkE) (use par cb sl s ti in auto)
  let ?fee = "unbond_fee p cb s issued amount" and ?requested = "unat (requested_with_fee cb)"
  let ?rate = "rate_units (unat (total_bond_amount s)) (unat issued + ?requested - ?fee)"
  have fees: "unbond_fee_computes p cb s issued amount" "unat m = unat amount - ?fee"
    using m unfolding unbond_less_peg_fee_iff by simp_all
  with peg_fee_le [OF fees(1)] req issued' have req': "unat req = ?requested + (unat amount - ?fee)"
    and le: "amount \<le> issued" and sum: "unat issued' + unat req = unat issued + ?requested - ?fee"
    by (simp_all add: arith_iffs word_le_nat_alt)
  have fits: "unat issued + ?requested - ?fee < 2 ^ 128 \<and> ?rate < 2 ^ 128"
    using s1 update_exchange_rate_ok_iff [of s issued' req] unfolding sum by (simp add: is_ok_iff)
  obtain q where q: "s1 = s\<lparr>exchange_rate := q\<rparr>" "units q = ?rate"
    using update_exchange_rate_OkD [OF s1] unfolding sum by blast
  have time: "last_unbonded_time s \<le> block_seconds env" "passed = block_seconds env - last_unbonded_time s"
    using passed by (auto simp: q u64_sub_def split: if_splits)
  have "PARAMETERS st1 = Some p" using sl par by (auto elim!: slashing_frame)
  then have par2: "PARAMETERS st2 = Some p" using store_unbond_wait_list_OkD(1) [OF store] by auto
  have "admits_close (unat (total_bond_amount s)) (delegated ds)
      ((?requested + (unat amount - ?fee)) * ?rate div E18) (cb_id cb)" if "epoch_period p < passed"
    using close that close_batch_ok_iff [OF par2 ds, of s1 "cb\<lparr>requested_with_fee := req\<rparr>"]
    by (simp add: is_ok_iff q req')
  with time le fees(1) fits show ?thesis by (simp add: unbond_admitted_def Let_def)
qed

lemma unbond_admitted_words:
  assumes "unbond_fee_computes p cb s issued amount" and "amount \<le> issued"
    and "unat issued + unat (requested_with_fee cb) - unbond_fee p cb s issued amount < 2 ^ 128"
  obtains m req where
    "unbond_less_peg_fee L (exchange_rate s) (er_threshold p) (peg_recovery_fee p) issued
       (requested_with_fee cb) (total_bond_amount s) amount = Ok m"
    and "uint_add L (requested_with_fee cb) m = Ok req"
    and "unat req = unat (requested_with_fee cb) + (unat amount - unbond_fee p cb s issued amount)"
    and "unat (issued - amount) + unat req
       = unat issued + unat (requested_with_fee cb) - unbond_fee p cb s issued amount"
    and "unat (requested_with_fee cb) + unat m < 2 ^ 128"
proof -
  let ?fee = "unbond_fee p cb s issued amount"
  note fee = peg_fee_le [OF assms(1)]
  have "unat amount - ?fee < 2 ^ 128" by (rule less_imp_diff_less) simp
  then obtain m :: u128 where m': "unat m = unat amount - ?fee" using u128_of_nat by blast
  then have m: "unbond_less_peg_fee L (exchange_rate s) (er_threshold p) (peg_recovery_fee p) issued
           (requested_with_fee cb) (total_bond_amount s) amount = Ok m"
    unfolding unbond_less_peg_fee_iff using assms(1) by simp
  have small: "unat (requested_with_fee cb) + unat m < 2 ^ 128"
    using assms(2,3) m' fee by (simp add: word_le_nat_alt)
  then have req: "uint_add L (requested_with_fee cb) m = Ok (requested_with_fee cb + m)" by (rule uint_add_fits)
  then have req': "unat (requested_with_fee cb + m) = unat (requested_with_fee cb) + (unat amount - ?fee)"
    by (simp add: uint_add_iff m')
  have "unat (issued - amount) + unat (requested_with_fee cb + m)
      = unat issued + unat (requested_with_fee cb) - ?fee"
    using assms(2) fee by (simp add: req' unat_sub_le word_le_nat_alt)
  then show thesis using m req req' small by (intro that)
qed

lemma close_step_total:
  assumes "epoch_over \<Longrightarrow> is_ok (close_batch L Q st env s cb)"
  obtains st' s' cb' und where "CONFIG st' = CONFIG st"
    and "(if epoch_over then close_batch L Q st env s cb else Ok (st, s, cb, [])) = Ok (st', s', cb', und)"
proof (cases epoch_over)
  case True
  with assms obtain st' s' cb' und where ok: "close_batch L Q st env s cb = Ok (st', s', cb', und)"
    by (auto simp: is_ok_iff)
  then have "CONFIG st' = CONFIG st" by (rule close_batch_OkE) simp
  with ok True show thesis by (intro that [of st' s' cb' und]) simp_all
qed (auto intro: that)

lemma unbond_ok_if_admitted:
  assumes "hub_inv L st" and par: "PARAMETERS st = Some p" and cb: "CURRENT_BATCH st = Some cb"
    and sl: "slashing L Q st env = Ok st1" and s: "STATE st1 = Some s"
    and ti: "query_total_issued L Q st1 = Ok issued"
    and ds: "query_all_delegations Q (contract_address env) = Ok ds"
      "unat (block_height env) + length ds < 2 ^ 64"
    and adm: "unbond_admitted p cb s issued (delegated ds) env amount"
  shows "is_ok (execute_unbond L Q st env amount user)"
proof -
  let ?fee = "unbond_fee p cb s issued amount" and ?requested = "unat (requested_with_fee cb)"
  let ?rate = "rate_units (unat (total_bond_amount s)) (unat issued + ?requested - ?fee)"
  let ?over = "epoch_period p < block_seconds env - last_unbonded_time s"
  from adm have computes: "unbond_fee_computes p cb s issued amount" and le: "amount \<le> issued"
    and fits: "unat issued + ?requested - ?fee < 2 ^ 128" "?rate < 2 ^ 128"
    and time: "last_unbonded_time s \<le> block_seconds env"
    and close: "?over \<Longrightarrow> admits_close (unat (total_bond_amount s)) (delegated ds)
        ((?requested + (unat amount - ?fee)) * ?rate div E18) (cb_id cb)"
    by (simp_all add: unbond_admitted_def Let_def)
  obtain m req where m: "unbond_less_peg_fee L (exchange_rate s) (er_threshold p) (peg_recovery_fee p) issued
       (requested_with_fee cb) (total_bond_amount s) amount = Ok m"
    and req: "uint_add L (requested_with_fee cb) m = Ok req" "unat req = ?requested + (unat amount - ?fee)"
    and sum: "unat (issued - amount) + unat req = unat issued + ?requested - ?fee"
    and small: "?requested + unat m < 2 ^ 128"
    by (rule unbond_admitted_words [OF computes le fits(1)])
  have st1: "WAIT st1 = WAIT st" "PARAMETERS st1 = Some p" using sl par by (auto elim!: slashing_frame)
  from assms(1) cb have "finite (waiting_users st)" "total_waiting L st (cb_id cb) = ?requested"
    by (auto simp: stores_ok_def books_ok_def elim!: hub_invE)
  with waiting_le_total [of st L "to_vec_str L user" "cb_id cb"] st1(1)
  have "waiting L st1 (to_vec_str L user) (cb_id cb) \<le> ?requested" by (simp add: waiting_def)
  then obtain st2 where store: "store_unbond_wait_list L st1 (cb_id cb) user m = Ok st2"
    using small store_unbond_wait_list_fits [of st1 user "cb_id cb" m] by fastforce
  then have st2: "PARAMETERS st2 = Some p" "CONFIG st2 = CONFIG st1"
    using store_unbond_wait_list_OkD(1) [OF store] st1(2) by auto
  obtain s1 where s1: "update_exchange_rate L s (issued - amount) req = Ok s1"
    using update_exchange_rate_ok_iff [of s "issued - amount" req] fits unfolding sum by (auto simp: is_ok_iff)
  then obtain q where q: "s1 = s\<lparr>exchange_rate := q\<rparr>" "units q = ?rate"
    using update_exchange_rate_OkD [OF s1] unfolding sum by blast
  have "is_ok (close_batch L Q st2 env s1 (cb\<lparr>requested_with_fee := req\<rparr>))" if ?over
    using close_batch_ok_iff [OF st2(1) ds, of s1 "cb\<lparr>requested_with_fee := req\<rparr>"] close [OF that]
    by (simp add: q req)
  then obtain st3 s2 cb2 und where "CONFIG st3 = CONFIG st2"
    and "(if ?over then close_batch L Q st2 env s1 (cb\<lparr>requested_with_fee := req\<rparr>)
      else Ok (st2, s1, cb\<lparr>requested_with_fee := req\<rparr>, [])) = Ok (st3, s2, cb2, und)"
    by (rule close_step_total)
  moreover obtain cfg token addr where "CONFIG st1 = Some (CurrentConfig cfg)"
    "token_contract cfg = Some token" "addr_humanize L token = Ok addr"
    using ti by (rule query_total_issued_OkE)
  moreover have "last_unbonded_time s1 = last_unbonded_time s" by (simp add: q)
  ultimately show ?thesis
    using par cb sl s ti m req store checked_sub_le [OF le] s1 time st2(2)
    by (simp add: execute_unbond_def u64_sub_def load_def load_config_def Let_def)
qed

text \<open>The same for a bond.\<close>

lemma bond_admitted_if_ok:
  assumes "execute_bond L Q st env info v = Ok (st', r)" and par: "PARAMETERS st = Some p"
    and cb: "CURRENT_BATCH st = Some cb" and sl: "slashing L Q st env = Ok st1" and s: "STATE st1 = Some s"
    and ti: "query_total_issued L Q st1 = Ok issued"
  shows "is_valid_validator L st v = Ok True \<and> length (funds info) \<le> 1
    \<and> (\<exists>pay. find_payment (underlying_coin_denom p) (funds info) = Some pay
         \<and> bond_admitted p cb s issued (coin_amount pay))"
proof -
  from assms(1) obtain pay minted m issued' bonded s' where valid: "is_valid_validator L st v = Ok True"
    "length (funds info) \<le> 1" and pay: "find_payment (underlying_coin_denom p) (funds info) = Some pay"
    and minted: "decimal_division L (coin_amount pay) (exchange_rate s) = Ok minted"
    and m: "mint_less_peg_fee L (exchange_rate s) (er_threshold p) (peg_recovery_fee p) issued
           (requested_with_fee cb) (total_bond_amount s) (coin_amount pay) minted = Ok m"
    and issued': "uint_add L issued m = Ok issued'"
    and bonded: "uint_add L (total_bond_amount s) (coin_amount pay) = Ok bonded"
    and s': "update_exchange_rate L (s\<lparr>total_bond_amount := bonded\<rparr>) issued' (requested_with_fee cb) = Ok s'"
    by (rule execute_bond_OkE) (use par cb sl s ti in auto)
  let ?c = "coin_amount pay"
  from minted have minted': "unat minted = bond_mint s ?c" "1000000000 \<le> units (exchange_rate s)"
    "unat ?c * E18 div (units (exchange_rate s) div 1000000000) < 2 ^ 128"
    unfolding decimal_division_iff by (simp_all add: div_greater_zero_iff)
  have fees: "bond_fee_computes p cb s issued ?c" "unat m = bond_mint s ?c - bond_fee p cb s issued ?c"
    using m unfolding mint_less_peg_fee_iff minted'(1) by simp_all
  with peg_fee_le [OF fees(1)] issued'
  have sum: "unat issued' + unat (requested_with_fee cb) = bond_claims cb s issued ?c - bond_fee p cb s issued ?c"
    by (simp add: uint_add_iff)
  have bonded': "unat (total_bond_amount s) + unat ?c = unat bonded" using bonded by (simp add: uint_add_iff)
  have fits: "unat bonded < 2 ^ 128" "bond_claims cb s issued ?c - bond_fee p cb s issued ?c < 2 ^ 128
      \<and> rate_units (unat bonded) (bond_claims cb s issued ?c - bond_fee p cb s issued ?c) < 2 ^ 128"
    using s' update_exchange_rate_ok_iff [of "s\<lparr>total_bond_amount := bonded\<rparr>" issued' "requested_with_fee cb"]
    unfolding sum by (simp_all add: is_ok_iff)
  have "bond_admitted p cb s issued ?c"
    using minted'(2,3) fees(1) fits unfolding bond_admitted_def Let_def bonded' by blast
  with valid pay show ?thesis by blast
qed

lemma bond_ok_if_admitted:
  assumes par: "PARAMETERS st = Some p" and cb: "CURRENT_BATCH st = Some cb"
    and sl: "slashing L Q st env = Ok st1" and s: "STATE st1 = Some s"
    and ti: "query_total_issued L Q st1 = Ok issued"
    and valid: "is_valid_validator L st v = Ok True" "length (funds info) \<le> 1"
    and pay: "find_payment (underlying_coin_denom p) (funds info) = Some pay"
    and adm: "bond_admitted p cb s issued (coin_amount pay)"
  shows "is_ok (execute_bond L Q st env info v)"
proof -
  let ?c = "coin_amount pay"
  let ?fee = "bond_fee p cb s issued ?c" and ?supply = "bond_claims cb s issued ?c - bond_fee p cb s issued ?c"
  from adm have div: "1000000000 \<le> units (exchange_rate s)"
      "unat ?c * E18 div (units (exchange_rate s) div 1000000000) < 2 ^ 128"
    and computes: "bond_fee_computes p cb s issued ?c"
    and fits: "unat (total_bond_amount s) + unat ?c < 2 ^ 128" "?supply < 2 ^ 128"
      "rate_units (unat (total_bond_amount s) + unat ?c) ?supply < 2 ^ 128"
    by (simp_all add: bond_admitted_def Let_def)
  have "bond_mint s ?c \<le> unat ?c * E18 div (units (exchange_rate s) div 1000000000)"
    unfolding quotient_9_def by (intro div_le_mono mult_le_mono2) simp
  then have small: "bond_mint s ?c < 2 ^ 128" using div(2) by (rule le_less_trans)
  then have "bond_mint s ?c - ?fee < 2 ^ 128" by (rule less_imp_diff_less)
  with small obtain minted m :: u128
    where minted': "unat minted = bond_mint s ?c" and m': "unat m = bond_mint s ?c - ?fee"
    using u128_of_nat by meson
  have minted: "decimal_division L ?c (exchange_rate s) = Ok minted"
    unfolding decimal_division_iff using div minted' by (simp add: div_greater_zero_iff)
  have m: "mint_less_peg_fee L (exchange_rate s) (er_threshold p) (peg_recovery_fee p) issued
       (requested_with_fee cb) (total_bond_amount s) ?c minted = Ok m"
    unfolding mint_less_peg_fee_iff minted' using computes m' by simp
  have "unat issued + unat m < 2 ^ 128" using fits(2) peg_fee_le [OF computes] by (simp add: m')
  then have issued': "uint_add L issued m = Ok (issued + m)" by (rule uint_add_fits)
  then have sum: "unat (issued + m) + unat (requested_with_fee cb) = ?supply"
    using peg_fee_le [OF computes] by (simp add: uint_add_iff m')
  define bonded where "bonded = total_bond_amount s + ?c"
  have bonded: "uint_add L (total_bond_amount s) ?c = Ok bonded"
    unfolding bonded_def using fits(1) by (rule uint_add_fits)
  then have bonded': "unat bonded = unat (total_bond_amount s) + unat ?c" by (simp add: uint_add_iff)
  have "is_ok (update_exchange_rate L (s\<lparr>total_bond_amount := bonded\<rparr>) (issued + m) (requested_with_fee cb))"
    unfolding update_exchange_rate_ok_iff sum using fits bonded' by simp
  then obtain s' where s': "update_exchange_rate L (s\<lparr>total_bond_amount := bonded\<rparr>) (issued + m)
      (requested_with_fee cb) = Ok s'" by (auto simp: is_ok_iff)
  obtain cfg token addr where "CONFIG st1 = Some (CurrentConfig cfg)"
    "token_contract cfg = Some token" "addr_humanize L token = Ok addr"
    using ti by (rule query_total_issued_OkE)
  with valid par cb pay sl s ti minted m issued' bonded s' show ?thesis
    by (simp add: execute_bond_def Let_def load_def load_config_def)
qed

text \<open>The same for compounding.\<close>

lemma compound_admitted_if_ok:
  assumes "execute_update_exchange_rate L Q st env info = Ok (st', r)" and "PARAMETERS st = Some p"
    and "CURRENT_BATCH st = Some cb" and "STATE st = Some s" and "query_total_issued L Q st = Ok issued"
    and "query_all_delegations Q (contract_address env) = Ok ds"
    and "CONFIG st = Some (CurrentConfig cfg)" and "rewards_contract cfg = Some raw"
  shows "addr_humanize L raw = Ok (sender info) \<and> ds \<noteq> []
    \<and> (\<exists>pay. find_payment (underlying_coin_denom p) (funds info) = Some pay
         \<and> compound_admitted p cb s issued (coin_amount pay)
         \<and> (fee_on p (coin_amount pay) \<noteq> 0 \<longrightarrow>
              (\<exists>c a. protocol_fee_collector cfg = Some c \<and> addr_humanize L c = Ok a)))"
proof -
  from assms(1) obtain pay fee rewards claims inc rate bonded i fms where
    snd: "addr_humanize L raw = Ok (sender info)"
    and pay: "find_payment (underlying_coin_denom p) (funds info) = Some pay"
    and fee: "protocol_fee_of L p (coin_amount pay) = Ok fee"
    and ops: "uint_checked_sub L (coin_amount pay) fee = Ok rewards"
      "uint_add L issued (requested_with_fee cb) = Ok claims" "dec_from_ratio L rewards claims = Ok inc"
      "dec_add L (exchange_rate s) inc = Ok rate" "uint_add L (total_bond_amount s) rewards = Ok bonded"
    and i: "gen_range L (block_height env) (length ds) = Ok i"
    and fms: "fee_messages L cfg (underlying_coin_denom p) fee = Ok fms"
    by (rule execute_update_exchange_rate_OkE) (use assms(2-8) in auto)
  note fee' = protocol_fee_of_value [OF fee]
  have nums: "unat (coin_amount pay) = unat fee + unat rewards"
    "unat issued + unat (requested_with_fee cb) = unat claims" "0 < unat claims"
    "units (exchange_rate s) + unat rewards * E18 div unat claims = units rate"
    "unat (total_bond_amount s) + unat rewards = unat bonded" using ops by (simp_all add: arith_iffs)
  have "fee_on p (coin_amount pay) \<le> unat (coin_amount pay)"
    and rest: "unat (coin_amount pay) - fee_on p (coin_amount pay) = unat rewards"
    unfolding fee' [symmetric] using nums(1) by simp_all
  then have "compound_admitted p cb s issued (coin_amount pay)"
    unfolding compound_admitted_def Let_def rest nums(2,4,5) using nums(3) by simp
  moreover have "ds \<noteq> []" using gen_range_Ok_less [OF i] by auto
  moreover have "\<exists>c a. protocol_fee_collector cfg = Some c \<and> addr_humanize L c = Ok a"
    if "fee_on p (coin_amount pay) \<noteq> 0"
    using fee_messages_OkD(2) [OF fms] that unfolding fee' [symmetric] by (auto simp: unat_eq_zero)
  ultimately show ?thesis using snd pay by blast
qed

lemma protocol_fee_fits:
  assumes "fee_on p payment \<le> unat payment"
  obtains fee where "protocol_fee_of L p payment = Ok fee" and "unat fee = fee_on p payment"
proof -
  have "unat payment < 2 ^ 128" by simp
  with assms have "fee_on p payment < 2 ^ 128" by (rule le_less_trans)
  from mul_dec_fits [OF this] have "is_ok (protocol_fee_of L p payment)"
    by (auto simp: protocol_fee_of_def is_ok_iff)
  then show thesis using that protocol_fee_of_value by (auto simp: is_ok_iff)
qed

lemma compound_ok_if_admitted:
  assumes par: "PARAMETERS st = Some p" and cb: "CURRENT_BATCH st = Some cb" and s: "STATE st = Some s"
    and ti: "query_total_issued L Q st = Ok issued"
    and ds: "query_all_delegations Q (contract_address env) = Ok ds" "ds \<noteq> []"
    and cfg: "CONFIG st = Some (CurrentConfig cfg)" "rewards_contract cfg = Some raw"
      "addr_humanize L raw = Ok (sender info)"
    and pay: "find_payment (underlying_coin_denom p) (funds info) = Some pay"
    and adm: "compound_admitted p cb s issued (coin_amount pay)"
    and col: "fee_on p (coin_amount pay) \<noteq> 0 \<Longrightarrow>
      \<exists>c a. protocol_fee_collector cfg = Some c \<and> addr_humanize L c = Ok a"
  shows "is_ok (execute_update_exchange_rate L Q st env info)"
proof -
  let ?c = "coin_amount pay" and ?claims = "unat issued + unat (requested_with_fee cb)"
  let ?rewards = "unat ?c - fee_on p ?c"
  from adm have le: "fee_on p ?c \<le> unat ?c" and fits: "0 < ?claims" "?claims < 2 ^ 128"
    "units (exchange_rate s) + ?rewards * E18 div ?claims < 2 ^ 128"
    "unat (total_bond_amount s) + ?rewards < 2 ^ 128"
    by (simp_all only: compound_admitted_def Let_def)
  obtain fee where fee: "protocol_fee_of L p ?c = Ok fee" "unat fee = fee_on p ?c"
    using le by (rule protocol_fee_fits)
  have "unat fee \<le> unat ?c" using le fee(2) by simp
  then have sub: "uint_checked_sub L ?c fee = Ok (?c - fee)" and rewards: "unat (?c - fee) = ?rewards"
    by (simp_all add: checked_sub_le word_le_nat_alt unat_sub_le fee(2))
  have claims: "uint_add L issued (requested_with_fee cb) = Ok (issued + requested_with_fee cb)"
    using fits(2) by (rule uint_add_fits)
  have inc_fits: "?rewards * E18 div ?claims < 2 ^ 128" using fits(3) by linarith
  then obtain inc where inc: "units inc = ?rewards * E18 div ?claims"
    using u128_of_nat by (metis decimal.sel)
  have "dec_from_ratio L (?c - fee) (issued + requested_with_fee cb) = Ok inc"
    using fits(1) claims inc by (simp add: arith_iffs rewards)
  moreover obtain rate where "units rate = units (exchange_rate s) + units inc"
    using u128_of_nat [OF fits(3)] inc by (metis decimal.sel)
  then have "dec_add L (exchange_rate s) inc = Ok rate" by (simp add: dec_add_iff)
  moreover have "uint_add L (total_bond_amount s) (?c - fee) = Ok (total_bond_amount s + (?c - fee))"
    by (rule uint_add_fits) (use fits(4) rewards in simp)
  moreover obtain i where "gen_range L (block_height env) (length ds) = Ok i" "i < length ds"
    using gen_range_in [of "length ds" "block_height env"] ds(2) by auto
  moreover from this(2) have "\<exists>rms. redelegate_messages ds i (underlying_coin_denom p) (?c - fee) = Ok rms"
    by (simp add: redelegate_messages_def vec_get_def)
  moreover have "\<exists>fms. fee_messages L cfg (underlying_coin_denom p) fee = Ok fms"
  proof (cases "fee = 0")
    case False
    with fee(2) have "fee_on p ?c \<noteq> 0" by (metis unat_eq_zero)
    from col [OF this] False show ?thesis by (auto simp: fee_messages_def)
  qed (simp add: fee_messages_def)
  ultimately show ?thesis using par cb s ti ds(1) cfg pay fee(1) sub claims
    by (auto simp: execute_update_exchange_rate_def Let_def load_config_def)
qed

text \<open>After the slashing check the bond is at most the stake.\<close>

lemma slashing_bond_le_stake:
  assumes "slashing L Q st env = Ok st1" and "STATE st1 = Some s"
    and "query_all_delegations Q (contract_address env) = Ok ds" and "ds \<noteq> []"
  shows "unat (total_bond_amount s) \<le> delegated ds"
  using assms(1)
proof (cases rule: slashing_cases)
  case (unchanged p s' ds')
  with assms staked_le_delegated show ?thesis by (auto intro: order_trans)
next
  case (slashed p s' ds' ti cb n r)
  with assms staked_le_delegated show ?thesis by auto
qed

end

section \<open>Properties\<close>

text \<open>
  C15: when an unbond goes through. In a reachable state, given the slashing check, the token supply and
  the delegations, an unbond succeeds exactly when the burnt tokens exist, the peg recovery fee can be
  computed (below the threshold the bond must not exceed the supply with the requests, and the fee not
  the amount), the new supply and rate fit, the clock is not behind the start of the epoch, and, once the
  epoch is over, there is a next batch id and the value of the whole batch is bonded and staked and is not a
  single coin. The wait list never stands in the way.
\<close>

theorem unbond_exactly_when:
  assumes "cosmwasm L" and "hub_reachable L G st" and "PARAMETERS st = Some p" and "CURRENT_BATCH st = Some cb"
    and "slashing L Q st env = Ok st1" and "STATE st1 = Some s" and "query_total_issued L Q st1 = Ok issued"
    and "query_all_delegations Q (contract_address env) = Ok ds"
    and "unat (block_height env) + length ds < 2 ^ 64"
  shows "is_ok (execute_unbond L Q st env amount user) \<longleftrightarrow>
     (let requested = unat (requested_with_fee cb); bonded = unat (total_bond_amount s);
          claims = unat issued + requested; below = exchange_rate s < er_threshold p;
          fee = peg_fee below (units (peg_recovery_fee p)) claims bonded (unat amount);
          rate = rate_units bonded (claims - fee);
          und = (requested + (unat amount - fee)) * rate div E18
      in last_unbonded_time s \<le> block_seconds env \<and> amount \<le> issued
       \<and> (below \<longrightarrow> unat amount * units (peg_recovery_fee p) div E18 < 2 ^ 128 \<and> claims < 2 ^ 128
            \<and> bonded \<le> claims \<and> fee \<le> unat amount)
       \<and> claims - fee < 2 ^ 128 \<and> rate < 2 ^ 128
       \<and> (epoch_period p < block_seconds env - last_unbonded_time s \<longrightarrow>
            und \<noteq> 1 \<and> und \<le> bonded \<and> und \<le> delegated ds \<and> unat (cb_id cb) + 1 < 2 ^ 64))"
proof -
  note inv = cosmwasm.reachable_inv [OF assms(1,2)]
  have "is_ok (execute_unbond L Q st env amount user) \<longleftrightarrow> unbond_admitted p cb s issued (delegated ds) env amount"
    using cosmwasm.unbond_admitted_if_ok [OF assms(1) _ assms(3-9)]
      cosmwasm.unbond_ok_if_admitted [OF assms(1) inv assms(3-9)] by (auto simp: is_ok_iff)
  then show ?thesis by (simp only: unbond_admitted_def fee_computes_def admits_close_def Let_def)
qed

text \<open>
  C21: when a bond goes through. Given the slashing check and the token supply, a bond succeeds exactly
  when the validator is whitelisted, a single coin of the right denomination is sent, the rate is at
  least \<open>10^-9\<close> and the payment can be divided by it, the peg recovery fee can be computed (below the
  threshold the new bond must not exceed the new supply with the requests), and the new bond, supply
  and rate fit.
\<close>

theorem bond_exactly_when:
  assumes "cosmwasm L" and "PARAMETERS st = Some p" and "CURRENT_BATCH st = Some cb"
    and "slashing L Q st env = Ok st1" and "STATE st1 = Some s" and "query_total_issued L Q st1 = Ok issued"
  shows "is_ok (execute_bond L Q st env info v) \<longleftrightarrow>
     is_valid_validator L st v = Ok True \<and> length (funds info) \<le> 1
     \<and> (\<exists>pay. find_payment (underlying_coin_denom p) (funds info) = Some pay
         \<and> (let c = coin_amount pay; bonded = unat (total_bond_amount s) + unat c;
                cut = units (exchange_rate s) div 1000000000; minted = unat c * 1000000000 div cut;
                claims = unat issued + minted + unat (requested_with_fee cb);
                below = exchange_rate s < er_threshold p;
                fee = peg_fee below (units (peg_recovery_fee p)) claims bonded minted
            in 1000000000 \<le> units (exchange_rate s) \<and> unat c * E18 div cut < 2 ^ 128
             \<and> (below \<longrightarrow> minted * units (peg_recovery_fee p) div E18 < 2 ^ 128 \<and> claims < 2 ^ 128
                  \<and> bonded \<le> claims \<and> fee \<le> minted)
             \<and> bonded < 2 ^ 128 \<and> claims - fee < 2 ^ 128 \<and> rate_units bonded (claims - fee) < 2 ^ 128))"
proof -
  have "is_ok (execute_bond L Q st env info v) \<longleftrightarrow> is_valid_validator L st v = Ok True
      \<and> length (funds info) \<le> 1 \<and> (\<exists>pay. find_payment (underlying_coin_denom p) (funds info) = Some pay
         \<and> bond_admitted p cb s issued (coin_amount pay))"
    using cosmwasm.bond_admitted_if_ok [OF assms(1) _ assms(2-6)]
      cosmwasm.bond_ok_if_admitted [OF assms] by (auto simp: is_ok_iff)
  then show ?thesis by (simp only: bond_admitted_def fee_computes_def quotient_9_def Let_def)
qed

text \<open>
  C16: at or above the threshold everybody can leave. In a reachable state with something bonded and
  delegated, tokens that exist can be unbonded whenever the rate has reached the threshold and the numbers
  fit: inside the epoch always, and after it unless the whole batch is worth a single coin. In particular
  closing the batch never runs out of bond or of stake, whatever was slashed before.
\<close>

theorem unbond_open_at_peg:
  assumes "cosmwasm L" and "hub_reachable L G st" and "PARAMETERS st = Some p" and "CURRENT_BATCH st = Some cb"
    and "slashing L Q st env = Ok st1" and "STATE st1 = Some s" and "query_total_issued L Q st1 = Ok issued"
    and "query_all_delegations Q (contract_address env) = Ok ds" and "ds \<noteq> []"
    and "unat (block_height env) + length ds < 2 ^ 64" and "unat (cb_id cb) + 1 < 2 ^ 64"
    and "er_threshold p \<le> exchange_rate s" and "0 < total_bond_amount s" and "amount \<le> issued"
    and "last_unbonded_time s \<le> block_seconds env"
    and "claims = unat issued + unat (requested_with_fee cb)" and "claims < 2 ^ 128"
    and "rate = rate_units (unat (total_bond_amount s)) claims" and "rate < 2 ^ 128"
  shows "is_ok (execute_unbond L Q st env amount user) \<longleftrightarrow>
     \<not> (epoch_period p < block_seconds env - last_unbonded_time s
        \<and> (unat (requested_with_fee cb) + unat amount) * rate div E18 = 1)"
proof -
  let ?und = "(unat (requested_with_fee cb) + unat amount) * rate div E18"
  have iff: "is_ok (execute_unbond L Q st env amount user) \<longleftrightarrow> unbond_admitted p cb s issued (delegated ds) env amount"
    using cosmwasm.unbond_admitted_if_ok [OF assms(1) _ assms(3-8,10)]
      cosmwasm.unbond_ok_if_admitted [OF assms(1) cosmwasm.reachable_inv [OF assms(1,2)] assms(3-8,10)]
    by (auto simp: is_ok_iff)
  have "0 < unat (total_bond_amount s)" using assms(13) by (simp add: word_less_nat_alt)
  moreover have "unat (requested_with_fee cb) + unat amount \<le> claims"
    using assms(14,16) by (simp add: word_le_nat_alt)
  ultimately have "?und \<le> unat (total_bond_amount s)"
    unfolding assms(18) by (rule rate_value_le_bond)
  moreover have "unat (total_bond_amount s) \<le> delegated ds"
    using assms(5,6,8,9) by (rule cosmwasm.slashing_bond_le_stake [OF assms(1)])
  ultimately have close: "admits_close (unat (total_bond_amount s)) (delegated ds) ?und (cb_id cb) \<longleftrightarrow> ?und \<noteq> 1"
    using assms(11) by (simp add: admits_close_def)
  have "\<not> exchange_rate s < er_threshold p" using assms(12) by simp
  then have fee: "unbond_fee p cb s issued amount = 0" "unbond_fee_computes p cb s issued amount"
    by (simp_all add: peg_fee_def fee_computes_def)
  show ?thesis unfolding iff unbond_admitted_def Let_def fee(1)
    using assms(14-19) fee(2) close by simp
qed

text \<open>
  C23: above the peg but below the threshold nobody gets in or out. When the rate is at least one and
  still below the threshold, and the bond exceeds the supply with the requests (as it does when the
  rate, computed from them, is above one), the required fee underflows: every unbond and every bond is
  refused, whatever the amount.
\<close>

theorem peg_window_blocks:
  assumes "cosmwasm L" and "PARAMETERS st = Some p" and "CURRENT_BATCH st = Some cb"
    and "slashing L Q st env = Ok st1" and "STATE st1 = Some s" and "query_total_issued L Q st1 = Ok issued"
    and "dec_one \<le> exchange_rate s" and "exchange_rate s < er_threshold p"
    and "unat issued + unat (requested_with_fee cb) < unat (total_bond_amount s)"
  shows "\<not> is_ok (execute_unbond L Q st env amount user) \<and> \<not> is_ok (execute_bond L Q st env info v)"
proof
  show "\<not> is_ok (execute_unbond L Q st env amount user)"
  proof
    assume "is_ok (execute_unbond L Q st env amount user)"
    then obtain st' r where "execute_unbond L Q st env amount user = Ok (st', r)" by (auto simp: is_ok_iff)
    then obtain m where "unbond_less_peg_fee L (exchange_rate s) (er_threshold p) (peg_recovery_fee p) issued
        (requested_with_fee cb) (total_bond_amount s) amount = Ok m"
      by (rule execute_unbond_OkE) (use assms(2-6) in auto)
    with assms(8,9) show False by (simp add: cosmwasm.unbond_less_peg_fee_iff [OF assms(1)] fee_computes_def)
  qed
  show "\<not> is_ok (execute_bond L Q st env info v)"
  proof
    assume "is_ok (execute_bond L Q st env info v)"
    then obtain st' r where "execute_bond L Q st env info v = Ok (st', r)" by (auto simp: is_ok_iff)
    from cosmwasm.bond_admitted_if_ok [OF assms(1) this assms(2-6)]
    obtain c where "bond_fee_computes p cb s issued c" by (auto simp: bond_admitted_def Let_def)
    with assms(8) have "unat (total_bond_amount s) + unat c \<le> bond_claims cb s issued c"
      by (simp add: fee_computes_def)
    moreover have "unat c * 1000000000 div (units (exchange_rate s) div 1000000000) \<le> unat c * 1000000000 div 1000000000"
      using assms(7) by (intro div_le_mono2) (simp_all add: decimal_le_units less_eq_div_iff_mult_less_eq)
    ultimately show False using assms(9) by (simp add: quotient_9_def)
  qed
qed

text \<open>
  C22: when rewards are compounded. Given the token supply, the delegations and the configured rewards
  contract, the handler succeeds exactly when that contract sends it, a coin of the bonded kind is
  attached, the protocol fee is at most the payment, there are tokens or requests to share the rest, the
  new rate and bond fit, there is a delegation, and the fee collector is set or the fee rounds to zero.
\<close>

theorem compound_exactly_when:
  assumes "cosmwasm L" and "PARAMETERS st = Some p" and "CURRENT_BATCH st = Some cb" and "STATE st = Some s"
    and "query_total_issued L Q st = Ok issued" and "query_all_delegations Q (contract_address env) = Ok ds"
    and "CONFIG st = Some (CurrentConfig cfg)" and "rewards_contract cfg = Some raw"
  shows "is_ok (execute_update_exchange_rate L Q st env info) \<longleftrightarrow>
     addr_humanize L raw = Ok (sender info) \<and> ds \<noteq> []
     \<and> (\<exists>pay. find_payment (underlying_coin_denom p) (funds info) = Some pay
         \<and> (let c = unat (coin_amount pay); fee = c * units (protocol_fee p) div E18;
                claims = unat issued + unat (requested_with_fee cb)
            in fee \<le> c \<and> 0 < claims \<and> claims < 2 ^ 128
             \<and> units (exchange_rate s) + (c - fee) * E18 div claims < 2 ^ 128
             \<and> unat (total_bond_amount s) + (c - fee) < 2 ^ 128
             \<and> (fee \<noteq> 0 \<longrightarrow> (\<exists>f a. protocol_fee_collector cfg = Some f \<and> addr_humanize L f = Ok a))))"
proof -
  have "is_ok (execute_update_exchange_rate L Q st env info) \<longleftrightarrow>
     addr_humanize L raw = Ok (sender info) \<and> ds \<noteq> []
     \<and> (\<exists>pay. find_payment (underlying_coin_denom p) (funds info) = Some pay
         \<and> compound_admitted p cb s issued (coin_amount pay)
         \<and> (fee_on p (coin_amount pay) \<noteq> 0 \<longrightarrow>
              (\<exists>c a. protocol_fee_collector cfg = Some c \<and> addr_humanize L c = Ok a)))" (is "?l \<longleftrightarrow> ?r")
  proof
    assume ?l
    then show ?r using cosmwasm.compound_admitted_if_ok [OF assms(1) _ assms(2-8)] by (auto simp: is_ok_iff)
  next
    assume ?r
    then show ?l
      using cosmwasm.compound_ok_if_admitted [OF assms(1-6) _ assms(7,8)] by blast
  qed
  then show ?thesis unfolding compound_admitted_def Let_def by (simp only: conj_assoc)
qed

theorem unbond_exactly_when_witness:
  "is_ok (execute_unbond ref_lib (sample_querier 1000 1000 0) run_token (sample_env 110) 300 ''alice'')
   \<and> \<not> is_ok (execute_unbond ref_lib (sample_querier 1000 1000 0) run_token (sample_env 110) 1001 ''alice'')"
proof -
  let ?Q = "sample_querier 1000 1000 0"
  have reach: "hub_reachable ref_lib (\<lambda>_ _ _ _. True) run_token"
    using run_start_reached run_token_step by (blast intro: hub_reachable.step hub_step.message)
  obtain p where p: "PARAMETERS run_token = Some p" "epoch_period p = 30" "er_threshold p = dec_one"
    by (simp add: run_defs)
  have cb: "CURRENT_BATCH run_token = Some \<lparr>cb_id = 1, requested_with_fee = 0\<rparr>"
    and s: "STATE run_token = Some sample_state" by (simp_all add: run_token_def run_start_def)
  have sl: "slashing ref_lib ?Q run_token (sample_env 110) = Ok run_token"
    and ti: "query_total_issued ref_lib ?Q run_token = Ok 1000"
    by (simp_all add: eval_defs run_defs)
  have "unat (block_height (sample_env 110)) + length [sample_delegation 1000] < 2 ^ 64" by simp
  note iff = unbond_exactly_when [OF cosmwasm_ref_lib reach p(1) cb sl s ti sample_querier_sel(1) this]
  show ?thesis unfolding iff
    by (simp add: p(2,3) sample_state_def peg_fee_def rate_units_def Let_def)
qed

theorem unbond_open_at_peg_witness:
  "is_ok (execute_unbond ref_lib (sample_querier 1000 1000 0) run_token (sample_env 200) 300 ''alice'')"
proof -
  let ?Q = "sample_querier 1000 1000 0"
  have reach: "hub_reachable ref_lib (\<lambda>_ _ _ _. True) run_token"
    using run_start_reached run_token_step by (blast intro: hub_reachable.step hub_step.message)
  obtain p where p: "PARAMETERS run_token = Some p" "epoch_period p = 30" "er_threshold p = dec_one"
    by (simp add: run_defs)
  have cb: "CURRENT_BATCH run_token = Some \<lparr>cb_id = 1, requested_with_fee = 0\<rparr>"
    and s: "STATE run_token = Some sample_state" by (simp_all add: run_token_def run_start_def)
  have sl: "slashing ref_lib ?Q run_token (sample_env 200) = Ok run_token"
    and ti: "query_total_issued ref_lib ?Q run_token = Ok 1000"
    by (simp_all add: eval_defs run_defs)
  have "is_ok (execute_unbond ref_lib ?Q run_token (sample_env 200) 300 ''alice'') \<longleftrightarrow>
      \<not> (epoch_period p < block_seconds (sample_env 200) - last_unbonded_time sample_state
         \<and> (unat (requested_with_fee \<lparr>cb_id = 1, requested_with_fee = 0\<rparr>) + unat (300 :: u128)) * E18 div E18 = 1)"
    by (rule unbond_open_at_peg [OF cosmwasm_ref_lib reach p(1) cb sl s ti sample_querier_sel(1), of _ 1000])
      (simp_all add: p(2,3) sample_state_def rate_units_def)
  then show ?thesis by simp
qed

theorem bond_exactly_when_witness:
  "is_ok (execute_bond ref_lib (sample_querier 1000 1000 0) sample_storage (sample_env 110)
      \<lparr>sender = ''alice'', funds = [\<lparr>denom = ''uluna'', coin_amount = 500\<rparr>]\<rparr> ''val1'')
   \<and> \<not> is_ok (execute_bond ref_lib (sample_querier 1000 1000 0) sample_storage (sample_env 110)
      \<lparr>sender = ''alice'', funds = [\<lparr>denom = ''uluna'', coin_amount = 500\<rparr>]\<rparr> ''val3'')"
proof -
  let ?Q = "sample_querier 1000 1000 0"
  have sl: "slashing ref_lib ?Q sample_storage (sample_env 110) = Ok sample_storage"
    and ti: "query_total_issued ref_lib ?Q sample_storage = Ok 1000"
    by (simp_all add: eval_defs sample_state_def)
  have white: "is_valid_validator ref_lib sample_storage ''val1'' = Ok True"
    "is_valid_validator ref_lib sample_storage ''val3'' = Ok False" by (simp_all add: eval_defs)
  show ?thesis
    unfolding bond_exactly_when [OF cosmwasm_ref_lib sample_storage_sel(4,5) sl sample_storage_sel(6) ti]
    by (simp add: white find_payment_def sample_state_def peg_fee_def rate_units_def Let_def)
qed

theorem compound_exactly_when_witness:
  "is_ok (execute_update_exchange_rate ref_lib (sample_querier 1000 1000 0) sample_storage (sample_env 100)
      \<lparr>sender = ''rewards'', funds = [\<lparr>denom = ''uluna'', coin_amount = 205\<rparr>]\<rparr>)
   \<and> \<not> is_ok (execute_update_exchange_rate ref_lib (sample_querier 1000 0 0) sample_storage (sample_env 100)
      \<lparr>sender = ''rewards'', funds = [\<lparr>denom = ''uluna'', coin_amount = 205\<rparr>]\<rparr>)"
proof -
  have ti: "query_total_issued ref_lib (sample_querier 1000 n 0) sample_storage = Ok n" for n
    by (simp add: eval_defs)
  show ?thesis
    unfolding compound_exactly_when [OF cosmwasm_ref_lib sample_storage_sel(4,5,6) ti sample_querier_sel(1)
        sample_storage_sel(3) sample_config_sel(4)]
    by (simp add: find_payment_def sample_state_def Let_def)
qed

definition window_storage :: hub_storage where
  "window_storage = sample_storage
     \<lparr>PARAMETERS := Some (sample_params\<lparr>er_threshold := Decimal 2000000000000000000\<rparr>),
      STATE := Some (sample_state\<lparr>total_bond_amount := 1500, exchange_rate := Decimal 1500000000000000000\<rparr>)\<rparr>"

theorem peg_window_blocks_witness:
  "\<not> is_ok (execute_unbond ref_lib (sample_querier 1500 1000 0) window_storage (sample_env 110) 300 ''alice'')
   \<and> \<not> is_ok (execute_bond ref_lib (sample_querier 1500 1000 0) window_storage (sample_env 110)
      \<lparr>sender = ''alice'', funds = [\<lparr>denom = ''uluna'', coin_amount = 500\<rparr>]\<rparr> ''val1'')"
proof -
  let ?Q = "sample_querier 1500 1000 0"
  have sl: "slashing ref_lib ?Q window_storage (sample_env 110) = Ok window_storage"
    and ti: "query_total_issued ref_lib ?Q window_storage = Ok 1000"
    by (simp_all add: eval_defs window_storage_def)
  obtain p where p: "PARAMETERS window_storage = Some p" "er_threshold p = Decimal 2000000000000000000"
    by (simp add: window_storage_def)
  obtain s where s: "STATE window_storage = Some s" "exchange_rate s = Decimal 1500000000000000000"
    "total_bond_amount s = 1500" by (simp add: window_storage_def)
  have cb: "CURRENT_BATCH window_storage = Some \<lparr>cb_id = 1, requested_with_fee = 0\<rparr>"
    by (simp add: window_storage_def)
  show ?thesis
    by (rule peg_window_blocks [OF cosmwasm_ref_lib p(1) cb sl s(1) ti])
      (simp_all add: p(2) s(2,3) decimal_le_units decimal_less_units)
qed

end
