(* ===== verification/HubSolvency.thy ===== *)
theory HubSolvency
  imports HubInvariant
begin

text \<open>
  Solvency of the hub: what all users together can still withdraw from released batches is covered by
  the balance that the hub recorded after the last withdrawal. The chain is assumed not to take coins
  out of the hub, and the slashes to be small against the batches.
\<close>

section \<open>What the hub owes\<close>

definition owed :: "cw_lib \<Rightarrow> hub_storage \<Rightarrow> nat" where
  "owed L st = (\<Sum>a \<in> waiting_users st. finished_total L st a)"

definition solvent :: "cw_lib \<Rightarrow> hub_storage \<Rightarrow> bool" where
  "solvent L st = (\<exists>s. STATE st = Some s \<and> owed L st \<le> unat (prev_hub_balance s))"

text \<open>
  The assumption on a withdrawal: the hub holds at least what it recorded last time, the number of
  batches times the shortfall stays within 18 digits, and every batch claims at least the slash taken
  from it.
\<close>

definition fair_chain :: "hub_storage \<Rightarrow> querier \<Rightarrow> env \<Rightarrow> hub_execute_msg \<Rightarrow> bool" where
  "fair_chain st Q env msg =
     (msg = WithdrawUnbonded \<longrightarrow> (\<forall>p s t bal.
        PARAMETERS st = Some p \<longrightarrow> STATE st = Some s \<longrightarrow>
        u64_sub (block_seconds env) (unbonding_period p) = Ok t \<longrightarrow>
        query_balance Q (contract_address env) (underlying_coin_denom p) = Ok bal \<longrightarrow>
        (let run = matured_run st s t;
             claims = (\<Sum>b\<leftarrow>run. unbonded (HISTORY st) b);
             received = received_by s (coin_amount bal)
         in prev_hub_balance s \<le> coin_amount bal
          \<and> length run * (claims - received) \<le> E18
          \<and> (\<forall>b \<in> set run. \<not> overcut claims (claims - received) (unbonded (HISTORY st) b)))))"

section \<open>Sums over batches\<close>

lemma claim_value_0 [simp]: "claim_value hist b 0 = 0"
  by (simp add: claim_value_def split: option.splits)

lemma finished_total_not_user: "a \<notin> waiting_users st \<Longrightarrow> finished_total L st a = 0"
  by (simp add: waiting_users_def finished_total_def)

lemma finished_total_cong:
  "WAIT st' a = WAIT st a \<Longrightarrow> HISTORY st' = HISTORY st \<Longrightarrow> finished_total L st' a = finished_total L st a"
  by (simp only: finished_total_def)

lemma owed_superset:
  assumes "finite A" and "waiting_users st \<subseteq> A"
  shows "owed L st = (\<Sum>a \<in> A. finished_total L st a)"
  unfolding owed_def
  by (rule sum.mono_neutral_left [OF assms]) (simp add: finished_total_not_user)

lemma finished_total_le_owed:
  "finite (waiting_users st) \<Longrightarrow> finished_total L st a \<le> owed L st"
  by (cases "a \<in> waiting_users st")
    (auto simp: owed_def finished_total_not_user intro: member_le_sum)

context cosmwasm
begin

text \<open>A user's finished total, batch by batch.\<close>

lemma finished_total_sum:
  assumes "bucket_ok L (WAIT st a)"
  shows "finished_total L st a = (\<Sum>b \<in> UNIV. claim_value (HISTORY st) b (waiting L st a b))"
proof -
  let ?s = "WAIT st a"
  let ?B = "{b. kv_get ?s (to_vec_u64 L b) \<noteq> None}"
  let ?i = "\<lambda>b. (to_vec_u64 L b, the (kv_get ?s (to_vec_u64 L b)))"
  let ?f = "\<lambda>(k, v). case from_slice_u64 L k of Ok b \<Rightarrow> claim_value (HISTORY st) b (unat v)
     | Err _ \<Rightarrow> 0 | Panic _ \<Rightarrow> 0"
  from assms have ok: "kv_ok ?s" by (simp add: bucket_ok_def)
  then have "distinct (map fst ?s)" by (rule kv.entries_distinct)
  then have "finished_total L st a = sum ?f (set ?s)"
    by (simp add: finished_total_def sum_list_distinct_conv_sum_set distinct_map)
  also have "set ?s = ?i ` ?B"
  proof
    show "set ?s \<subseteq> ?i ` ?B"
    proof
      fix e assume e: "e \<in> set ?s"
      with assms obtain b where "fst e = to_vec_u64 L b" by (force simp: bucket_ok_def)
      then have "e = (to_vec_u64 L b, snd e)" by (metis prod.collapse)
      moreover from e ok this have "kv_get ?s (to_vec_u64 L b) = Some (snd e)"
        by (metis kv_entries_get)
      ultimately show "e \<in> ?i ` ?B" by (intro image_eqI [of _ _ b]) simp_all
    qed
    show "?i ` ?B \<subseteq> set ?s" using ok by (auto simp: kv_entries_get)
  qed
  also have "sum ?f (?i ` ?B) = (\<Sum>b \<in> ?B. ?f (?i b))"
    by (rule sum.reindex [unfolded o_def]) (auto intro: inj_onI)
  also have "\<dots> = (\<Sum>b \<in> ?B. claim_value (HISTORY st) b (waiting L st a b))"
    by (rule sum.cong) (auto simp: u64_round_trip waiting_def)
  also have "\<dots> = (\<Sum>b \<in> UNIV. claim_value (HISTORY st) b (waiting L st a b))"
    by (rule sum.mono_neutral_left) (auto simp: waiting_def)
  finally show ?thesis .
qed

lemma owed_sum:
  assumes "stores_ok L st" and "finite A" and "waiting_users st \<subseteq> A"
  shows "owed L st = (\<Sum>a \<in> A. \<Sum>b \<in> UNIV. claim_value (HISTORY st) b (waiting L st a b))"
  using assms by (simp add: owed_superset finished_total_sum stores_ok_def)

text \<open>
  Releasing a run of batches adds, over all users, at most what the released batches are worth.
\<close>

lemma owed_release:
  assumes "stores_ok L st" and "stores_ok L st1" and "WAIT st1 = WAIT st" and "distinct run"
    and "\<And>b. b \<notin> set run \<Longrightarrow>
           kv_get (HISTORY st1) (to_be_bytes b) = kv_get (HISTORY st) (to_be_bytes b)"
    and "\<And>b. b \<in> set run \<Longrightarrow> \<exists>h h'. kv_get (HISTORY st) (to_be_bytes b) = Some h \<and> \<not> released h
           \<and> kv_get (HISTORY st1) (to_be_bytes b) = Some h' \<and> released h'
           \<and> total_waiting L st b = unat (hist_amount h')"
  shows "owed L st1 \<le> owed L st + (\<Sum>b\<leftarrow>run. unbonded (HISTORY st1) b)"
proof -
  let ?A = "waiting_users st" and ?w = "waiting L st"
  let ?new = "\<lambda>a b. if b \<in> set run then claim_value (HISTORY st1) b (?w a b) else 0"
  have users: "waiting_users st1 = ?A" by (simp add: waiting_users_def assms(3))
  have fin: "finite ?A" using assms(1) by (simp add: stores_ok_def)
  have "waiting L st1 = ?w" by (simp add: waiting_def assms(3) fun_eq_iff)
  moreover have "claim_value (HISTORY st1) b v = claim_value (HISTORY st) b v
      + (if b \<in> set run then claim_value (HISTORY st1) b v else 0)" for b v
    using assms(5,6) [of b] by (cases "b \<in> set run") (auto simp: claim_value_def)
  ultimately have "owed L st1 = (\<Sum>a \<in> ?A. \<Sum>b \<in> UNIV. claim_value (HISTORY st) b (?w a b) + ?new a b)"
    using assms(2) fin by (subst owed_sum) (simp_all add: users)
  also have "\<dots> = owed L st + (\<Sum>a \<in> ?A. \<Sum>b \<in> UNIV. ?new a b)"
    using assms(1) fin by (simp add: sum.distrib owed_sum)
  also have "(\<Sum>a \<in> ?A. \<Sum>b \<in> UNIV. ?new a b) = (\<Sum>b \<in> set run. \<Sum>a \<in> ?A. claim_value (HISTORY st1) b (?w a b))"
    by (subst sum.swap) (simp add: sum.If_cases sum.swap [of _ ?A])
  also have "\<dots> \<le> (\<Sum>b \<in> set run. unbonded (HISTORY st1) b)"
  proof (rule sum_mono)
    fix b assume "b \<in> set run"
    with assms(6) obtain h' where h': "kv_get (HISTORY st1) (to_be_bytes b) = Some h'" "released h'"
      "total_waiting L st b = unat (hist_amount h')" by blast
    have "(\<Sum>a \<in> ?A. claim_value (HISTORY st1) b (?w a b))
        = (\<Sum>a \<in> ?A. ?w a b * units (withdraw_rate h') div E18)"
      by (simp add: claim_value_def h')
    also have "\<dots> \<le> (\<Sum>a \<in> ?A. ?w a b * units (withdraw_rate h')) div E18" by (rule sum_div_le_div_sum)
    also have "(\<Sum>a \<in> ?A. ?w a b * units (withdraw_rate h')) = total_waiting L st b * units (withdraw_rate h')"
      by (simp add: total_waiting_def sum_distrib_right)
    finally show "(\<Sum>a \<in> ?A. claim_value (HISTORY st1) b (?w a b)) \<le> unbonded (HISTORY st1) b"
      by (simp add: unbonded_def h')
  qed
  also have "(\<Sum>b \<in> set run. unbonded (HISTORY st1) b) = (\<Sum>b\<leftarrow>run. unbonded (HISTORY st1) b)"
    using assms(4) by (simp add: sum_list_distinct_conv_sum_set)
  finally show ?thesis by simp
qed

text \<open>A withdrawal reduces what is owed by what it pays.\<close>

lemma owed_withdraw:
  assumes "stores_ok L st" and "get_unbond_batches L st u = Ok bs"
  shows "owed L (st\<lparr>WAIT := (WAIT st)(to_vec_str L u :=
            remove_batches L (WAIT st (to_vec_str L u)) bs), STATE := x\<rparr>)
       + finished_total L st (to_vec_str L u) \<le> owed L st" (is "owed L ?st' + _ \<le> _")
proof -
  let ?u = "to_vec_str L u" and ?A = "insert (to_vec_str L u) (waiting_users st)"
  from assms(1) have fin: "finite ?A" and ok: "bucket_ok L (WAIT st ?u)"
    by (simp_all add: stores_ok_def)
  note waiting = remove_released_waiting [OF assms(2) ok, of x, simplified]
  have users: "waiting_users ?st' \<subseteq> ?A" by (auto simp: waiting_users_def)
  have zero: "finished_total L ?st' ?u = 0"
    using ok by (intro finished_total_zero) (simp_all add: bucket_ok_remove_batches waiting released_batch_def)
  have same: "finished_total L ?st' a = finished_total L st a" if "a \<noteq> ?u" for a
    using that by (intro finished_total_cong) simp_all
  have "owed L ?st' = (\<Sum>a \<in> ?A - {?u}. finished_total L st a)"
    using fin by (simp add: owed_superset [OF fin users] sum.remove [of ?A ?u] zero same)
  moreover have "owed L st = finished_total L st ?u + (\<Sum>a \<in> ?A - {?u}. finished_total L st a)"
    using owed_superset [OF fin subset_insertI] sum.remove [OF fin, of ?u "finished_total L st"] by simp
  ultimately show ?thesis by simp
qed

lemma process_owed:
  assumes "process_withdraw_rate L st t bal = Ok st1" and "STATE st = Some s" and "stores_ok L st"
    and "books_ok L st cur requested (last_processed_batch s)"
  shows "owed L st1 \<le> owed L st + (\<Sum>b\<leftarrow>matured_run st s t. unbonded (HISTORY st1) b)"
proof (rule owed_release [OF assms(3)])
  show "stores_ok L st1" and "WAIT st1 = WAIT st"
    by (rule process_withdraw_rate_preserves [OF assms], simp)+
  show "distinct (matured_run st s t)" by (simp add: matured_run_def distinct_due_ids)
  obtain l' :: u64 where run: "\<And>b. b \<in> set (matured_run st s t) \<Longrightarrow> \<exists>h h'.
           kv_get (HISTORY st) (to_be_bytes b) = Some h \<and> kv_get (HISTORY st1) (to_be_bytes b) = Some h'
         \<and> settles_as (\<Sum>b\<leftarrow>matured_run st s t. unbonded (HISTORY st) b) (received_by s bal) h h'"
    and others: "\<And>k. k \<notin> to_be_bytes ` set (matured_run st s t) \<Longrightarrow>
           kv_get (HISTORY st1) k = kv_get (HISTORY st) k"
    and "unat l' = unat (last_processed_batch s) + length (matured_run st s t)"
    by (rule process_withdraw_rate_OkE [OF assms(1,2)]) blast
  show "kv_get (HISTORY st1) (to_be_bytes b) = kv_get (HISTORY st) (to_be_bytes b)"
    if "b \<notin> set (matured_run st s t)" for b using that by (intro others) auto
  show "\<exists>h h'. kv_get (HISTORY st) (to_be_bytes b) = Some h \<and> \<not> released h
      \<and> kv_get (HISTORY st1) (to_be_bytes b) = Some h' \<and> released h'
      \<and> total_waiting L st b = unat (hist_amount h')" if b: "b \<in> set (matured_run st s t)" for b
  proof -
    from run [OF b] obtain h h' where h: "kv_get (HISTORY st) (to_be_bytes b) = Some h"
      "kv_get (HISTORY st1) (to_be_bytes b) = Some h'" and sett: "released h'" "hist_amount h' = hist_amount h"
      by (auto dest: settles_as_fields)
    have "\<not> released h" using due_ids_matured [of b "HISTORY st" t] b h(1) by (auto simp: matured_run_def matured_def)
    with books_ok_entry [OF assms(4) h(1)] have "total_waiting L st b = unat (hist_amount h)"
      by (simp split: if_splits)
    with h sett \<open>\<not> released h\<close> show ?thesis by auto
  qed
qed

text \<open>After a fair release, the hub's balance covers everything that is owed.\<close>

lemma release_covered_by_balance:
  assumes "hub_inv L st" and "solvent L st" and "fair_chain st Q env WithdrawUnbonded"
    and "PARAMETERS st = Some p" and "u64_sub (block_seconds env) (unbonding_period p) = Ok t"
    and "query_balance Q (contract_address env) (underlying_coin_denom p) = Ok bal"
    and st1: "process_withdraw_rate L st t (coin_amount bal) = Ok st1"
  shows "stores_ok L st1 \<and> owed L st1 \<le> unat (coin_amount bal)"
proof -
  obtain s cb where s: "STATE st = Some s" and "CURRENT_BATCH st = Some cb"
    and stores: "stores_ok L st" and zero: "actual_unbonded_amount s = 0"
    and books: "books_ok L st (cb_id cb) (requested_with_fee cb) (last_processed_batch s)"
    using assms(1) by (rule hub_invE)
  let ?run = "matured_run st s t" and ?rec = "received_by s (coin_amount bal)"
  from assms(3-6) s have fair: "prev_hub_balance s \<le> coin_amount bal"
    "length ?run * ((\<Sum>b\<leftarrow>?run. unbonded (HISTORY st) b) - ?rec) \<le> E18"
    "\<forall>b \<in> set ?run. \<not> overcut (\<Sum>b\<leftarrow>?run. unbonded (HISTORY st) b)
       ((\<Sum>b\<leftarrow>?run. unbonded (HISTORY st) b) - ?rec) (unbonded (HISTORY st) b)"
    by (simp_all add: fair_chain_def Let_def)
  from releases_covered [OF st1 s refl fair(2)] fair(3)
  have new: "(\<Sum>b\<leftarrow>?run. unbonded (HISTORY st1) b) \<le> ?rec" by (simp add: filter_False)
  have rec: "?rec = unat (coin_amount bal) - unat (prev_hub_balance s)"
    using fair(1) zero by (simp add: received_by_def)
  have "owed L st \<le> unat (prev_hub_balance s)" using assms(2) s by (simp add: solvent_def)
  with process_owed [OF st1 s stores books] new rec fair(1)
  have "owed L st1 \<le> unat (coin_amount bal)" by (simp add: word_le_nat_alt)
  moreover have "stores_ok L st1" by (rule process_withdraw_rate_preserves [OF st1 s stores books])
  ultimately show ?thesis by simp
qed

lemma withdraw_solvent:
  assumes "hub_inv L st" and "solvent L st" and "execute_withdraw_unbonded L Q st env info = Ok (st', r)"
    and "fair_chain st Q env WithdrawUnbonded"
  shows "solvent L st'"
proof -
  let ?u = "to_vec_str L (sender info)"
  obtain p s where par: "PARAMETERS st = Some p" and "STATE st = Some s"
    using assms(1) by (rule hub_invE)
  obtain t bal st1 paid bs s1 where t: "unat (block_seconds env) = unat (unbonding_period p) + unat t"
    and bal: "query_balance Q (contract_address env) (underlying_coin_denom p) = Ok bal"
    and st1: "process_withdraw_rate L st t (coin_amount bal) = Ok st1"
    and s1: "STATE st1 = Some s1" and paid: "get_finished_amount L st1 (sender info) = Ok paid"
    and le: "paid \<le> coin_amount bal" and bs: "get_unbond_batches L st1 (sender info) = Ok bs"
    and st': "st' = st1\<lparr>WAIT := (WAIT st1)(?u := remove_batches L (WAIT st1 ?u) bs),
       STATE := Some (s1\<lparr>prev_hub_balance := coin_amount bal - paid\<rparr>)\<rparr>"
    by (rule execute_withdraw_unbonded_OkE [OF assms(3) par]) blast
  have "u64_sub (block_seconds env) (unbonding_period p) = Ok t"
    using t by (auto simp: u64_sub_eq_Ok word_le_nat_alt word_unat_eq_iff unat_sub)
  from release_covered_by_balance [OF assms(1,2,4) par this bal st1]
  have stores1: "stores_ok L st1" and owed1: "owed L st1 \<le> unat (coin_amount bal)" by simp_all
  have "owed L st' + finished_total L st1 ?u \<le> owed L st1"
    unfolding st' by (rule owed_withdraw [OF stores1 bs])
  with owed1 get_finished_amount_value [OF paid] le show ?thesis
    by (simp add: solvent_def st' unat_sub_le)
qed

text \<open>An unbond adds to an unreleased batch only: nothing more is owed.\<close>

lemma unbond_owed:
  assumes "hub_inv L st" and "execute_unbond L Q st env amount user = Ok (st', r)" and "STATE st = Some s"
  shows "owed L st' = owed L st \<and> (\<exists>s'. STATE st' = Some s' \<and> prev_hub_balance s' = prev_hub_balance s)"
proof -
  obtain p cb where par: "PARAMETERS st = Some p" and cb: "CURRENT_BATCH st = Some cb"
    and stores: "stores_ok L st"
    and books: "books_ok L st (cb_id cb) (requested_with_fee cb) (last_processed_batch s)"
    using assms(1,3) by (auto elim!: hub_invE)
  obtain m requested s' cb' where "m \<le> amount"
    and "unat requested = unat (requested_with_fee cb) + unat m"
    and s': "STATE st' = Some s'" "CURRENT_BATCH st' = Some cb'" "last_processed_batch s' = last_processed_batch s"
      "actual_unbonded_amount s' = actual_unbonded_amount s" "prev_hub_balance s' = prev_hub_balance s"
    and "PARAMETERS st' = PARAMETERS st" "VALIDATORS st' = VALIDATORS st"
    and wait: "\<And>a b. waiting L st' a b
           = waiting L st a b + (if a = to_vec_str L user \<and> b = cb_id cb then unat m else 0)"
    and other: "\<And>a. a \<noteq> to_vec_str L user \<Longrightarrow> WAIT st' a = WAIT st a"
    and "\<And>a. (\<forall>a. bucket_ok L (WAIT st a)) \<Longrightarrow> bucket_ok L (WAIT st' a)"
    and hist: "cb_id cb' = cb_id cb \<and> requested_with_fee cb' = requested \<and> HISTORY st' = HISTORY st
       \<or> unat (cb_id cb') = unat (cb_id cb) + 1 \<and> requested_with_fee cb' = 0
         \<and> (\<exists>h. hist_batch_id h = cb_id cb \<and> hist_amount h = requested \<and> \<not> released h
              \<and> HISTORY st' = kv_put (HISTORY st) (to_be_bytes (cb_id cb)) h)"
    by (rule unbond_outcome [OF assms(2) par cb assms(3)]) (rule that; assumption)
  have none: "kv_get (HISTORY st) (to_be_bytes (cb_id cb)) = None"
    using books by (auto simp: books_ok_def)
  have "claim_value (HISTORY st') b (waiting L st' a b) = claim_value (HISTORY st) b (waiting L st a b)" for a b
    using hist none by (cases "b = cb_id cb") (auto simp: claim_value_def wait)
  moreover have stores': "stores_ok L st'"
    using unbond_preserves [OF assms(1,2)] by (simp add: hub_inv_def)
  moreover have "waiting_users st' \<subseteq> insert (to_vec_str L user) (waiting_users st)"
    using other by (auto simp: waiting_users_def)
  moreover have "finite (insert (to_vec_str L user) (waiting_users st))" using stores by (simp add: stores_ok_def)
  ultimately have "owed L st' = owed L st" using stores by (simp add: owed_sum [of _ "insert _ _"] subset_insertI)
  with s' show ?thesis by blast
qed

lemma same_books_solvent:
  assumes "same_books st st'" and "solvent L st"
  shows "solvent L st'"
proof -
  have "finished_total L st' a = finished_total L st a" for a
    using assms(1) by (intro finished_total_cong) (simp_all add: same_books_def)
  moreover have "waiting_users st' = waiting_users st"
    using assms(1) by (simp add: same_books_def waiting_users_def)
  ultimately show ?thesis using assms by (auto simp: solvent_def owed_def same_books_def)
qed

lemma step_solvent:
  assumes "hub_inv L st" and "solvent L st" and "hub_step L fair_chain st st'"
  shows "solvent L st'"
  using assms(3)
proof (cases rule: hub_step.cases)
  case (message Q env info msg r)
  from assms(1) have par: "PARAMETERS st \<noteq> None" and white: "whitelist_ok L (VALIDATORS st)"
    by (auto simp: hub_inv_def stores_ok_def)
  consider (withdraw) "msg = WithdrawUnbonded" | (receive) m where "msg = Receive m"
    | (other) "msg \<noteq> WithdrawUnbonded" "\<And>m. msg \<noteq> Receive m" by blast
  then show ?thesis
  proof cases
    case withdraw
    with message have "execute_withdraw_unbonded L Q st env info = Ok (st', r)"
      by (auto simp: hub_execute_def)
    with assms(1,2) show ?thesis by (rule withdraw_solvent) (use message withdraw in simp)
  next
    case (receive m)
    with message have unb: "execute_unbond L Q st env (cw20_amount m) (cw20_sender m) = Ok (st', r)"
      by (blast intro: receive_unbonds)
    from assms(2) obtain s where "STATE st = Some s" "owed L st \<le> unat (prev_hub_balance s)"
      by (auto simp: solvent_def)
    with unbond_owed [OF assms(1) unb this(1)] show ?thesis by (auto simp: solvent_def)
  next
    case other
    from message_same_books [OF message(1) other par white] assms(2) show ?thesis
      by (blast intro: same_books_solvent)
  qed
next
  case (migration m r)
  then obtain c where "st' = st\<lparr>CONFIG := c\<rparr>" by (auto simp: hub_migrate_def migrate_config_def)
  then have "same_books st st'" by simp
  then show ?thesis using assms(2) by (rule same_books_solvent)
qed

lemma reachable_solvent: "hub_reachable L fair_chain st \<Longrightarrow> solvent L st"
proof (induction rule: hub_reachable.induct)
  case (start env info msg st r)
  then have "WAIT st = (\<lambda>_. [])" "\<exists>s. STATE st = Some s"
    by (auto simp: hub_instantiate_def Let_def empty_storage_def)
  then show ?case by (auto simp: solvent_def owed_def waiting_users_def)
next
  case (step st st')
  from reachable_inv [OF step.hyps(1)] step.IH step.hyps(2) show ?case by (rule step_solvent)
qed

end

section \<open>Properties\<close>

text \<open>
  C1: the hub stays solvent. In every state that is reachable while the chain takes no coins out of
  the hub's balance and slashes stay small, what all users together can withdraw from released
  batches is at most the balance recorded after the last withdrawal; so every single user's finished
  amount is covered as well.
\<close>

theorem hub_stays_solvent:
  assumes "cosmwasm L" and "hub_reachable L fair_chain st"
  shows "\<exists>s. STATE st = Some s
    \<and> (\<Sum>a \<in> waiting_users st. finished_total L st a) \<le> unat (prev_hub_balance s)
    \<and> (\<forall>a. finished_total L st a \<le> unat (prev_hub_balance s))"
proof -
  from cosmwasm.reachable_solvent [OF assms] obtain s where s: "STATE st = Some s"
    and le: "owed L st \<le> unat (prev_hub_balance s)" by (auto simp: solvent_def)
  have fin: "finite (waiting_users st)"
    using cosmwasm.reachable_inv [OF assms] by (auto simp: hub_inv_def stores_ok_def)
  with s le finished_total_le_owed [OF fin, of L] show ?thesis by (auto simp: owed_def intro: order_trans)
qed

lemma run_closed_fair: "fair_chain run_closed (sample_querier 400 400 600) (sample_env 300) WithdrawUnbonded"
proof -
  let ?s = "sample_state\<lparr>total_bond_amount := 400, last_unbonded_time := 200\<rparr>"
  have run: "matured_run run_closed ?s 250 = [1]"
    by (simp add: run_defs matured_run_def due_ids.simps matured_def kv_get_def)
  have st: "STATE run_closed = Some ?s" by (simp add: run_closed_def)
  have par: "unbonding_period p = 50" if "PARAMETERS run_closed = Some p" for p
    using that by (auto simp: run_closed_def run_request_def run_token_def run_start_def)
  have worth: "unbonded (HISTORY run_closed) 1 = 600" "received_by ?s 600 = 600"
    by (simp_all add: run_closed_def unbonded_def kv_get_def received_by_def sample_state_def)
  show ?thesis
    unfolding fair_chain_def Let_def
  proof (intro impI allI)
    fix p s t and bal :: coin
    assume p: "PARAMETERS run_closed = Some p" and s: "STATE run_closed = Some s"
      and t: "u64_sub (block_seconds (sample_env 300)) (unbonding_period p) = Ok t"
      and bal: "query_balance (sample_querier 400 400 600) (contract_address (sample_env 300)) (underlying_coin_denom p) = Ok bal"
    from s st have s': "s = ?s" by simp
    from t par [OF p] have t': "t = 250" by (simp add: u64_sub_def)
    from bal have bal': "coin_amount bal = 600" by auto
    have prev: "prev_hub_balance ?s = 0" by (simp add: sample_state_def)
    show "prev_hub_balance s \<le> coin_amount bal
      \<and> length (matured_run run_closed s t) * ((\<Sum>b\<leftarrow>matured_run run_closed s t. unbonded (HISTORY run_closed) b)
          - received_by s (coin_amount bal)) \<le> E18
      \<and> (\<forall>b \<in> set (matured_run run_closed s t). \<not> overcut
          (\<Sum>b\<leftarrow>matured_run run_closed s t. unbonded (HISTORY run_closed) b)
          ((\<Sum>b\<leftarrow>matured_run run_closed s t. unbonded (HISTORY run_closed) b) - received_by s (coin_amount bal))
          (unbonded (HISTORY run_closed) b))"
      unfolding s' t' bal' run by (simp only: worth prev list.map sum_list.Cons sum_list.Nil list.set)
        (simp add: overcut_def slash_cut_def slash_share_def worth)
  qed
qed

theorem hub_stays_solvent_witness:
  "\<exists>st r s. hub_execute ref_lib (sample_querier 400 400 600) run_closed (sample_env 300)
      \<lparr>sender = ''alice'', funds = []\<rparr> WithdrawUnbonded = Ok (st, r)
    \<and> STATE st = Some s \<and> unat (prev_hub_balance s) = 300
    \<and> finished_total ref_lib st (to_vec_str ref_lib ''bob'') \<le> 300"
proof -
  let ?Q = "sample_querier 400 400 600" and ?env = "sample_env 300"
  obtain st r s where ok: "hub_execute ref_lib ?Q run_closed ?env \<lparr>sender = ''alice'', funds = []\<rparr>
      WithdrawUnbonded = Ok (st, r)" and s: "STATE st = Some s" "unat (prev_hub_balance s) = 300"
    by (simp add: eval_defs Let_def run_defs to_be_bytes_less_iff o_def)
  have "hub_step ref_lib fair_chain run_closed st" using ok run_closed_fair by (rule hub_step.message)
  moreover have "hub_reachable ref_lib fair_chain run_closed"
    by (rule run_closed_reached(2)) (simp add: fair_chain_def)
  ultimately have "hub_reachable ref_lib fair_chain st" by (blast intro: hub_reachable.step)
  from hub_stays_solvent [OF cosmwasm_ref_lib this] ok s show ?thesis by auto
qed

end
