(* ===== verification/HubLedger.thy ===== *)
theory HubLedger
  imports HubSolvency
begin

text \<open>
  An abstract specification of the unbonding lifecycle, and the proof that the hub implements it. The
  ledger forgets keys, encodings, delegations and exchange rates; it knows who has how much pending in
  which batch, what a batch pays per token, and, as history variables, what everybody ever asked for
  and was ever paid. Its four moves are a request, the end of an epoch, a release and a collection.
  Every message of the hub is a short sequence of these moves, and the ledger's invariant gives the
  lifetime account of every user.
\<close>

section \<open>Simulation\<close>

text \<open>A step relation that another one simulates: each step is a sequence of steps of the other.\<close>

locale simulation =
  fixes cstep :: "'c \<Rightarrow> 'c \<Rightarrow> bool" and astep :: "'a \<Rightarrow> 'a \<Rightarrow> bool" and rel :: "'c \<Rightarrow> 'a \<Rightarrow> bool"
  assumes simulates: "rel c a \<Longrightarrow> cstep c c' \<Longrightarrow> \<exists>a'. astep\<^sup>*\<^sup>* a a' \<and> rel c' a'"
begin

lemma steps_simulated:
  assumes "rel c a" and "cstep\<^sup>*\<^sup>* c c'"
  shows "\<exists>a'. astep\<^sup>*\<^sup>* a a' \<and> rel c' a'"
  using assms(2)
proof (induction rule: rtranclp_induct)
  case base
  show ?case using assms(1) by blast
next
  case (step c1 c2)
  then obtain a1 where "astep\<^sup>*\<^sup>* a a1" and "rel c1 a1" by blast
  with simulates [OF this(2) step.hyps(2)] show ?case by (blast intro: rtranclp_trans)
qed

end

section \<open>Specification\<close>

record ledger =
  open_batch :: u64
    \<comment> \<open>the batch that takes requests\<close>
  settled_upto :: u64
    \<comment> \<open>the batches up to this one are released\<close>
  volume :: "u64 \<Rightarrow> nat"
    \<comment> \<open>tokens requested in a batch\<close>
  rate :: "u64 \<Rightarrow> nat"
    \<comment> \<open>what a batch pays per token, in units of \<open>10 ^ -18\<close>\<close>
  pending :: "byte list \<Rightarrow> u64 \<Rightarrow> nat"
  asked :: "byte list \<Rightarrow> u64 \<Rightarrow> nat"
  paid :: "byte list \<Rightarrow> nat"

definition empty_ledger :: ledger where
  "empty_ledger = \<lparr>open_batch = 1, settled_upto = 0, volume = (\<lambda>_. 0), rate = (\<lambda>_. 0),
     pending = (\<lambda>_ _. 0), asked = (\<lambda>_ _. 0), paid = (\<lambda>_. 0)\<rparr>"

text \<open>A function with one more at one place.\<close>

definition bump :: "('a \<Rightarrow> nat) \<Rightarrow> 'a \<Rightarrow> nat \<Rightarrow> 'a \<Rightarrow> nat" where
  "bump f x m = f(x := f x + m)"

definition ledger_request :: "byte list \<Rightarrow> nat \<Rightarrow> ledger \<Rightarrow> ledger" where
  "ledger_request u m lg =
     lg\<lparr>volume := bump (volume lg) (open_batch lg) m,
        pending := (pending lg)(u := bump (pending lg u) (open_batch lg) m),
        asked := (asked lg)(u := bump (asked lg u) (open_batch lg) m)\<rparr>"

definition ledger_close :: "nat \<Rightarrow> ledger \<Rightarrow> ledger" where
  "ledger_close q lg = lg\<lparr>rate := (rate lg)(open_batch lg := q), open_batch := open_batch lg + 1\<rparr>"

text \<open>
  A release settles the batches after the settled ones up to \<open>l\<close>: their worth is matched against what
  arrived, as theory Settlement specifies.
\<close>

definition worth :: "ledger \<Rightarrow> u64 \<Rightarrow> nat" where
  "worth lg b = volume lg b * rate lg b div E18"

definition ledger_release :: "u64 \<Rightarrow> nat \<Rightarrow> ledger \<Rightarrow> ledger" where
  "ledger_release l got lg =
     (let run = {settled_upto lg <.. l};
          claims = (\<Sum>b \<in> run. worth lg b)
      in lg\<lparr>settled_upto := l,
            rate := (\<lambda>b. if b \<in> run then settled claims got (worth lg b) * E18 div volume lg b
                         else rate lg b)\<rparr>)"

definition ledger_value :: "ledger \<Rightarrow> byte list \<Rightarrow> nat" where
  "ledger_value lg u = (\<Sum>b \<in> {..settled_upto lg}. pending lg u b * rate lg b div E18)"

definition ledger_collect :: "byte list \<Rightarrow> ledger \<Rightarrow> ledger" where
  "ledger_collect u lg =
     lg\<lparr>pending := (pending lg)(u := (\<lambda>b. if b \<le> settled_upto lg then 0 else pending lg u b)),
        paid := bump (paid lg) u (ledger_value lg u)\<rparr>"

inductive ledger_step :: "ledger \<Rightarrow> ledger \<Rightarrow> bool" where
  request: "ledger_step lg (ledger_request u m lg)"
| close: "unat (open_batch lg) + 1 < 2 ^ 64 \<Longrightarrow> ledger_step lg (ledger_close q lg)"
| release: "settled_upto lg \<le> l \<Longrightarrow> l < open_batch lg \<Longrightarrow> ledger_step lg (ledger_release l got lg)"
| collect: "ledger_step lg (ledger_collect u lg)"

definition ledger_reachable :: "ledger \<Rightarrow> bool" where
  "ledger_reachable lg = ledger_step\<^sup>*\<^sup>* empty_ledger lg"

section \<open>Invariant of the specification\<close>

text \<open>
  Until its batch is settled a request is pending in full; afterwards it is either still pending in
  full or collected, and the collected ones, each at the rate of its batch, are what was paid.
\<close>

definition ledger_collected :: "ledger \<Rightarrow> byte list \<Rightarrow> nat" where
  "ledger_collected lg u = (\<Sum>b \<in> {..settled_upto lg}. (asked lg u b - pending lg u b) * rate lg b div E18)"

definition ledger_inv :: "ledger \<Rightarrow> bool" where
  "ledger_inv lg =
     (settled_upto lg < open_batch lg
      \<and> (\<forall>u b. open_batch lg < b \<longrightarrow> asked lg u b = 0)
      \<and> (\<forall>u b. pending lg u b = asked lg u b \<or> b \<le> settled_upto lg \<and> pending lg u b = 0)
      \<and> paid lg = ledger_collected lg)"

lemma ledger_invD:
  assumes "ledger_inv lg"
  shows "settled_upto lg < open_batch lg" and "open_batch lg < b \<Longrightarrow> asked lg u b = 0"
    and "pending lg u b = asked lg u b \<or> b \<le> settled_upto lg \<and> pending lg u b = 0"
    and "paid lg = ledger_collected lg"
    and "\<not> b \<le> settled_upto lg \<Longrightarrow> pending lg u b = asked lg u b"
  using assms by (auto simp: ledger_inv_def)

lemma ledger_collected_cong:
  assumes "settled_upto lg' = settled_upto lg"
    and "\<And>u b. b \<le> settled_upto lg \<Longrightarrow> asked lg' u b = asked lg u b \<and> pending lg' u b = pending lg u b
           \<and> rate lg' b = rate lg b"
  shows "ledger_collected lg' = ledger_collected lg"
  using assms by (simp add: ledger_collected_def fun_eq_iff)

lemma ledger_inv_empty: "ledger_inv empty_ledger"
  by (simp add: ledger_inv_def empty_ledger_def ledger_collected_def fun_eq_iff)

lemma ledger_inv_request:
  assumes "ledger_inv lg"
  shows "ledger_inv (ledger_request u m lg)"
proof -
  have "b \<noteq> open_batch lg" if "b \<le> settled_upto lg" for b
    using ledger_invD(1) [OF assms] that by auto
  then have "ledger_collected (ledger_request u m lg) = ledger_collected lg"
    by (intro ledger_collected_cong) (auto simp: ledger_request_def bump_def)
  moreover have "pending lg u (open_batch lg) = asked lg u (open_batch lg)"
    using ledger_invD(1) [OF assms] by (intro ledger_invD(5) [OF assms]) simp
  ultimately show ?thesis using assms by (auto simp: ledger_inv_def ledger_request_def bump_def)
qed

lemma ledger_inv_close:
  assumes "ledger_inv lg" and "unat (open_batch lg) + 1 < 2 ^ 64"
  shows "ledger_inv (ledger_close q lg)"
proof -
  have succ: "unat (open_batch lg + 1) = unat (open_batch lg) + 1"
    using assms(2) by (simp add: unat_add_no_overflow)
  have "b \<noteq> open_batch lg" if "b \<le> settled_upto lg" for b
    using ledger_invD(1) [OF assms(1)] that by auto
  then have "ledger_collected (ledger_close q lg) = ledger_collected lg"
    by (intro ledger_collected_cong) (auto simp: ledger_close_def)
  moreover have "open_batch lg < open_batch lg + 1" using succ by (simp add: word_less_nat_alt)
  ultimately show ?thesis using assms(1) by (auto simp: ledger_inv_def ledger_close_def intro: less_trans)
qed

lemma ledger_inv_release:
  assumes "ledger_inv lg" and "settled_upto lg \<le> l" and "l < open_batch lg"
  shows "ledger_inv (ledger_release l got lg)"
proof -
  let ?lg = "ledger_release l got lg" and ?p = "settled_upto lg"
  have fields: "open_batch ?lg = open_batch lg" "settled_upto ?lg = l" "asked ?lg = asked lg"
    "pending ?lg = pending lg" "paid ?lg = paid lg"
    by (simp_all add: ledger_release_def Let_def)
  have old: "rate ?lg b = rate lg b" if "b \<le> ?p" for b
    using that by (auto simp: ledger_release_def Let_def)
  have "ledger_collected ?lg u = ledger_collected lg u" for u
    unfolding ledger_collected_def fields
    by (rule sum.mono_neutral_cong_right) (use assms old ledger_invD(5) [OF assms(1)] in auto)
  moreover have "pending lg u b = asked lg u b \<or> b \<le> l \<and> pending lg u b = 0" for u b
    using ledger_invD(3) [OF assms(1), of u b] assms(2) by auto
  ultimately show ?thesis using assms by (simp add: ledger_inv_def fields fun_eq_iff)
qed

lemma ledger_inv_collect:
  assumes "ledger_inv lg"
  shows "ledger_inv (ledger_collect u lg)"
proof -
  let ?lg = "ledger_collect u lg"
  have "(asked lg u b - pending lg u b) * rate lg b div E18 + pending lg u b * rate lg b div E18
      = asked lg u b * rate lg b div E18" for b
    using ledger_invD(3) [OF assms, of u b] by auto
  then have "ledger_collected lg u + ledger_value lg u
      = (\<Sum>b \<in> {..settled_upto lg}. asked lg u b * rate lg b div E18)"
    by (simp add: ledger_collected_def ledger_value_def flip: sum.distrib)
  then have "ledger_collected ?lg = bump (ledger_collected lg) u (ledger_value lg u)"
    by (simp add: ledger_collected_def ledger_collect_def bump_def fun_eq_iff)
  with assms show ?thesis by (auto simp: ledger_inv_def ledger_collect_def)
qed

lemma ledger_inv_step: "ledger_step lg lg' \<Longrightarrow> ledger_inv lg \<Longrightarrow> ledger_inv lg'"
  by (induction rule: ledger_step.induct)
    (simp_all add: ledger_inv_request ledger_inv_close ledger_inv_release ledger_inv_collect)

lemma ledger_reachable_inv: "ledger_reachable lg \<Longrightarrow> ledger_inv lg"
  unfolding ledger_reachable_def
  by (induction rule: rtranclp_induct) (auto intro: ledger_inv_empty ledger_inv_step)

text \<open>The terms of a settled batch are final, and nobody's pending amount in it grows.\<close>

definition final_at :: "u64 \<Rightarrow> ledger \<Rightarrow> ledger \<Rightarrow> bool" where
  "final_at b lg lg' =
     (settled_upto lg \<le> settled_upto lg' \<and> volume lg' b = volume lg b \<and> rate lg' b = rate lg b
      \<and> (\<forall>u. pending lg' u b \<le> pending lg u b))"

lemma ledger_step_final:
  assumes "ledger_step lg lg'" and "settled_upto lg < open_batch lg" and "b \<le> settled_upto lg"
  shows "settled_upto lg' < open_batch lg' \<and> final_at b lg lg'"
  using assms
proof (induction rule: ledger_step.induct)
  case (close lg q)
  then have "open_batch lg < open_batch lg + 1"
    by (simp add: word_less_nat_alt unat_add_no_overflow)
  with close show ?case by (auto simp: ledger_close_def final_at_def intro: less_trans)
qed (auto simp: ledger_request_def ledger_release_def ledger_collect_def bump_def final_at_def Let_def)

lemma ledger_steps_final:
  assumes "ledger_step\<^sup>*\<^sup>* lg lg'" and "settled_upto lg < open_batch lg" and "b \<le> settled_upto lg"
  shows "settled_upto lg' < open_batch lg' \<and> final_at b lg lg'"
  using assms(1)
proof (induction rule: rtranclp_induct)
  case (step lg1 lg2)
  then have one: "settled_upto lg1 < open_batch lg1" "final_at b lg lg1" by simp_all
  then have "b \<le> settled_upto lg1" using assms(3) by (auto simp: final_at_def)
  from ledger_step_final [OF step.hyps(2) one(1) this] one(2) show ?case
    by (auto simp: final_at_def intro: order_trans)
qed (use assms in \<open>simp add: final_at_def\<close>)

section \<open>Abstraction\<close>

text \<open>The rate and the volume of a batch, as the storage has them.\<close>

definition filed_rate :: "hub_storage \<Rightarrow> u64 \<Rightarrow> nat" where
  "filed_rate st b =
     (case kv_get (HISTORY st) (to_be_bytes b) of Some h \<Rightarrow> units (withdraw_rate h) | None \<Rightarrow> 0)"

definition batch_volume :: "hub_storage \<Rightarrow> u64 \<Rightarrow> nat" where
  "batch_volume st b =
     (case kv_get (HISTORY st) (to_be_bytes b) of
        Some h \<Rightarrow> unat (hist_amount h)
      | None \<Rightarrow> (case CURRENT_BATCH st of
           Some cb \<Rightarrow> if b = cb_id cb then unat (requested_with_fee cb) else 0
         | None \<Rightarrow> 0))"

definition ledger_of ::
  "cw_lib \<Rightarrow> hub_storage \<Rightarrow> (byte list \<Rightarrow> u64 \<Rightarrow> nat) \<Rightarrow> (byte list \<Rightarrow> nat) \<Rightarrow> ledger" where
  "ledger_of L st ask pay =
     \<lparr>open_batch = (case CURRENT_BATCH st of Some cb \<Rightarrow> cb_id cb | None \<Rightarrow> 0),
      settled_upto = (case STATE st of Some s \<Rightarrow> last_processed_batch s | None \<Rightarrow> 0),
      volume = batch_volume st, rate = filed_rate st, pending = waiting L st, asked = ask, paid = pay\<rparr>"

lemma ledger_of_sel [simp]:
  "CURRENT_BATCH st = Some cb \<Longrightarrow> open_batch (ledger_of L st ask pay) = cb_id cb"
  "STATE st = Some s \<Longrightarrow> settled_upto (ledger_of L st ask pay) = last_processed_batch s"
  "volume (ledger_of L st ask pay) = batch_volume st" "rate (ledger_of L st ask pay) = filed_rate st"
  "pending (ledger_of L st ask pay) = waiting L st" "asked (ledger_of L st ask pay) = ask"
  "paid (ledger_of L st ask pay) = pay"
  by (simp_all add: ledger_of_def)

text \<open>
  The history variables along a message: what the sender's entries grew by was asked for, and what a
  withdrawal sends was paid.
\<close>

definition asked_after ::
  "cw_lib \<Rightarrow> hub_storage \<Rightarrow> hub_storage \<Rightarrow> (byte list \<Rightarrow> u64 \<Rightarrow> nat) \<Rightarrow> byte list \<Rightarrow> u64 \<Rightarrow> nat" where
  "asked_after L st st' ask = (\<lambda>a b. ask a b + (waiting L st' a b - waiting L st a b))"

primrec sent_to :: "cw_lib \<Rightarrow> byte list \<Rightarrow> cosmos_msg list \<Rightarrow> nat" where
  "sent_to L a [] = 0"
| "sent_to L a (m # ms) =
     (case m of BankSend to cs \<Rightarrow> if to_vec_str L to = a then \<Sum>c\<leftarrow>cs. unat (coin_amount c) else 0
      | _ \<Rightarrow> 0) + sent_to L a ms"

definition paid_after ::
  "cw_lib \<Rightarrow> hub_execute_msg \<Rightarrow> response \<Rightarrow> (byte list \<Rightarrow> nat) \<Rightarrow> byte list \<Rightarrow> nat" where
  "paid_after L msg r pay = (\<lambda>a. pay a + (if msg = WithdrawUnbonded then sent_to L a (messages r) else 0))"

lemma asked_after_same: "waiting L st' = waiting L st \<Longrightarrow> asked_after L st st' ask = ask"
  by (simp add: asked_after_def fun_eq_iff)

lemma hub_steps_any:
  assumes "(hub_step L G)\<^sup>*\<^sup>* st st'"
  shows "(hub_step L (\<lambda>_ _ _ _. True))\<^sup>*\<^sup>* st st'"
proof -
  have "hub_step L G \<le> hub_step L (\<lambda>_ _ _ _. True)"
    by (auto elim!: hub_stepE intro: hub_step.intros)
  with assms show ?thesis by (blast dest: rtranclp_mono)
qed

lemma filed_same:
  assumes "kv_get (HISTORY st') (to_be_bytes b) = kv_get (HISTORY st) (to_be_bytes b)"
    and "CURRENT_BATCH st' = CURRENT_BATCH st"
  shows "batch_volume st' b = batch_volume st b \<and> filed_rate st' b = filed_rate st b"
  using assms by (simp add: batch_volume_def filed_rate_def cong: option.case_cong)

lemma settles_as_filed:
  assumes "kv_get (HISTORY st) (to_be_bytes b) = Some h" and "kv_get (HISTORY st') (to_be_bytes b) = Some h'"
    and "settles_as n r h h'"
  shows "batch_volume st' b = batch_volume st b
    \<and> filed_rate st' b = settled n r (unbonded (HISTORY st) b) * E18 div batch_volume st b"
  using assms settles_as_fields [OF assms(3)]
  by (simp add: batch_volume_def filed_rate_def unbonded_claimed_by settles_as_def)

lemma same_books_ledger:
  assumes "same_books st st'" and "STATE st \<noteq> None"
  shows "ledger_of L st' (asked_after L st st' ask) pay = ledger_of L st ask pay"
proof -
  from assms(1) have "waiting L st' = waiting L st" by (simp add: same_books_def waiting_def fun_eq_iff)
  moreover have "batch_volume st' b = batch_volume st b \<and> filed_rate st' b = filed_rate st b" for b
    using assms(1) by (intro filed_same) (simp_all add: same_books_def)
  ultimately show ?thesis using assms
    by (auto simp: same_books_def ledger_of_def asked_after_same fun_eq_iff)
qed

text \<open>The moves that a message stands for: a withdrawal releases and collects, a token transfer requests and
  possibly closes the batch, and nothing else moves the ledger.\<close>

definition refines_message ::
  "cw_lib \<Rightarrow> message_info \<Rightarrow> hub_execute_msg \<Rightarrow> ledger \<Rightarrow> ledger \<Rightarrow> bool" where
  "refines_message L info msg lg lg' =
     (case msg of
        WithdrawUnbonded \<Rightarrow> (\<exists>l got. settled_upto lg \<le> l \<and> l < open_batch lg
          \<and> lg' = ledger_collect (to_vec_str L (sender info)) (ledger_release l got lg))
      | Receive m \<Rightarrow> (\<exists>n q. n \<le> unat (cw20_amount m)
          \<and> (lg' = ledger_request (to_vec_str L (cw20_sender m)) n lg
             \<or> unat (open_batch lg) + 1 < 2 ^ 64
               \<and> lg' = ledger_close q (ledger_request (to_vec_str L (cw20_sender m)) n lg)))
      | _ \<Rightarrow> lg' = lg)"

lemma refines_message_steps:
  assumes "refines_message L info msg lg lg'"
  shows "ledger_step\<^sup>*\<^sup>* lg lg'"
proof -
  have "ledger_step\<^sup>*\<^sup>* lg (ledger_request u n lg)" for u n
    by (rule r_into_rtranclp) (rule ledger_step.request)
  moreover have "ledger_step\<^sup>*\<^sup>* lg (ledger_close q (ledger_request u n lg))"
    if "unat (open_batch lg) + 1 < 2 ^ 64" for q u n
    using ledger_step.request by (rule converse_rtranclp_into_rtranclp)
      (rule r_into_rtranclp, rule ledger_step.close, use that in \<open>simp add: ledger_request_def\<close>)
  moreover have "ledger_step\<^sup>*\<^sup>* lg (ledger_collect u (ledger_release l got lg))"
    if "settled_upto lg \<le> l" "l < open_batch lg" for u l got
    using ledger_step.release [OF that] by (rule converse_rtranclp_into_rtranclp)
      (rule r_into_rtranclp, rule ledger_step.collect)
  ultimately show ?thesis using assms by (cases msg) (auto simp: refines_message_def)
qed

text \<open>
  A run of the hub from its instantiation, whatever the messages and the answers of the chain, with the
  two history variables: what each user asked for in each batch, and what withdrawals sent to each user.
\<close>

inductive hub_run ::
  "cw_lib \<Rightarrow> hub_storage \<Rightarrow> (byte list \<Rightarrow> u64 \<Rightarrow> nat) \<Rightarrow> (byte list \<Rightarrow> nat) \<Rightarrow> bool" for L where
  start: "hub_instantiate L empty_storage env info im = Ok (st, r) \<Longrightarrow> hub_run L st (\<lambda>_ _. 0) (\<lambda>_. 0)"
| message: "hub_run L st ask pay \<Longrightarrow> hub_execute L Q st env info msg = Ok (st', r) \<Longrightarrow>
    hub_run L st' (asked_after L st st' ask) (paid_after L msg r pay)"
| migration: "hub_run L st ask pay \<Longrightarrow> hub_migrate L st mm = Ok (st', r) \<Longrightarrow> hub_run L st' ask pay"

context cosmwasm
begin

lemma unbond_refines:
  assumes "hub_inv L st" and "execute_unbond L Q st env amount user = Ok (st', r)"
  obtains m q where "m \<le> unat amount"
    and "ledger_of L st' (asked_after L st st' ask) pay
           = ledger_request (to_vec_str L user) m (ledger_of L st ask pay)
       \<or> unat (open_batch (ledger_of L st ask pay)) + 1 < 2 ^ 64
         \<and> ledger_of L st' (asked_after L st st' ask) pay
           = ledger_close q (ledger_request (to_vec_str L user) m (ledger_of L st ask pay))"
proof -
  let ?u = "to_vec_str L user" and ?lg = "ledger_of L st ask pay"
  obtain p s cb where par: "PARAMETERS st = Some p" and s: "STATE st = Some s"
    and cb: "CURRENT_BATCH st = Some cb"
    and books: "books_ok L st (cb_id cb) (requested_with_fee cb) (last_processed_batch s)"
    using assms(1) by (rule hub_invE)
  obtain m requested s' cb' where le: "m \<le> amount"
    and req: "unat requested = unat (requested_with_fee cb) + unat m"
    and s': "STATE st' = Some s'" "CURRENT_BATCH st' = Some cb'" "last_processed_batch s' = last_processed_batch s"
      "actual_unbonded_amount s' = actual_unbonded_amount s" "prev_hub_balance s' = prev_hub_balance s"
    and "PARAMETERS st' = PARAMETERS st" "VALIDATORS st' = VALIDATORS st"
    and wait: "\<And>a b. waiting L st' a b
           = waiting L st a b + (if a = to_vec_str L user \<and> b = cb_id cb then unat m else 0)"
    and "\<And>a. a \<noteq> to_vec_str L user \<Longrightarrow> WAIT st' a = WAIT st a"
    and "\<And>a. (\<forall>a. bucket_ok L (WAIT st a)) \<Longrightarrow> bucket_ok L (WAIT st' a)"
    and hist: "cb_id cb' = cb_id cb \<and> requested_with_fee cb' = requested \<and> HISTORY st' = HISTORY st
       \<or> unat (cb_id cb') = unat (cb_id cb) + 1 \<and> requested_with_fee cb' = 0
         \<and> (\<exists>h. hist_batch_id h = cb_id cb \<and> hist_amount h = requested \<and> \<not> released h
              \<and> HISTORY st' = kv_put (HISTORY st) (to_be_bytes (cb_id cb)) h)"
    by (rule unbond_outcome [OF assms(2) par cb s]) (rule that; assumption)
  have none: "kv_get (HISTORY st) (to_be_bytes (cb_id cb)) = None" using books by (auto simp: books_ok_def)
  have le': "unat m \<le> unat amount" using le by (simp add: word_le_nat_alt)
  from hist show thesis
  proof (elim disjE conjE exE)
    assume "cb_id cb' = cb_id cb" "requested_with_fee cb' = requested" "HISTORY st' = HISTORY st"
    then have "ledger_of L st' (asked_after L st st' ask) pay = ledger_request ?u (unat m) ?lg"
      using none by (auto simp: ledger_request_def bump_def ledger_of_def cb s s' wait req asked_after_def
          batch_volume_def filed_rate_def fun_eq_iff split: option.splits)
    with le' show thesis by (intro that) blast+
  next
    fix h assume h: "unat (cb_id cb') = unat (cb_id cb) + 1" "requested_with_fee cb' = 0"
      "hist_amount h = requested" "HISTORY st' = kv_put (HISTORY st) (to_be_bytes (cb_id cb)) h"
    have succ: "cb_id cb' = cb_id cb + 1" "unat (cb_id cb) + 1 < 2 ^ 64"
      using h(1) unat_lt_64 [of "cb_id cb'"] by (simp_all add: word_unat_eq_iff unat_add_no_overflow)
    have "ledger_of L st' (asked_after L st st' ask) pay
        = ledger_close (units (withdraw_rate h)) (ledger_request ?u (unat m) ?lg)"
      using none by (auto simp: ledger_close_def ledger_request_def bump_def ledger_of_def cb s s' succ h req wait
          asked_after_def batch_volume_def filed_rate_def fun_eq_iff split: option.splits)
    with le' succ show thesis
      by (intro that [of "unat m" "units (withdraw_rate h)"]) (simp_all add: cb)
  qed
qed

text \<open>Processing the withdraw rates is a release, of what arrived since the last withdrawal.\<close>

lemma process_refines:
  assumes "process_withdraw_rate L st t bal = Ok st1" and "STATE st = Some s"
    and "books_ok L st cur requested (last_processed_batch s)"
  obtains l where "ledger_of L st1 ask pay = ledger_release l (received_by s bal) (ledger_of L st ask pay)"
    and "last_processed_batch s \<le> l" and "STATE st1 = Some (s\<lparr>last_processed_batch := l, actual_unbonded_amount := 0\<rparr>)"
proof -
  let ?run = "matured_run st s t" and ?lg = "ledger_of L st ask pay"
  let ?claims = "\<Sum>b\<leftarrow>?run. unbonded (HISTORY st) b"
  obtain l where frame: "st1 = st\<lparr>HISTORY := HISTORY st1,
           STATE := Some (s\<lparr>last_processed_batch := l, actual_unbonded_amount := 0\<rparr>)\<rparr>"
    and l: "unat l = unat (last_processed_batch s) + length ?run"
    and run: "\<And>b. b \<in> set ?run \<Longrightarrow> \<exists>h h'.
           kv_get (HISTORY st) (to_be_bytes b) = Some h \<and> kv_get (HISTORY st1) (to_be_bytes b) = Some h'
         \<and> settles_as ?claims (received_by s bal) h h'"
    and others: "\<And>k. k \<notin> to_be_bytes ` set ?run \<Longrightarrow> kv_get (HISTORY st1) k = kv_get (HISTORY st) k"
    by (rule process_withdraw_rate_OkE [OF assms(1,2)]) blast
  have same: "waiting L st1 = waiting L st" "CURRENT_BATCH st1 = CURRENT_BATCH st"
    "STATE st1 = Some (s\<lparr>last_processed_batch := l, actual_unbonded_amount := 0\<rparr>)"
    by (subst frame, simp add: waiting_def fun_eq_iff)+
  have "last_processed_batch s < cur" using assms(3) by (simp add: books_ok_def)
  then have ids: "set ?run = {last_processed_batch s <.. l}"
    using set_due_ids_after [OF _ l [unfolded matured_run_def]] by (auto simp: matured_run_def)
  have worth: "worth ?lg b = unbonded (HISTORY st) b" if "b \<in> set ?run" for b
    using run [OF that] by (auto simp: worth_def batch_volume_def filed_rate_def unbonded_def)
  then have claims: "(\<Sum>b \<in> set ?run. worth ?lg b) = ?claims"
    by (simp add: sum_list_distinct_conv_sum_set distinct_due_ids matured_run_def)
  have "batch_volume st1 b = batch_volume st b \<and> filed_rate st1 b = (if b \<in> set ?run
      then settled ?claims (received_by s bal) (worth ?lg b) * E18 div batch_volume st b
      else filed_rate st b)" for b
  proof (cases "b \<in> set ?run")
    case True
    with run obtain h h' where h: "kv_get (HISTORY st) (to_be_bytes b) = Some h"
      "kv_get (HISTORY st1) (to_be_bytes b) = Some h'" "settles_as ?claims (received_by s bal) h h'" by blast
    from settles_as_filed [OF this] True worth show ?thesis by simp
  next
    case False
    then have "kv_get (HISTORY st1) (to_be_bytes b) = kv_get (HISTORY st) (to_be_bytes b)"
      by (intro others) auto
    from filed_same [OF this same(2)] False show ?thesis by simp
  qed
  then have vol: "batch_volume st1 b = batch_volume st b" and rate: "filed_rate st1 b = (if b \<in> set ?run
      then settled ?claims (received_by s bal) (worth ?lg b) * E18 div batch_volume st b
      else filed_rate st b)" for b by blast+
  have run': "{settled_upto ?lg <.. l} = set ?run" using assms(2) by (simp add: ids)
  have "ledger_of L st1 ask pay = ledger_release l (received_by s bal) ?lg"
    unfolding ledger_release_def Let_def run' claims by (simp add: ledger_of_def same vol rate fun_eq_iff)
  moreover have "last_processed_batch s \<le> l" using l by (simp add: word_le_nat_alt)
  ultimately show thesis using same(3) by (rule that)
qed

text \<open>Collecting: the released batches are the settled ones, and the finished amount is their value.\<close>

lemma released_settled:
  assumes "books_ok L st cur requested processed"
  shows "released_batch st b \<longleftrightarrow> 0 < b \<and> b \<le> processed"
proof -
  have "processed < cur" and "kv_get (HISTORY st) (to_be_bytes b) \<noteq> None \<longleftrightarrow> 0 < b \<and> b < cur"
    using assms by (simp_all add: books_ok_def)
  then show ?thesis using books_ok_entry [OF assms, of b]
    by (auto simp: released_batch_def split: if_splits)
qed

lemma finished_total_ledger:
  assumes "stores_ok L st" and "STATE st = Some s"
    and "books_ok L st cur requested (last_processed_batch s)"
  shows "finished_total L st u = ledger_value (ledger_of L st ask pay) u"
proof -
  have "bucket_ok L (WAIT st u)" using assms(1) by (simp add: stores_ok_def)
  note finished_total_sum [OF this]
  also have "(\<Sum>b \<in> UNIV. claim_value (HISTORY st) b (waiting L st u b))
      = (\<Sum>b \<in> {..last_processed_batch s}. waiting L st u b * filed_rate st b div E18)"
  proof (rule sum.mono_neutral_cong_right)
    show "\<forall>b \<in> UNIV - {..last_processed_batch s}. claim_value (HISTORY st) b (waiting L st u b) = 0"
      using released_settled [OF assms(3)]
      by (auto simp: claim_value_def released_batch_def split: option.splits)
    show "claim_value (HISTORY st) b (waiting L st u b) = waiting L st u b * filed_rate st b div E18"
      if "b \<in> {..last_processed_batch s}" for b
      using that books_ok_entry [OF assms(3), of b]
      by (auto simp: claim_value_def filed_rate_def split: option.splits)
  qed simp_all
  finally show ?thesis using assms(2) by (simp add: ledger_value_def)
qed

lemma withdraw_refines:
  assumes "hub_inv L st" and "execute_withdraw_unbonded L Q st env info = Ok (st', r)"
  obtains l got where "settled_upto (ledger_of L st ask pay) \<le> l" and "l < open_batch (ledger_of L st ask pay)"
    and "ledger_of L st' (asked_after L st st' ask) (paid_after L WithdrawUnbonded r pay)
       = ledger_collect (to_vec_str L (sender info)) (ledger_release l got (ledger_of L st ask pay))"
proof -
  let ?u = "to_vec_str L (sender info)"
  obtain p s cb where par: "PARAMETERS st = Some p" and s: "STATE st = Some s"
    and cb: "CURRENT_BATCH st = Some cb" and stores: "stores_ok L st"
    and books: "books_ok L st (cb_id cb) (requested_with_fee cb) (last_processed_batch s)"
    using assms(1) by (rule hub_invE)
  obtain t bal st1 s1 wdr bs where
    "query_balance Q (contract_address env) (underlying_coin_denom p) = Ok bal"
    and st1: "process_withdraw_rate L st t (coin_amount bal) = Ok st1" and s1: "STATE st1 = Some s1"
    and wdr: "get_finished_amount L st1 (sender info) = Ok wdr"
    and bs: "get_unbond_batches L st1 (sender info) = Ok bs"
    and st': "st' = st1\<lparr>WAIT := (WAIT st1)(?u := remove_batches L (WAIT st1 ?u) bs),
       STATE := Some (s1\<lparr>prev_hub_balance := coin_amount bal - wdr\<rparr>)\<rparr>"
    and msgs: "messages r
       = [BankSend (sender info) [\<lparr>denom = underlying_coin_denom p, coin_amount = wdr\<rparr>]]"
    by (rule execute_withdraw_unbonded_OkE [OF assms(2) par]) blast
  obtain l where lg1: "ledger_of L st1 ask pay
      = ledger_release l (received_by s (coin_amount bal)) (ledger_of L st ask pay)"
    and l: "last_processed_batch s \<le> l" and "STATE st1 = Some (s\<lparr>last_processed_batch := l, actual_unbonded_amount := 0\<rparr>)"
    by (rule process_refines [OF st1 s books])
  then have last: "last_processed_batch s1 = l" using s1 by simp
  have mid: "stores_ok L st1" "CURRENT_BATCH st1 = Some cb" "WAIT st1 = WAIT st"
    "books_ok L st1 (cb_id cb) (requested_with_fee cb) (last_processed_batch s1)"
    by (rule process_withdraw_rate_preserves [OF st1 s stores books], simp add: s1 cb)+
  have ok: "bucket_ok L (WAIT st1 ?u)" and fin: "finite (waiting_users st1)"
    using mid(1) by (simp_all add: stores_ok_def)
  have "waiting L st1 a 0 = 0" for a
    using waiting_le_total [OF fin, of L a 0] mid(4) by (simp add: books_ok_def)
  then have wait: "waiting L st' a b = (if a = ?u \<and> b \<le> l then 0 else waiting L st1 a b)" for a b
    unfolding st' remove_released_waiting [OF bs ok] released_settled [OF mid(4)]
    by (cases "b = 0") (auto simp: word_gt_0 last)
  have asked: "asked_after L st st' ask = ask"
    by (simp add: asked_after_def fun_eq_iff wait) (simp add: waiting_def mid(3))
  have pays: "paid_after L WithdrawUnbonded r pay = bump pay ?u (ledger_value (ledger_of L st1 ask pay) ?u)"
    using get_finished_amount_value [OF wdr] finished_total_ledger [OF mid(1) s1 mid(4), of ?u ask pay]
    by (auto simp: paid_after_def msgs bump_def fun_eq_iff)
  have "batch_volume st' b = batch_volume st1 b \<and> filed_rate st' b = filed_rate st1 b" for b
    by (rule filed_same) (simp_all add: st')
  then have "ledger_of L st' (asked_after L st st' ask) (paid_after L WithdrawUnbonded r pay)
      = ledger_collect ?u (ledger_of L st1 ask pay)"
    unfolding ledger_collect_def asked pays using s1
    by (simp add: ledger_of_def wait last fun_eq_iff) (simp add: st' last)
  moreover have "l < cb_id cb" using mid(4) by (simp add: books_ok_def last)
  ultimately show thesis using l s cb by (intro that [of l]) (simp_all add: lg1)
qed

lemma message_refines:
  assumes "hub_inv L st" and "hub_execute L Q st env info msg = Ok (st', r)"
  shows "refines_message L info msg (ledger_of L st ask pay)
     (ledger_of L st' (asked_after L st st' ask) (paid_after L msg r pay))"
proof -
  from assms(1) have par: "PARAMETERS st \<noteq> None" and white: "whitelist_ok L (VALIDATORS st)"
    and s: "STATE st \<noteq> None"
    by (auto simp: hub_inv_def stores_ok_def)
  consider (withdraw) "msg = WithdrawUnbonded" | (receive) m where "msg = Receive m"
    | (other) "msg \<noteq> WithdrawUnbonded" "\<And>m. msg \<noteq> Receive m" by blast
  then show ?thesis
  proof cases
    case withdraw
    with assms(2) have "execute_withdraw_unbonded L Q st env info = Ok (st', r)"
      by (auto simp: hub_execute_def)
    then show ?thesis unfolding withdraw
      by (rule withdraw_refines [OF assms(1), of Q env info st' r ask pay]) (auto simp: refines_message_def)
  next
    case (receive m)
    then have "execute_unbond L Q st env (cw20_amount m) (cw20_sender m) = Ok (st', r)"
      using assms(2) by (blast intro: receive_unbonds)
    then show ?thesis unfolding receive
      by (rule unbond_refines [OF assms(1), of Q env "cw20_amount m" "cw20_sender m" st' r ask pay])
        (auto simp: refines_message_def paid_after_def)
  next
    case other
    then have "same_books st st'" using message_same_books [OF assms(2) other par white] by blast
    then show ?thesis using other s
      by (auto simp: refines_message_def paid_after_def same_books_ledger split: hub_execute_msg.splits)
  qed
qed

lemma migrate_ledger:
  assumes "hub_migrate L st m = Ok (st', r)"
  shows "ledger_of L st' ask pay = ledger_of L st ask pay"
proof -
  from assms obtain c where st': "st' = st\<lparr>CONFIG := c\<rparr>"
    by (auto simp: hub_migrate_def migrate_config_def)
  have "batch_volume st' b = batch_volume st b \<and> filed_rate st' b = filed_rate st b" for b
    by (rule filed_same) (simp_all add: st')
  then show ?thesis by (simp add: ledger_of_def waiting_def fun_eq_iff) (simp add: st')
qed

lemma instantiate_ledger:
  assumes "hub_instantiate L empty_storage env info im = Ok (st, r)"
  shows "ledger_of L st (\<lambda>_ _. 0) (\<lambda>_. 0) = empty_ledger"
  using assms
  by (auto simp: hub_instantiate_def Let_def empty_storage_def ledger_of_def empty_ledger_def
      batch_volume_def filed_rate_def waiting_def kv_get_def fun_eq_iff)

lemma run_refines:
  assumes "hub_run L st ask pay"
  shows "hub_inv L st \<and> ledger_reachable (ledger_of L st ask pay)"
  using assms
proof (induction rule: hub_run.induct)
  case (start env info im st r)
  then show ?case by (simp add: instantiate_ledger instantiate_inv ledger_reachable_def)
next
  case (message st ask pay Q env info msg st' r)
  from message.IH message.hyps(2) have "refines_message L info msg (ledger_of L st ask pay)
      (ledger_of L st' (asked_after L st st' ask) (paid_after L msg r pay))"
    by (blast intro: message_refines)
  with message.IH message.hyps(2) show ?case unfolding ledger_reachable_def
    by (blast intro: rtranclp_trans refines_message_steps message_preserves)
next
  case (migration st ask pay mm st' r)
  then show ?case by (auto simp: migrate_ledger intro: migrate_preserves)
qed

lemma step_simulated:
  assumes "hub_inv L st" and "hub_step L G st st'"
  shows "hub_inv L st' \<and> (\<exists>ask' pay'. ledger_step\<^sup>*\<^sup>* (ledger_of L st ask pay) (ledger_of L st' ask' pay'))"
  using assms(2)
proof (cases rule: hub_step.cases)
  case (message Q env info msg r)
  from refines_message_steps [OF message_refines [OF assms(1) message(1)]] message_preserves [OF assms(1) message(1)]
  show ?thesis by blast
next
  case (migration m r)
  have "ledger_step\<^sup>*\<^sup>* (ledger_of L st ask pay) (ledger_of L st' ask pay)"
    by (simp add: migrate_ledger [OF migration])
  with migrate_preserves [OF assms(1) migration] show ?thesis by blast
qed

end

text \<open>The steps of the hub are simulated by the ledger, whatever the history variables.\<close>

definition abstracts_to :: "cw_lib \<Rightarrow> hub_storage \<Rightarrow> ledger \<Rightarrow> bool" where
  "abstracts_to L st lg = (hub_inv L st \<and> (\<exists>ask pay. lg = ledger_of L st ask pay))"

sublocale cosmwasm \<subseteq> hub_ledger: simulation "hub_step L (\<lambda>_ _ _ _. True)" ledger_step "abstracts_to L"
proof
  fix st st' lg
  assume "abstracts_to L st lg" and step: "hub_step L (\<lambda>_ _ _ _. True) st st'"
  then obtain ask pay where "hub_inv L st" and lg: "lg = ledger_of L st ask pay"
    by (auto simp: abstracts_to_def)
  from step_simulated [OF this(1) step] show "\<exists>lg'. ledger_step\<^sup>*\<^sup>* lg lg' \<and> abstracts_to L st' lg'"
    unfolding lg abstracts_to_def by blast
qed

context cosmwasm
begin

lemma steps_refine:
  assumes "hub_inv L st" and "(hub_step L G)\<^sup>*\<^sup>* st st'"
  obtains ask' pay' where "hub_inv L st'"
    and "ledger_step\<^sup>*\<^sup>* (ledger_of L st ask pay) (ledger_of L st' ask' pay')"
proof -
  have "abstracts_to L st (ledger_of L st ask pay)" using assms(1) by (auto simp: abstracts_to_def)
  from hub_ledger.steps_simulated [OF this hub_steps_any [OF assms(2)]] that show thesis
    by (auto simp: abstracts_to_def)
qed

end

section \<open>Properties\<close>

text \<open>
  C4: the hub implements the ledger. Of every reachable storage and every message that succeeds, the
  ledger after the message is the ledger before it with the moves of the message applied: a withdrawal
  is a release followed by the sender's collection, whose value is exactly what is sent; a transfer of
  tokens is a request of at most the transferred amount, followed by the end of the epoch or not; every
  other message leaves the ledger as it is.
\<close>

theorem hub_refines_ledger:
  assumes "cosmwasm L" and "hub_reachable L G st" and "hub_execute L Q st env info msg = Ok (st', r)"
  shows "let lg = ledger_of L st ask pay;
      lg' = ledger_of L st' (asked_after L st st' ask) (paid_after L msg r pay)
    in case msg of
      WithdrawUnbonded \<Rightarrow> \<exists>l got. settled_upto lg \<le> l \<and> l < open_batch lg
        \<and> lg' = ledger_collect (to_vec_str L (sender info)) (ledger_release l got lg)
    | Receive m \<Rightarrow> \<exists>n q. n \<le> unat (cw20_amount m)
        \<and> (lg' = ledger_request (to_vec_str L (cw20_sender m)) n lg
           \<or> unat (open_batch lg) + 1 < 2 ^ 64
             \<and> lg' = ledger_close q (ledger_request (to_vec_str L (cw20_sender m)) n lg))
    | _ \<Rightarrow> lg' = lg"
  using cosmwasm.message_refines [OF assms(1) cosmwasm.reachable_inv [OF assms(1,2)] assms(3)]
  unfolding refines_message_def Let_def .

text \<open>
  C6: the account of a user over the whole life of the hub. Whatever the messages, their order and the
  answers of the chain, what a user asked for in a batch is waiting in full until the batch is released,
  and is afterwards either still waiting in full or collected; and everything that withdrawals ever
  sent to the user is exactly the collected amounts, each at the rate its batch was released with.
  Nothing is paid twice, in part, or before its batch is released.
\<close>

theorem lifetime_payments:
  assumes "cosmwasm L" and "hub_run L st ask pay"
  shows "\<exists>s. STATE st = Some s
    \<and> (\<forall>a b. waiting L st a b = ask a b \<or> b \<le> last_processed_batch s \<and> waiting L st a b = 0)
    \<and> (\<forall>a. pay a = (\<Sum>b \<in> {..last_processed_batch s}.
          (ask a b - waiting L st a b) * filed_rate st b div E18))"
proof -
  from cosmwasm.run_refines [OF assms] obtain s where s: "STATE st = Some s"
    and inv: "ledger_inv (ledger_of L st ask pay)"
    by (auto elim!: hub_invE intro: ledger_reachable_inv)
  have "pay a = ledger_collected (ledger_of L st ask pay) a" for a
    using ledger_invD(4) [OF inv] by simp
  note this [unfolded ledger_collected_def ledger_of_sel(2) [OF s] ledger_of_sel(3-)]
  with s ledger_invD(3) [OF inv] show ?thesis by auto
qed

text \<open>
  C12: the terms of a released batch are final. No sequence of messages and migrations changes its
  amount or its withdraw rate, lets anybody's waiting amount in it grow, or takes its release back.
\<close>

theorem released_terms_final:
  assumes "cosmwasm L" and "hub_reachable L G st" and "(hub_step L G)\<^sup>*\<^sup>* st st'"
    and "STATE st = Some s" and "b \<le> last_processed_batch s"
  shows "filed_rate st' b = filed_rate st b \<and> batch_volume st' b = batch_volume st b
    \<and> (\<forall>a. waiting L st' a b \<le> waiting L st a b)
    \<and> (\<exists>s'. STATE st' = Some s' \<and> last_processed_batch s \<le> last_processed_batch s')"
proof -
  let ?lg = "ledger_of L st (\<lambda>_ _. 0) (\<lambda>_. 0)"
  have inv: "hub_inv L st" by (rule cosmwasm.reachable_inv [OF assms(1,2)])
  obtain ask pay where inv': "hub_inv L st'" and steps: "ledger_step\<^sup>*\<^sup>* ?lg (ledger_of L st' ask pay)"
    by (rule cosmwasm.steps_refine [OF assms(1) inv assms(3)])
  from inv assms(4) have "settled_upto ?lg < open_batch ?lg"
    by (auto simp: books_ok_def elim!: hub_invE)
  from ledger_steps_final [OF steps this] assms(4,5) have "final_at b ?lg (ledger_of L st' ask pay)"
    by simp
  with inv' assms(4) show ?thesis by (auto simp: final_at_def elim!: hub_invE)
qed

text \<open>The run of theory HubInvariant goes on: alice and then bob withdraw after the unbonding period.\<close>

definition run_paid :: hub_storage where
  "run_paid = run_closed
     \<lparr>WAIT := (WAIT run_closed)(to_vec_str ref_lib ''alice'' := []),
      HISTORY := [(to_be_bytes 1, \<lparr>hist_batch_id = 1, hist_time = 200, hist_amount = 600,
        applied_exchange_rate = dec_one, withdraw_rate = dec_one, released = True\<rparr>)],
      STATE := Some (sample_state\<lparr>total_bond_amount := 400, last_unbonded_time := 200,
        last_processed_batch := 1, prev_hub_balance := 300\<rparr>)\<rparr>"

lemma run_paid_step: "\<exists>r. hub_execute ref_lib (sample_querier 400 400 600) run_closed (sample_env 300)
    \<lparr>sender = ''alice'', funds = []\<rparr> WithdrawUnbonded = Ok (run_paid, r)
    \<and> messages r = [BankSend ''alice'' [\<lparr>denom = ''uluna'', coin_amount = 300\<rparr>]]"
  by (simp add: eval_defs Let_def run_paid_def run_defs to_be_bytes_less_iff o_def)

lemma run_empty_step: "\<exists>st r. hub_execute ref_lib (sample_querier 400 400 300) run_paid (sample_env 310)
    \<lparr>sender = ''bob'', funds = []\<rparr> WithdrawUnbonded = Ok (st, r)
    \<and> messages r = [BankSend ''bob'' [\<lparr>denom = ''uluna'', coin_amount = 300\<rparr>]]"
  by (simp add: eval_defs Let_def run_paid_def run_defs to_be_bytes_less_iff o_def)

lemma run_paid_reached: "hub_reachable ref_lib (\<lambda>_ _ _ _. True) run_paid"
proof -
  have "hub_step ref_lib (\<lambda>_ _ _ _. True) run_closed run_paid"
    using run_paid_step by (auto intro: hub_step.message)
  with run_closed_reached(2) show ?thesis by (rule hub_reachable.step) simp
qed

lemma hub_run_other:
  assumes "\<exists>ask. hub_run L st ask pay" and "\<exists>r. hub_execute L Q st env info msg = Ok (st', r)"
    and "msg \<noteq> WithdrawUnbonded"
  shows "\<exists>ask. hub_run L st' ask pay"
proof -
  have "paid_after L msg r pay = pay" for r using assms(3) by (simp add: paid_after_def)
  with assms(1,2) show ?thesis by (metis hub_run.message)
qed

lemma run_hub_run: "\<exists>ask. hub_run ref_lib run_closed ask (\<lambda>_. 0)"
proof -
  obtain r where "hub_instantiate ref_lib empty_storage (sample_env 100)
      \<lparr>sender = ''owner'', funds = [\<lparr>denom = ''uluna'', coin_amount = 1000\<rparr>]\<rparr> sample_instantiate
      = Ok (run_start, r)"
    by (simp add: eval_defs sample_instantiate_def run_defs)
  then have "\<exists>ask. hub_run ref_lib run_start ask (\<lambda>_. 0)" by (blast intro: hub_run.start)
  from hub_run_other [OF hub_run_other [OF hub_run_other [OF this run_token_step] run_request_step] run_closed_step]
  show ?thesis by simp
qed

theorem hub_refines_ledger_witness:
  "\<exists>st r l got. hub_execute ref_lib (sample_querier 400 400 600) run_closed (sample_env 300)
      \<lparr>sender = ''alice'', funds = []\<rparr> WithdrawUnbonded = Ok (st, r)
    \<and> paid_after ref_lib WithdrawUnbonded r (\<lambda>_. 0) (to_vec_str ref_lib ''alice'') = 300
    \<and> l < 2 \<and> ledger_of ref_lib st (asked_after ref_lib run_closed st (\<lambda>_ _. 0))
          (paid_after ref_lib WithdrawUnbonded r (\<lambda>_. 0))
        = ledger_collect (to_vec_str ref_lib ''alice'')
            (ledger_release l got (ledger_of ref_lib run_closed (\<lambda>_ _. 0) (\<lambda>_. 0)))"
proof -
  from run_paid_step obtain r where ok: "hub_execute ref_lib (sample_querier 400 400 600) run_closed
      (sample_env 300) \<lparr>sender = ''alice'', funds = []\<rparr> WithdrawUnbonded = Ok (run_paid, r)"
    and msgs: "messages r = [BankSend ''alice'' [\<lparr>denom = ''uluna'', coin_amount = 300\<rparr>]]" by blast
  have reach: "hub_reachable ref_lib (\<lambda>_ _ _ _. True) run_closed" by (rule run_closed_reached(2)) simp
  have cur: "open_batch (ledger_of ref_lib run_closed (\<lambda>_ _. 0) (\<lambda>_. 0)) = 2"
    by (simp add: ledger_of_def run_closed_def)
  have "paid_after ref_lib WithdrawUnbonded r (\<lambda>_. 0) (to_vec_str ref_lib ''alice'') = 300"
    by (simp add: paid_after_def msgs)
  with hub_refines_ledger [OF cosmwasm_ref_lib reach ok, of "\<lambda>_ _. 0" "\<lambda>_. 0"] ok cur
  show ?thesis by (auto simp: Let_def)
qed

theorem lifetime_payments_witness:
  "\<exists>ask pay s. hub_run ref_lib run_paid ask pay \<and> pay (to_vec_str ref_lib ''alice'') = 300
    \<and> STATE run_paid = Some s
    \<and> (\<Sum>b \<in> {..last_processed_batch s}. (ask (to_vec_str ref_lib ''alice'') b
          - waiting ref_lib run_paid (to_vec_str ref_lib ''alice'') b) * filed_rate run_paid b div E18) = 300"
proof -
  from run_paid_step obtain r where ok: "hub_execute ref_lib (sample_querier 400 400 600) run_closed
      (sample_env 300) \<lparr>sender = ''alice'', funds = []\<rparr> WithdrawUnbonded = Ok (run_paid, r)"
    and msgs: "messages r = [BankSend ''alice'' [\<lparr>denom = ''uluna'', coin_amount = 300\<rparr>]]" by blast
  from run_hub_run obtain ask where "hub_run ref_lib run_closed ask (\<lambda>_. 0)" by blast
  from hub_run.message [OF this ok] obtain ask' pay where run: "hub_run ref_lib run_paid ask' pay"
    and "pay = paid_after ref_lib WithdrawUnbonded r (\<lambda>_. 0)" by blast
  then have pays: "pay (to_vec_str ref_lib ''alice'') = 300" by (simp add: paid_after_def msgs)
  from lifetime_payments [OF cosmwasm_ref_lib run] obtain s where "STATE run_paid = Some s"
    and "\<And>a. pay a = (\<Sum>b \<in> {..last_processed_batch s}.
          (ask' a b - waiting ref_lib run_paid a b) * filed_rate run_paid b div E18)" by blast
  with run pays show ?thesis by (intro exI conjI) (assumption, assumption, assumption, simp only: pays [symmetric])
qed

theorem released_terms_final_witness:
  "\<exists>st r. hub_execute ref_lib (sample_querier 400 400 300) run_paid (sample_env 310)
      \<lparr>sender = ''bob'', funds = []\<rparr> WithdrawUnbonded = Ok (st, r)
    \<and> filed_rate st 1 = E18 \<and> batch_volume st 1 = 600"
proof -
  from run_empty_step obtain st r where ok: "hub_execute ref_lib (sample_querier 400 400 300) run_paid
      (sample_env 310) \<lparr>sender = ''bob'', funds = []\<rparr> WithdrawUnbonded = Ok (st, r)" by blast
  then have "(hub_step ref_lib (\<lambda>_ _ _ _. True))\<^sup>*\<^sup>* run_paid st"
    by (intro r_into_rtranclp hub_step.message) simp_all
  from released_terms_final [OF cosmwasm_ref_lib run_paid_reached this, of _ 1]
  have "filed_rate st 1 = filed_rate run_paid 1 \<and> batch_volume st 1 = batch_volume run_paid 1"
    by (simp add: run_paid_def)
  moreover have "filed_rate run_paid 1 = E18" "batch_volume run_paid 1 = 600"
    by (simp_all add: run_paid_def filed_rate_def batch_volume_def kv_get_def)
  ultimately show ?thesis using ok by auto
qed

end
