(* ===== verification/HubBacking.thy ===== *)
theory HubBacking
  imports HubAdmission HubLedger
begin

text \<open>
  The bonded amount and the exchange rate over whole runs. The hub keeps one number for what it has
  staked and one for what a token is worth; the vault is the abstract account of the two. Its history
  variables are what the hub ever delegated, undelegated and wrote off as slashed, and the supply of the
  token. Every message of the hub is a few moves of the vault, which gives two invariants: the bonded
  amount is exactly what the flows leave, and the tokens are worth at most the bond.
\<close>

section \<open>Specification\<close>

record account =
  put_in :: nat
    \<comment> \<open>coins the hub delegated\<close>
  taken_out :: nat
    \<comment> \<open>coins the hub undelegated\<close>
  written_off :: nat
    \<comment> \<open>coins the slashing check found missing\<close>
  tokens :: nat
    \<comment> \<open>supply of the token\<close>

record vault = account +
  bonded :: nat
  price :: nat
    \<comment> \<open>coins per token, in units of \<open>10 ^ -18\<close>\<close>
  queued :: nat
    \<comment> \<open>tokens burnt for the current batch\<close>

text \<open>What the tokens are priced against, and the price that the code computes.\<close>

abbreviation claims_of :: "vault \<Rightarrow> nat" where
  "claims_of v \<equiv> tokens v + queued v"

definition reprice :: "vault \<Rightarrow> vault" where
  "reprice v = v\<lparr>price := rate_units (bonded v) (claims_of v)\<rparr>"

definition vault_slash :: "nat \<Rightarrow> vault \<Rightarrow> vault" where
  "vault_slash k v =
     (if k = 0 then v else reprice (v\<lparr>bonded := bonded v - k, written_off := written_off v + k\<rparr>))"

definition vault_bond :: "nat \<Rightarrow> nat \<Rightarrow> vault \<Rightarrow> vault" where
  "vault_bond p m v =
     reprice (v\<lparr>bonded := bonded v + p, put_in := put_in v + p, tokens := tokens v + m\<rparr>)"

definition vault_request :: "nat \<Rightarrow> nat \<Rightarrow> vault \<Rightarrow> vault" where
  "vault_request a m v = reprice (v\<lparr>tokens := tokens v - a, queued := queued v + m\<rparr>)"

definition vault_close :: "vault \<Rightarrow> vault" where
  "vault_close v =
     (let u = queued v * price v div E18
      in v\<lparr>bonded := bonded v - u, taken_out := taken_out v + u, queued := 0\<rparr>)"

definition vault_compound :: "nat \<Rightarrow> vault \<Rightarrow> vault" where
  "vault_compound r v =
     v\<lparr>bonded := bonded v + r, put_in := put_in v + r, price := price v + r * E18 div claims_of v\<rparr>"

text \<open>
  The moves a message stands for. Bonding, unbonding and the explicit check first write off what the
  chain reports missing; a bond then adds its payment and mints at the price it finds, an unbond moves
  tokens to the batch and may close it, compounding adds rewards, and nothing else moves the vault.
\<close>

definition vault_message :: "hub_execute_msg \<Rightarrow> nat \<Rightarrow> vault \<Rightarrow> vault \<Rightarrow> bool" where
  "vault_message msg k v v' =
     (let w = vault_slash k v in k \<le> bonded v \<and>
      (case msg of
         Bond _ \<Rightarrow> (\<exists>p m. 0 < p \<and> m \<le> quotient_9 p (price w) \<and> v' = vault_bond p m w)
       | Receive c \<Rightarrow> (\<exists>m. m \<le> unat (cw20_amount c) \<and> unat (cw20_amount c) \<le> tokens v \<and>
           (let x = vault_request (unat (cw20_amount c)) m w in
            v' = x \<or> queued x * price x div E18 \<le> bonded x \<and> v' = vault_close x))
       | CheckSlashing \<Rightarrow> v' = w
       | UpdateExchangeRate \<Rightarrow> k = 0 \<and> (\<exists>r. 0 < claims_of v \<and> v' = vault_compound r v)
       | _ \<Rightarrow> k = 0 \<and> v' = v))"

section \<open>Invariants of the specification\<close>

text \<open>The bonded amount is what was delegated, less what was undelegated and written off.\<close>

definition balanced :: "vault \<Rightarrow> bool" where
  "balanced v = (bonded v + taken_out v + written_off v = put_in v)"

text \<open>All tokens and requests at the price are worth at most the bond, unless nothing is bonded.\<close>

definition backed :: "vault \<Rightarrow> bool" where
  "backed v = (0 < bonded v \<longrightarrow> claims_of v * price v \<le> bonded v * E18)"

lemma reprice_sel [simp]:
  "bonded (reprice v) = bonded v" "tokens (reprice v) = tokens v" "queued (reprice v) = queued v"
  "put_in (reprice v) = put_in v" "taken_out (reprice v) = taken_out v"
  "written_off (reprice v) = written_off v" "price (reprice v) = rate_units (bonded v) (claims_of v)"
  by (simp_all add: reprice_def)

lemma balanced_moves:
  "balanced v \<Longrightarrow> k \<le> bonded v \<Longrightarrow> balanced (vault_slash k v)"
  "balanced v \<Longrightarrow> balanced (vault_bond p m v)"
  "balanced v \<Longrightarrow> balanced (vault_request a m v)"
  "balanced v \<Longrightarrow> queued v * price v div E18 \<le> bonded v \<Longrightarrow> balanced (vault_close v)"
  "balanced v \<Longrightarrow> balanced (vault_compound r v)"
  by (simp_all add: balanced_def vault_slash_def vault_bond_def vault_request_def vault_close_def
      vault_compound_def Let_def)

lemma balanced_message: "balanced v \<Longrightarrow> vault_message msg k v v' \<Longrightarrow> balanced v'"
  by (cases msg) (auto simp: vault_message_def Let_def intro: balanced_moves)

lemma backed_reprice [simp]: "backed (reprice v)"
  using div_times_less_eq_dividend [of "bonded v * E18" "claims_of v"]
  by (auto simp: backed_def rate_units_def mult.commute)

text \<open>Closing takes out what the batch is worth, so what stays still backs the other tokens.\<close>

lemma backed_close:
  assumes "backed v" and "queued v * price v div E18 \<le> bonded v"
  shows "backed (vault_close v)"
proof -
  let ?u = "queued v * price v div E18"
  have "?u * E18 \<le> queued v * price v" by (rule div_times_less_eq_dividend)
  moreover have "claims_of v * price v \<le> bonded v * E18" if "0 < bonded v - ?u"
    using assms(1) that by (simp add: backed_def)
  ultimately have "tokens v * price v \<le> (bonded v - ?u) * E18" if "0 < bonded v - ?u"
    using that by (simp add: algebra_simps)
  then show ?thesis by (simp add: backed_def vault_close_def Let_def)
qed

lemma backed_compound:
  assumes "backed v" and "0 < bonded v"
  shows "backed (vault_compound r v)"
proof -
  have "claims_of v * (r * E18 div claims_of v) \<le> r * E18" by (rule times_div_less_eq_dividend)
  with assms show ?thesis by (simp add: backed_def vault_compound_def algebra_simps)
qed

lemma backed_slash: "backed v \<Longrightarrow> backed (vault_slash k v)"
  by (simp add: vault_slash_def)

lemma backed_fewer:
  assumes "backed v" and "n \<le> tokens v"
  shows "backed (v\<lparr>tokens := n\<rparr>)"
proof -
  have "(n + queued v) * price v \<le> claims_of v * price v" using assms(2) by (intro mult_le_mono1) simp
  also have "\<dots> \<le> bonded v * E18" if "0 < bonded v" using assms(1) that by (simp add: backed_def)
  finally show ?thesis by (simp add: backed_def)
qed

lemma backed_message:
  assumes "backed v" and "vault_message msg k v v'" and "msg = UpdateExchangeRate \<Longrightarrow> 0 < bonded v"
  shows "backed v'"
  using assms by (cases msg)
    (auto simp: vault_message_def vault_bond_def vault_request_def Let_def
      intro: backed_slash backed_close backed_compound)

text \<open>
  While the tokens are backed and nothing is written off, a message does not lower the price; a bond,
  which divides by the price cut to nine digits, lowers it at most to that.
\<close>

lemma reprice_ge:
  assumes "q * claims_of v \<le> bonded v * E18" and "0 < bonded v" and "0 < claims_of v"
  shows "q \<le> price (reprice v)"
  using assms less_eq_div_iff_mult_less_eq [of "claims_of v" q "bonded v * E18"] by (auto simp: rate_units_def)

lemma price_bond:
  assumes "backed v" and "0 < bonded v" and "m \<le> quotient_9 p (price v)" and "0 < claims_of (vault_bond p m v)"
  shows "price v div 1000000000 * 1000000000 \<le> price (vault_bond p m v)"
  unfolding vault_bond_def
proof (rule reprice_ge)
  let ?q = "price v div 1000000000"
  have "?q * 1000000000 * claims_of v \<le> price v * claims_of v" by (intro mult_le_mono1 div_times_less_eq_dividend)
  also have "\<dots> \<le> bonded v * E18" using assms(1,2) by (simp add: backed_def mult.commute)
  finally have "?q * 1000000000 * claims_of v \<le> bonded v * E18" .
  moreover have "m * ?q \<le> p * 1000000000"
    using assms(3) div_times_less_eq_dividend [of "p * 1000000000" ?q]
    by (auto simp: quotient_9_def intro: order_trans [OF mult_le_mono1])
  ultimately show "?q * 1000000000 * claims_of (v\<lparr>bonded := bonded v + p, put_in := put_in v + p,
      tokens := tokens v + m\<rparr>) \<le> bonded (v\<lparr>bonded := bonded v + p, put_in := put_in v + p,
      tokens := tokens v + m\<rparr>) * E18"
    by (simp add: algebra_simps)
qed (use assms in \<open>simp_all add: vault_bond_def\<close>)

lemma price_request:
  assumes "backed v" and "0 < bonded v" and "m \<le> a" and "a \<le> tokens v"
    and "0 < claims_of (vault_request a m v)"
  shows "price v \<le> price (vault_request a m v)"
  unfolding vault_request_def
proof (rule reprice_ge)
  have "price v * (tokens v - a + (queued v + m)) \<le> price v * claims_of v"
    using assms(3,4) by (intro mult_le_mono2) simp
  also have "\<dots> \<le> bonded v * E18" using assms(1,2) by (simp add: backed_def mult.commute)
  finally show "price v * claims_of (v\<lparr>tokens := tokens v - a, queued := queued v + m\<rparr>)
      \<le> bonded (v\<lparr>tokens := tokens v - a, queued := queued v + m\<rparr>) * E18" by simp
qed (use assms in \<open>simp_all add: vault_request_def\<close>)

lemma price_message:
  assumes "backed v" and "vault_message msg 0 v v'" and "0 < bonded v" and "0 < claims_of v'"
  shows "(case msg of Bond _ \<Rightarrow> price v div 1000000000 * 1000000000 | _ \<Rightarrow> price v) \<le> price v'"
proof (cases msg)
  case (Bond val)
  with assms(2) obtain p m where "m \<le> quotient_9 p (price v)" "v' = vault_bond p m v"
    by (auto simp: vault_message_def vault_slash_def)
  with price_bond [OF assms(1,3) this(1)] assms(4) Bond show ?thesis by simp
next
  case (Receive c)
  with assms(2) obtain m where m: "m \<le> unat (cw20_amount c)" "unat (cw20_amount c) \<le> tokens v"
    and v': "v' = vault_request (unat (cw20_amount c)) m v \<or> v' = vault_close (vault_request (unat (cw20_amount c)) m v)"
    by (auto simp: vault_message_def vault_slash_def Let_def)
  then have "0 < claims_of (vault_request (unat (cw20_amount c)) m v)"
    using assms(4) by (auto simp: vault_close_def Let_def)
  from price_request [OF assms(1,3) m this] v' Receive show ?thesis by (auto simp: vault_close_def Let_def)
next
  case UpdateExchangeRate
  with assms(2) show ?thesis by (auto simp: vault_message_def vault_compound_def)
qed (use assms(2) in \<open>simp_all add: vault_message_def vault_slash_def\<close>)

section \<open>Abstraction\<close>

text \<open>The vault of a storage, with its history variables kept beside it.\<close>

definition vault_of :: "hub_storage \<Rightarrow> account \<Rightarrow> vault" where
  "vault_of st acc =
     \<lparr>put_in = put_in acc, taken_out = taken_out acc, written_off = written_off acc, tokens = tokens acc,
      bonded = (case STATE st of Some s \<Rightarrow> unat (total_bond_amount s) | None \<Rightarrow> 0),
      price = (case STATE st of Some s \<Rightarrow> units (exchange_rate s) | None \<Rightarrow> 0),
      queued = (case CURRENT_BATCH st of Some cb \<Rightarrow> unat (requested_with_fee cb) | None \<Rightarrow> 0)\<rparr>"

lemma vault_of_sel [simp]:
  "put_in (vault_of st acc) = put_in acc" "taken_out (vault_of st acc) = taken_out acc"
  "written_off (vault_of st acc) = written_off acc" "tokens (vault_of st acc) = tokens acc"
  "STATE st = Some s \<Longrightarrow> bonded (vault_of st acc) = unat (total_bond_amount s)"
  "STATE st = Some s \<Longrightarrow> price (vault_of st acc) = units (exchange_rate s)"
  "CURRENT_BATCH st = Some cb \<Longrightarrow> queued (vault_of st acc) = unat (requested_with_fee cb)"
  by (simp_all add: vault_of_def)

text \<open>The flows that the messages of a response carry.\<close>

definition delegated_by :: "cosmos_msg list \<Rightarrow> nat" where
  "delegated_by ms = (\<Sum>m\<leftarrow>ms. case m of Delegate _ c \<Rightarrow> unat (coin_amount c) | _ \<Rightarrow> 0)"

definition undelegated_by :: "cosmos_msg list \<Rightarrow> nat" where
  "undelegated_by ms = (\<Sum>m\<leftarrow>ms. case m of Undelegate _ c \<Rightarrow> unat (coin_amount c) | _ \<Rightarrow> 0)"

definition minted_by :: "cosmos_msg list \<Rightarrow> nat" where
  "minted_by ms = (\<Sum>m\<leftarrow>ms. case m of WasmExecute _ (Cw20Msg (Mint _ n)) _ \<Rightarrow> unat n | _ \<Rightarrow> 0)"

definition burnt_by :: "cosmos_msg list \<Rightarrow> nat" where
  "burnt_by ms = (\<Sum>m\<leftarrow>ms. case m of WasmExecute _ (Cw20Msg (Burn n)) _ \<Rightarrow> unat n | _ \<Rightarrow> 0)"

lemmas flow_defs = delegated_by_def undelegated_by_def minted_by_def burnt_by_def

lemma flow_simps [simp]:
  "delegated_by [] = 0" "undelegated_by [] = 0" "minted_by [] = 0" "burnt_by [] = 0"
  "delegated_by (ms @ ns) = delegated_by ms + delegated_by ns"
  "undelegated_by (ms @ ns) = undelegated_by ms + undelegated_by ns"
  "minted_by (ms @ ns) = minted_by ms + minted_by ns" "burnt_by (ms @ ns) = burnt_by ms + burnt_by ns"
  by (simp_all add: flow_defs)

text \<open>
  What the slashing check finds missing: nothing when the chain reports no delegation, otherwise what the
  staked coins fall short of the stored bond. The messages that run the check are three.
\<close>

definition shortfall :: "querier \<Rightarrow> hub_storage \<Rightarrow> env \<Rightarrow> nat" where
  "shortfall Q st env =
     (case (PARAMETERS st, STATE st, query_all_delegations Q (contract_address env)) of
        (Some p, Some s, Ok ds) \<Rightarrow>
          if ds = [] then 0 else unat (total_bond_amount s) - staked (underlying_coin_denom p) ds
      | _ \<Rightarrow> 0)"

definition checks_slashing :: "hub_execute_msg \<Rightarrow> bool" where
  "checks_slashing msg = (case msg of Bond _ \<Rightarrow> True | Receive _ \<Rightarrow> True | CheckSlashing \<Rightarrow> True | _ \<Rightarrow> False)"

definition prices :: "hub_execute_msg \<Rightarrow> bool" where
  "prices msg = (checks_slashing msg \<or> msg = UpdateExchangeRate)"

definition missing :: "querier \<Rightarrow> hub_storage \<Rightarrow> env \<Rightarrow> hub_execute_msg \<Rightarrow> nat" where
  "missing Q st env msg = (if checks_slashing msg then shortfall Q st env else 0)"

definition account_after ::
  "querier \<Rightarrow> hub_storage \<Rightarrow> env \<Rightarrow> hub_execute_msg \<Rightarrow> response \<Rightarrow> account \<Rightarrow> account" where
  "account_after Q st env msg r acc =
     \<lparr>put_in = put_in acc + delegated_by (messages r),
      taken_out = taken_out acc + undelegated_by (messages r),
      written_off = written_off acc + missing Q st env msg,
      tokens = tokens acc + minted_by (messages r) - burnt_by (messages r)\<rparr>"

text \<open>The supply that the handlers work with: an unanswered query counts as none.\<close>

definition reported :: "cw_lib \<Rightarrow> querier \<Rightarrow> hub_storage \<Rightarrow> nat" where
  "reported L Q st = (case query_total_issued L Q st of Ok n \<Rightarrow> unat n | _ \<Rightarrow> 0)"

lemma query_total_issued_state [simp]:
  "query_total_issued L Q (st\<lparr>STATE := x\<rparr>) = query_total_issued L Q st"
  by (simp add: query_total_issued_def load_config_def)

lemma reported_unwrap: "unwrap_or 0 (query_total_issued L Q st) = Ok n \<Longrightarrow> reported L Q st = unat n"
  by (cases "query_total_issued L Q st") (simp_all add: reported_def)

text \<open>Messages and steps that the vault does not notice.\<close>

definition no_flow :: "cosmos_msg list \<Rightarrow> bool" where
  "no_flow ms = (delegated_by ms = 0 \<and> undelegated_by ms = 0 \<and> minted_by ms = 0 \<and> burnt_by ms = 0)"

definition same_vault :: "hub_storage \<Rightarrow> hub_storage \<Rightarrow> bool" where
  "same_vault st st' =
     (CURRENT_BATCH st' = CURRENT_BATCH st
      \<and> map_option total_bond_amount (STATE st') = map_option total_bond_amount (STATE st)
      \<and> map_option exchange_rate (STATE st') = map_option exchange_rate (STATE st))"

lemma same_vault_update [simp]:
  "same_vault st (st\<lparr>PAUSE := a\<rparr>)" "same_vault st (st\<lparr>ADMIN := b\<rparr>)" "same_vault st (st\<lparr>CONFIG := c\<rparr>)"
  "same_vault st (st\<lparr>PARAMETERS := d\<rparr>)" "same_vault st (st\<lparr>VALIDATORS := e\<rparr>)" "same_vault st st"
  by (simp_all add: same_vault_def)

lemma same_vault_of:
  assumes "same_vault st st'" and "no_flow (messages r)" and "\<not> checks_slashing msg"
  shows "vault_of st' (account_after Q st env msg r acc) = vault_of st acc"
  using assms
  by (auto simp: same_vault_def no_flow_def vault_of_def account_after_def missing_def split: option.splits)

section \<open>Refinement\<close>

context cosmwasm
begin

lemma slashing_vault:
  assumes "slashing L Q st env = Ok st1" and "CURRENT_BATCH st = Some cb"
    and "tokens acc = reported L Q st"
  shows "vault_of st1 (acc\<lparr>written_off := written_off acc + shortfall Q st env\<rparr>)
      = vault_slash (shortfall Q st env) (vault_of st acc)
    \<and> shortfall Q st env \<le> bonded (vault_of st acc)"
  using assms(1)
proof (cases rule: slashing_cases)
  case (unchanged p s ds)
  then have "shortfall Q st env = 0" by (auto simp: shortfall_def)
  with unchanged show ?thesis by (simp add: vault_slash_def)
next
  case (slashed p s ds ti cb0 n r)
  then have k: "shortfall Q st env = unat (total_bond_amount s) - unat n"
    and less: "unat n < unat (total_bond_amount s)" and "unat ti = tokens acc" and "cb0 = cb"
    using assms(2,3) by (auto simp: shortfall_def word_less_nat_alt reported_def)
  with slashed show ?thesis by (simp add: vault_slash_def reprice_def vault_of_def)
qed

text \<open>Whatever the picks, the messages of an undelegation add up to the claim.\<close>

lemma pick_loop_total:
  "pick_loop L d h k claimed ds msgs = Ok ms \<Longrightarrow>
     \<exists>picks. ms = msgs @ undelegations d picks \<and> (\<Sum>(x, u)\<leftarrow>picks. unat u) = unat claimed"
proof (induction "length ds" arbitrary: ds k claimed msgs rule: less_induct)
  case less
  show ?case
  proof (cases "claimed = 0")
    case True
    with less.prems show ?thesis by (intro exI [of _ "[]"]) simp
  next
    case False
    with less.prems obtain i x ds' u rest k' where x: "vec_remove ds i = Ok (x, ds')"
      and u: "undelegate_from L (coin_amount (del_amount x)) claimed = Ok (u, rest)"
      and loop: "pick_loop L d h k' rest ds'
        (if 0 < u then msgs @ [Undelegate (del_validator x) \<lparr>denom = d, coin_amount = u\<rparr>] else msgs) = Ok ms"
      by (clarsimp simp: pick_loop.simps [of _ _ _ _ claimed] res_simps)
    have sum: "unat claimed = unat u + unat rest"
      using undelegate_from_eq [of "coin_amount (del_amount x)" claimed] u by auto
    from less.hyps [OF _ loop] vec_removeD(1) [OF x] obtain ps where
      ps: "ms = (if 0 < u then msgs @ undelegations d [(x, u)] else msgs) @ undelegations d ps"
        "(\<Sum>(x, u)\<leftarrow>ps. unat u) = unat rest" by auto
    show ?thesis
      by (rule exI [of _ "if 0 < u then (x, u) # ps else ps"]) (use ps sum in \<open>auto simp: word_gt_0\<close>)
  qed
qed

lemma undelegations_flows:
  "delegated_by (undelegations d ps) = 0" "minted_by (undelegations d ps) = 0"
  "burnt_by (undelegations d ps) = 0" "undelegated_by (undelegations d ps) = (\<Sum>(x, u)\<leftarrow>ps. unat u)"
  by (induction ps) (auto simp: flow_defs)

lemma close_batch_flows:
  assumes "close_batch L Q st env s batch = Ok (st', s', cb', und)"
  defines "amount \<equiv> unat (requested_with_fee batch) * units (exchange_rate s) div E18"
  shows "delegated_by und = 0 \<and> minted_by und = 0 \<and> burnt_by und = 0 \<and> undelegated_by und = amount
    \<and> unat (total_bond_amount s) = unat (total_bond_amount s') + amount
    \<and> exchange_rate s' = exchange_rate s \<and> requested_with_fee cb' = 0"
proof -
  obtain n left where n: "uint_mul_dec L (requested_with_fee batch) (exchange_rate s) = Ok n"
    and pick: "pick_validator L Q st n (contract_address env) (block_height env) = Ok und"
    and sub: "uint_checked_sub L (total_bond_amount s) n = Ok left" and zero: "requested_with_fee cb' = 0"
    and s': "s' = s\<lparr>total_bond_amount := left, last_unbonded_time := block_seconds env\<rparr>"
    using assms(1) by (rule close_batch_OkE)
  from pick obtain d ds where "pick_loop L d (block_height env) 0 n ds [] = Ok und"
    by (auto simp: pick_validator_def)
  then obtain ps where ps: "und = undelegations d ps" "(\<Sum>(x, u)\<leftarrow>ps. unat u) = unat n"
    using pick_loop_total by fastforce
  have "unat n = amount" using n by (simp add: amount_def mul_dec_iff)
  with ps sub zero s' show ?thesis by (simp add: undelegations_flows arith_iffs)
qed

lemma bond_vault:
  assumes "execute_bond L Q st env info val = Ok (st', r)" and "tokens acc = reported L Q st"
  shows "vault_message (Bond val) (shortfall Q st env) (vault_of st acc)
    (vault_of st' (account_after Q st env (Bond val) r acc))"
proof -
  from assms(1) obtain p cb pay st1 s issued minted m issued' b s' addr where
    "PARAMETERS st = Some p" and cb: "CURRENT_BATCH st = Some cb"
    and pay: "find_payment (underlying_coin_denom p) (funds info) = Some pay"
    and sl: "slashing L Q st env = Ok st1" and s: "STATE st1 = Some s"
    and iss: "unwrap_or 0 (query_total_issued L Q st1) = Ok issued"
    and div: "decimal_division L (coin_amount pay) (exchange_rate s) = Ok minted"
    and mint: "mint_less_peg_fee L (exchange_rate s) (er_threshold p) (peg_recovery_fee p) issued
           (requested_with_fee cb) (total_bond_amount s) (coin_amount pay) minted = Ok m"
    and add: "uint_add L issued m = Ok issued'" "uint_add L (total_bond_amount s) (coin_amount pay) = Ok b"
    and upd: "update_exchange_rate L (s\<lparr>total_bond_amount := b\<rparr>) issued' (requested_with_fee cb) = Ok s'"
    and st': "st' = st1\<lparr>STATE := Some s'\<rparr>"
    and msgs: "messages r = [Delegate val pay, WasmExecute addr (Cw20Msg (Mint (sender info) m)) []]"
    by (rule execute_bond_OkE) blast
  let ?k = "shortfall Q st env"
  let ?w = "vault_of st1 (acc\<lparr>written_off := written_off acc + ?k\<rparr>)"
  note w = slashing_vault [OF sl cb assms(2)]
  obtain s0 n q where st1: "st1 = st\<lparr>STATE := Some (s0\<lparr>total_bond_amount := n, exchange_rate := q\<rparr>)\<rparr>"
    by (rule slashing_frame [OF sl])
  have supp: "unat issued = tokens acc" using reported_unwrap [OF iss] assms(2) by (simp add: st1 reported_def)
  obtain q' where s': "s' = s\<lparr>total_bond_amount := b, exchange_rate := q'\<rparr>"
    and q': "units q' = rate_units (unat b) (unat issued' + unat (requested_with_fee cb))"
    using update_exchange_rate_OkD [OF upd] by auto
  have sums: "unat issued' = unat issued + unat m" "unat b = unat (total_bond_amount s) + unat (coin_amount pay)"
    using add by (simp_all add: uint_add_iff)
  have cb1: "CURRENT_BATCH st1 = Some cb" using cb by (simp add: st1)
  have "vault_of st' (account_after Q st env (Bond val) r acc)
      = vault_bond (unat (coin_amount pay)) (unat m) ?w"
    by (simp add: vault_of_def account_after_def vault_bond_def reprice_def st' s' q' s cb1 sums supp
        flow_defs msgs missing_def checks_slashing_def)
  moreover have "unat m \<le> quotient_9 (unat (coin_amount pay)) (price ?w)"
    using mint_less_peg_fee_OkD(1) [OF mint] div s by (simp add: decimal_division_iff word_le_nat_alt)
  moreover have "0 < unat (coin_amount pay)"
    using find_payment_SomeD [OF pay] by (simp add: unat_gt_0 word_gt_0)
  ultimately show ?thesis using w by (auto simp: vault_message_def Let_def)
qed

lemma compound_vault:
  assumes "execute_update_exchange_rate L Q st env info = Ok (st', r)" and "tokens acc = reported L Q st"
  shows "vault_message UpdateExchangeRate 0 (vault_of st acc)
    (vault_of st' (account_after Q st env UpdateExchangeRate r acc))"
proof -
  from assms(1) obtain s cfg p rewards fee cb issued claims inc rate b ds i fms rms where
    "PARAMETERS st = Some p" and s: "STATE st = Some s" and cb: "CURRENT_BATCH st = Some cb"
    and iss: "query_total_issued L Q st = Ok issued"
    and ops: "uint_add L issued (requested_with_fee cb) = Ok claims" "dec_from_ratio L rewards claims = Ok inc"
      "dec_add L (exchange_rate s) inc = Ok rate" "uint_add L (total_bond_amount s) rewards = Ok b"
    and st': "st' = st\<lparr>STATE := Some (s\<lparr>exchange_rate := rate, total_bond_amount := b\<rparr>)\<rparr>"
    and fms: "fee_messages L cfg (underlying_coin_denom p) fee = Ok fms"
    and rms: "redelegate_messages ds i (underlying_coin_denom p) rewards = Ok rms"
    and msgs: "messages r = fms @ rms"
    by (rule execute_update_exchange_rate_OkE) blast
  have supp: "unat issued = tokens acc" using iss assms(2) by (simp add: reported_def)
  have nums: "unat claims = unat issued + unat (requested_with_fee cb)" "0 < unat claims"
    "units inc = unat rewards * E18 div unat claims" "units rate = units (exchange_rate s) + units inc"
    "unat b = unat (total_bond_amount s) + unat rewards"
    using ops by (simp_all add: arith_iffs)
  have "delegated_by fms = 0 \<and> undelegated_by fms = 0 \<and> minted_by fms = 0 \<and> burnt_by fms = 0"
    using fee_messages_OkD(2,3) [OF fms] by (cases "fee = 0") (auto simp: flow_defs)
  moreover have "delegated_by rms = unat rewards \<and> undelegated_by rms = 0 \<and> minted_by rms = 0 \<and> burnt_by rms = 0"
    using redelegate_messages_OkD(2,3) [OF rms] by (cases "rewards = 0") (auto simp: flow_defs)
  ultimately have "vault_of st' (account_after Q st env UpdateExchangeRate r acc)
      = vault_compound (unat rewards) (vault_of st acc)"
    using nums supp by (simp add: vault_of_def account_after_def vault_compound_def st' s cb msgs
        missing_def checks_slashing_def)
  then show ?thesis using nums s cb supp by (auto simp: vault_message_def vault_slash_def)
qed

text \<open>The last part of an unbond: the batch stays open, or is closed at the price just computed.\<close>

lemma close_step_vault:
  assumes step: "(if over then close_batch L Q st env s1 batch else Ok (st, s1, batch, [])) = Ok (st', s2, cb2, und)"
    and x: "bonded x = unat (total_bond_amount s1)" "price x = units (exchange_rate s1)"
      "queued x = unat (requested_with_fee batch)"
    and v: "bonded v = unat (total_bond_amount s2)" "price v = units (exchange_rate s2)"
      "queued v = unat (requested_with_fee cb2)" "written_off v = written_off x"
      "put_in v = put_in x + delegated_by und" "taken_out v = taken_out x + undelegated_by und"
      "minted_by und = 0 \<Longrightarrow> burnt_by und = 0 \<Longrightarrow> tokens v = tokens x"
  shows "v = x \<or> queued x * price x div E18 \<le> bonded x \<and> v = vault_close x"
proof (cases over)
  case True
  with step have "close_batch L Q st env s1 batch = Ok (st', s2, cb2, und)" by simp
  note flows = close_batch_flows [OF this]
  have "v = vault_close x"
    by (intro vault.equality) (use flows v in \<open>simp_all add: x vault_close_def Let_def\<close>)
  then show ?thesis using flows by (simp add: x)
next
  case False
  with step have "s2 = s1" "cb2 = batch" "und = []" by auto
  with v x have "v = x" by (intro vault.equality) simp_all
  then show ?thesis ..
qed

lemma unbond_vault:
  assumes "execute_unbond L Q st env (cw20_amount c) user = Ok (st', r)" and "tokens acc = reported L Q st"
    and "PARAMETERS st = Some p" and "CURRENT_BATCH st = Some cb" and "STATE st = Some s0"
  shows "vault_message (Receive c) (shortfall Q st env) (vault_of st acc)
    (vault_of st' (account_after Q st env (Receive c) r acc))"
proof -
  obtain st1 s issued m req st2 s1 passed st3 s2 cb2 und addr where sl: "slashing L Q st env = Ok st1"
    and s: "STATE st1 = Some s" and iss: "unwrap_or 0 (query_total_issued L Q st1) = Ok issued"
    and m: "m \<le> cw20_amount c" and req: "unat req = unat (requested_with_fee cb) + unat m"
    and le: "unat (cw20_amount c) \<le> unat issued"
    and s1: "s1 = s\<lparr>exchange_rate := exchange_rate s1\<rparr>"
    and rate: "units (exchange_rate s1) = rate_units (unat (total_bond_amount s))
           (unat issued - unat (cw20_amount c) + unat req)"
    and step: "(if epoch_period p < passed
          then close_batch L Q st2 env s1 (cb\<lparr>requested_with_fee := req\<rparr>)
          else Ok (st2, s1, cb\<lparr>requested_with_fee := req\<rparr>, [])) = Ok (st3, s2, cb2, und)"
    and st': "st' = st3\<lparr>CURRENT_BATCH := Some cb2, STATE := Some s2\<rparr>"
    and msgs: "messages r = und @ [WasmExecute addr (Cw20Msg (Burn (cw20_amount c))) []]"
    by (rule execute_unbond_summary [OF assms(1,3-5)]) blast
  let ?k = "shortfall Q st env" and ?a = "unat (cw20_amount c)"
  let ?w = "vault_of st1 (acc\<lparr>written_off := written_off acc + ?k\<rparr>)"
  let ?x = "vault_request ?a (unat m) ?w"
  note w = slashing_vault [OF sl assms(4,2)]
  obtain z n q where st1: "st1 = st\<lparr>STATE := Some (z\<lparr>total_bond_amount := n, exchange_rate := q\<rparr>)\<rparr>"
    by (rule slashing_frame [OF sl])
  have supp: "unat issued = tokens acc" using reported_unwrap [OF iss] assms(2) by (simp add: st1 reported_def)
  have cb1: "CURRENT_BATCH st1 = Some cb" using assms(4) by (simp add: st1)
  have same: "total_bond_amount s1 = total_bond_amount s" by (subst s1) simp
  let ?v = "vault_of st' (account_after Q st env (Receive c) r acc)"
  have "?v = ?x \<or> queued ?x * price ?x div E18 \<le> bonded ?x \<and> ?v = vault_close ?x"
  proof (rule close_step_vault [OF step])
    show "bonded ?x = unat (total_bond_amount s1)" "price ?x = units (exchange_rate s1)"
      "queued ?x = unat (requested_with_fee (cb\<lparr>requested_with_fee := req\<rparr>))"
      by (simp_all add: vault_request_def s cb1 rate req same supp)
    show "bonded ?v = unat (total_bond_amount s2)" "price ?v = units (exchange_rate s2)"
      "queued ?v = unat (requested_with_fee cb2)" by (simp_all add: st')
    show "written_off ?v = written_off ?x" "put_in ?v = put_in ?x + delegated_by und"
      "taken_out ?v = taken_out ?x + undelegated_by und"
      "minted_by und = 0 \<Longrightarrow> burnt_by und = 0 \<Longrightarrow> tokens ?v = tokens ?x"
      by (simp_all add: vault_request_def account_after_def msgs missing_def checks_slashing_def)
        (simp_all add: flow_defs)
  qed
  then show ?thesis using w m le supp by (auto simp: vault_message_def Let_def word_le_nat_alt)
qed

text \<open>The messages other than bonding, unbonding, checking and compounding leave the vault alone.\<close>

lemma withdraw_same_vault:
  assumes "execute_withdraw_unbonded L Q st env info = Ok (st', r)" and "PARAMETERS st = Some p"
    and "STATE st = Some s"
  shows "same_vault st st' \<and> no_flow (messages r)"
proof -
  obtain t bal st1 paid bs s1 where st1: "process_withdraw_rate L st t (coin_amount bal) = Ok st1"
    and s1: "STATE st1 = Some s1"
    and st': "st' = st1\<lparr>WAIT := (WAIT st1)(to_vec_str L (sender info) :=
         remove_batches L (WAIT st1 (to_vec_str L (sender info))) bs),
       STATE := Some (s1\<lparr>prev_hub_balance := coin_amount bal - paid\<rparr>)\<rparr>"
    and msgs: "messages r = [BankSend (sender info) [\<lparr>denom = underlying_coin_denom p, coin_amount = paid\<rparr>]]"
    and "query_balance Q (contract_address env) (underlying_coin_denom p) = Ok bal"
    by (rule execute_withdraw_unbonded_OkE [OF assms(1,2)]) blast
  obtain l' where frame: "st1 = st\<lparr>HISTORY := HISTORY st1,
       STATE := Some (s\<lparr>last_processed_batch := l', actual_unbonded_amount := 0\<rparr>)\<rparr>"
    by (rule process_withdraw_rate_OkE [OF st1 assms(3)]) blast
  have "CURRENT_BATCH st1 = CURRENT_BATCH st" by (subst frame) simp
  moreover have "STATE st1 = Some (s\<lparr>last_processed_batch := l', actual_unbonded_amount := 0\<rparr>)"
    by (subst frame) simp
  ultimately show ?thesis
    using s1 assms(3) by (auto simp: same_vault_def no_flow_def flow_defs st' msgs)
qed

lemma update_global_same_vault:
  assumes "execute_update_global L Q st env = Ok (st', r)"
  shows "same_vault st st' \<and> no_flow (messages r)"
proof -
  from assms obtain ms a s where ms: "withdraw_all_rewards Q (contract_address env) = Ok ms"
    and "STATE st = Some s" and "st' = st\<lparr>STATE := Some (s\<lparr>last_index_modification := block_seconds env\<rparr>)\<rparr>"
    and "messages r = ms @ [WasmExecute a (RewardsMsg ProcessRewards) []]"
    by (auto simp: execute_update_global_def res_simps)
  moreover from ms have "no_flow ms"
    by (auto simp: withdraw_all_rewards_def no_flow_def flow_defs o_def split: res.splits)
  ultimately show ?thesis by (auto simp: same_vault_def no_flow_def flow_defs)
qed

lemma deregister_same_vault:
  assumes "execute_deregister_validator L Q st env info v = Ok (st', r)"
  shows "same_vault st st' \<and> no_flow (messages r)"
proof -
  have "st' = st\<lparr>VALIDATORS := kv_remove (VALIDATORS st) (to_vec_str L v)\<rparr>"
    using assms by (rule execute_deregister_validator_frame)
  moreover have "no_flow (messages r)"
    using assms by (auto simp: execute_deregister_validator_def no_flow_def flow_defs res_simps
        split: res.splits option.splits if_splits)
  ultimately show ?thesis by simp
qed

lemma update_admin_same_vault:
  assumes "execute_update_admin L st info a = Ok (st', r)"
  shows "same_vault st st' \<and> no_flow (messages r)"
proof -
  from assms obtain a' cell where upd: "admin_execute_update L (ADMIN st) info (Some a') = Inr (cell, r)"
    and st': "st' = st\<lparr>ADMIN := cell\<rparr>"
    by (auto simp: execute_update_admin_def split: sum.splits admin_error.splits)
  then have "admin_assert L (ADMIN st) (sender info) = Inr ()"
    using admin_update_rejected [of "ADMIN st" info _ "Some a'"]
    by (cases "admin_assert L (ADMIN st) (sender info)") auto
  from admin_update_accepted [OF this, of "Some a'"] upd st' show ?thesis by (auto simp: no_flow_def)
qed

lemma message_same_vault:
  assumes "hub_execute L Q st env info msg = Ok (st', r)" and "\<not> checks_slashing msg"
    and "msg \<noteq> UpdateExchangeRate" and "PARAMETERS st = Some p" and "STATE st = Some s"
  shows "same_vault st st' \<and> no_flow (messages r)"
proof (cases msg)
  case WithdrawUnbonded
  with assms(1) show ?thesis
    using withdraw_same_vault [OF _ assms(4,5)] by (auto simp: hub_execute_def)
next
  case UpdateGlobalIndex
  with assms(1) show ?thesis using update_global_same_vault by (auto simp: hub_execute_def)
next
  case (RegisterValidator v)
  with assms(1) show ?thesis
    using execute_register_validator_frame by (fastforce simp: hub_execute_def no_flow_def)
next
  case (DeregisterValidator v)
  with assms(1) show ?thesis using deregister_same_vault by (auto simp: hub_execute_def)
next
  case (UpdateParams a b c d e)
  with assms(1) show ?thesis
    by (auto simp: hub_execute_def execute_update_params_def Let_def no_flow_def)
next
  case (UpdateConfig t c)
  with assms(1) have ok: "execute_update_config L st info t c = Ok (st', r)" by (auto simp: hub_execute_def)
  then have "no_flow (messages r)"
    by (auto simp: execute_update_config_def no_flow_def flow_defs res_simps split: option.splits if_splits)
  moreover have "st' = st\<lparr>CONFIG := CONFIG st'\<rparr>" using ok by (rule execute_update_config_frame)
  then have "same_vault st st'" using same_vault_update(3) by metis
  ultimately show ?thesis by blast
next
  case (UpdateAdmin a)
  with assms(1) show ?thesis using update_admin_same_vault by (auto simp: hub_execute_def)
qed (use assms in \<open>auto simp: hub_execute_def checks_slashing_def no_flow_def\<close>)

lemma check_vault:
  assumes "execute_slashing L Q st env = Ok (st', r)" and "tokens acc = reported L Q st"
    and "CURRENT_BATCH st = Some cb"
  shows "vault_message CheckSlashing (shortfall Q st env) (vault_of st acc)
    (vault_of st' (account_after Q st env CheckSlashing r acc))"
proof -
  from assms(1) have sl: "slashing L Q st env = Ok st'" and "messages r = []"
    by (auto simp: execute_slashing_def)
  then have "account_after Q st env CheckSlashing r acc
      = acc\<lparr>written_off := written_off acc + shortfall Q st env\<rparr>"
    by (simp add: account_after_def missing_def checks_slashing_def)
  with slashing_vault [OF sl assms(3,2)] show ?thesis by (simp add: vault_message_def)
qed

lemma message_vault:
  assumes "hub_inv L st" and "hub_execute L Q st env info msg = Ok (st', r)"
    and "prices msg \<Longrightarrow> tokens acc = reported L Q st"
  shows "vault_message msg (missing Q st env msg) (vault_of st acc)
    (vault_of st' (account_after Q st env msg r acc))"
proof -
  obtain p s cb where p: "PARAMETERS st = Some p" and s: "STATE st = Some s" and cb: "CURRENT_BATCH st = Some cb"
    using assms(1) by (rule hub_invE)
  show ?thesis
  proof (cases "prices msg")
    case False
    then have "\<not> checks_slashing msg" "msg \<noteq> UpdateExchangeRate" by (simp_all add: prices_def)
    then have same: "vault_of st' (account_after Q st env msg r acc) = vault_of st acc"
      using message_same_vault [OF assms(2) _ _ p s] same_vault_of by blast
    from False show ?thesis unfolding same
      by (cases msg) (auto simp: vault_message_def missing_def prices_def checks_slashing_def vault_slash_def)
  next
    case True
    note supp = assms(3) [OF True]
    from True show ?thesis
    proof (cases msg)
      case (Bond v)
      with assms(2) have "execute_bond L Q st env info v = Ok (st', r)" by (auto simp: hub_execute_def)
      from bond_vault [OF this supp] Bond show ?thesis by (simp add: missing_def checks_slashing_def)
    next
      case (Receive c)
      with assms(2) have "execute_unbond L Q st env (cw20_amount c) (cw20_sender c) = Ok (st', r)"
        by (blast intro: receive_unbonds)
      from unbond_vault [OF this supp p cb s] Receive show ?thesis
        by (simp add: missing_def checks_slashing_def)
    next
      case CheckSlashing
      with assms(2) have "execute_slashing L Q st env = Ok (st', r)" by (auto simp: hub_execute_def)
      from check_vault [OF this supp cb] CheckSlashing show ?thesis
        by (simp add: missing_def checks_slashing_def)
    next
      case UpdateExchangeRate
      with assms(2) have "execute_update_exchange_rate L Q st env info = Ok (st', r)"
        by (auto simp: hub_execute_def)
      from compound_vault [OF this supp] UpdateExchangeRate show ?thesis
        by (simp add: missing_def checks_slashing_def)
    qed (auto simp: checks_slashing_def prices_def)
  qed
qed

end

section \<open>Runs\<close>

text \<open>
  A run of the hub with its account, from an instantiation with at most as many tokens as coins were
  bonded. Token holders may burn tokens of their own between messages.
\<close>

inductive account_run ::
  "cw_lib \<Rightarrow> (hub_storage \<Rightarrow> querier \<Rightarrow> hub_execute_msg \<Rightarrow> account \<Rightarrow> bool) \<Rightarrow> hub_storage \<Rightarrow> account \<Rightarrow> bool"
  for L G where
  start: "hub_instantiate L empty_storage env info im = Ok (st, r) \<Longrightarrow> n \<le> delegated_by (messages r) \<Longrightarrow>
    account_run L G st \<lparr>put_in = delegated_by (messages r), taken_out = 0, written_off = 0, tokens = n\<rparr>"
| message: "account_run L G st acc \<Longrightarrow> hub_execute L Q st env info msg = Ok (st', r) \<Longrightarrow> G st Q msg acc \<Longrightarrow>
    account_run L G st' (account_after Q st env msg r acc)"
| migration: "account_run L G st acc \<Longrightarrow> hub_migrate L st mm = Ok (st', r) \<Longrightarrow> account_run L G st' acc"
| burnt: "account_run L G st acc \<Longrightarrow> n \<le> tokens acc \<Longrightarrow> account_run L G st (acc\<lparr>tokens := n\<rparr>)"

text \<open>
  The runs in which the chain answers the supply of the token as it is, and rewards arrive only while
  something is bonded.
\<close>

definition honest :: "cw_lib \<Rightarrow> hub_storage \<Rightarrow> querier \<Rightarrow> hub_execute_msg \<Rightarrow> account \<Rightarrow> bool" where
  "honest L st Q msg acc =
     ((prices msg \<longrightarrow> tokens acc = reported L Q st)
      \<and> (msg = UpdateExchangeRate \<longrightarrow> 0 < bonded (vault_of st acc)))"

lemma migrate_same_vault:
  assumes "hub_migrate L st mm = Ok (st', r)"
  shows "vault_of st' acc = vault_of st acc"
proof -
  from assms obtain c where "st' = st\<lparr>CONFIG := c\<rparr>" by (auto simp: hub_migrate_def migrate_config_def)
  then show ?thesis by (simp add: vault_of_def)
qed

lemma instantiate_vault:
  assumes "hub_instantiate L empty_storage env info im = Ok (st, r)"
  shows "bonded (vault_of st acc) = delegated_by (messages r) \<and> price (vault_of st acc) = E18
    \<and> queued (vault_of st acc) = 0"
  using assms by (auto simp: hub_instantiate_def Let_def vault_of_def flow_defs)

context cosmwasm
begin

lemma account_run_inv: "account_run L G st acc \<Longrightarrow> hub_inv L st"
  by (induction rule: account_run.induct) (auto intro: instantiate_inv message_preserves migrate_preserves)

lemma account_run_balanced: "account_run L G st acc \<Longrightarrow> balanced (vault_of st acc)"
proof (induction rule: account_run.induct)
  case (start env info im st r n)
  from instantiate_vault [OF start(1)] show ?case by (simp add: balanced_def)
next
  case (message st acc Q env info msg st' r)
  let ?acc = "acc\<lparr>tokens := reported L Q st\<rparr>"
  have "vault_message msg (missing Q st env msg) (vault_of st ?acc)
      (vault_of st' (account_after Q st env msg r ?acc))"
    using account_run_inv [OF message.hyps(1)] message.hyps(2) by (rule message_vault) simp
  moreover have "balanced (vault_of st ?acc)" using message.IH by (simp add: balanced_def vault_of_def)
  ultimately have "balanced (vault_of st' (account_after Q st env msg r ?acc))" by (rule balanced_message [rotated])
  then show ?case by (simp add: balanced_def vault_of_def account_after_def)
next
  case (migration st acc mm st' r)
  then show ?case by (simp add: migrate_same_vault)
next
  case (burnt st acc n)
  then show ?case by (simp add: balanced_def vault_of_def)
qed

lemma account_run_backed: "account_run L (honest L) st acc \<Longrightarrow> backed (vault_of st acc)"
proof (induction rule: account_run.induct)
  case (start env info im st r n)
  from instantiate_vault [OF start(1)] start(2) show ?case by (simp add: backed_def)
next
  case (message st acc Q env info msg st' r)
  have "vault_message msg (missing Q st env msg) (vault_of st acc)
      (vault_of st' (account_after Q st env msg r acc))"
    by (rule message_vault [OF account_run_inv [OF message.hyps(1)] message.hyps(2)])
      (use message.hyps(3) in \<open>simp add: honest_def\<close>)
  with message.IH show ?case by (rule backed_message) (use message.hyps(3) in \<open>simp add: honest_def\<close>)
next
  case (migration st acc mm st' r)
  then show ?case by (simp add: migrate_same_vault)
next
  case (burnt st acc n)
  from backed_fewer [OF burnt.IH, of n] burnt.hyps(2) show ?case by (simp add: vault_of_def)
qed

end

section \<open>Properties\<close>

text \<open>
  C7: the hub implements the vault. In every reachable state, each successful message moves the vault of
  the storage as its specification says, with what the chain reports missing written off first, and the
  history variables advanced by the delegations, undelegations, mints and burns that the response carries.
  The only hypothesis is that the account's supply is the one the message is priced with.
\<close>

theorem hub_refines_vault:
  assumes "cosmwasm L" and "hub_reachable L G st" and "hub_execute L Q st env info msg = Ok (st', r)"
    and "prices msg \<Longrightarrow> tokens acc = reported L Q st"
  shows "vault_message msg (missing Q st env msg) (vault_of st acc)
    (vault_of st' (account_after Q st env msg r acc))"
  using cosmwasm.reachable_inv [OF assms(1,2)] assms(3,4) by (rule cosmwasm.message_vault [OF assms(1)])

text \<open>
  C5: the bonded amount is exactly what the flows leave. Over every run, whatever the chain answers, the
  stored bond plus all the hub ever undelegated plus all the slashing checks ever found missing is what it
  ever delegated: the instantiation's payment, the bonds and the compounded rewards.
\<close>

theorem bond_account:
  assumes "cosmwasm L" and "account_run L G st acc"
  shows "\<exists>s. STATE st = Some s \<and> unat (total_bond_amount s) + taken_out acc + written_off acc = put_in acc"
proof -
  obtain s where "STATE st = Some s" using cosmwasm.account_run_inv [OF assms] by (rule hub_invE)
  with cosmwasm.account_run_balanced [OF assms] show ?thesis by (simp add: balanced_def)
qed

text \<open>
  C2: the tokens are backed. Over every run that starts with at most as many tokens as coins bonded at
  instantiation, and in which the chain answers the token's supply as it is and rewards arrive only while
  something is bonded, all tokens and all requests of the current batch, at the stored rate, are worth at
  most the bonded amount, unless that is zero.
\<close>

theorem tokens_backed:
  assumes "cosmwasm L" and "account_run L (honest L) st acc"
  shows "\<exists>s cb. STATE st = Some s \<and> CURRENT_BATCH st = Some cb \<and> (0 < unat (total_bond_amount s) \<longrightarrow>
    (tokens acc + unat (requested_with_fee cb)) * units (exchange_rate s) \<le> unat (total_bond_amount s) * E18)"
proof -
  obtain s cb where "STATE st = Some s" "CURRENT_BATCH st = Some cb"
    using cosmwasm.account_run_inv [OF assms] by (rule hub_invE)
  with cosmwasm.account_run_backed [OF assms] show ?thesis by (simp add: backed_def)
qed

text \<open>
  C9: nobody's tokens lose value to a message of somebody else. After any run that starts with at most as
  many tokens as coins bonded at instantiation, in which the chain answers the token's supply as it is and rewards arrive only while something is bonded, and while something is
  bonded, a message at which the chain reports nothing missing never lowers the rate of the tokens and
  requests that remain; a bond, which divides its payment by the rate cut to nine digits, lowers it at
  most to those nine digits.
\<close>

theorem rate_never_falls:
  assumes "cosmwasm L" and "account_run L (honest L) st acc" and "hub_execute L Q st env info msg = Ok (st', r)"
    and "honest L st Q msg acc" and "missing Q st env msg = 0"
    and "STATE st = Some s" and "STATE st' = Some s'" and "CURRENT_BATCH st' = Some cb'"
    and "0 < total_bond_amount s" and "acc' = account_after Q st env msg r acc"
    and "0 < tokens acc' + unat (requested_with_fee cb')"
  shows "(case msg of Bond _ \<Rightarrow> units (exchange_rate s) div 1000000000 * 1000000000
      | _ \<Rightarrow> units (exchange_rate s)) \<le> units (exchange_rate s')"
proof -
  have "vault_message msg 0 (vault_of st acc) (vault_of st' acc')"
    using cosmwasm.message_vault [OF assms(1) cosmwasm.account_run_inv [OF assms(1,2)] assms(3)] assms(4,5,10)
    by (simp add: honest_def)
  moreover have "0 < bonded (vault_of st acc)" using assms(6,9) by (simp add: word_less_nat_alt)
  moreover have "0 < claims_of (vault_of st' acc')" using assms(8,11) by simp
  ultimately have "(case msg of Bond _ \<Rightarrow> price (vault_of st acc) div 1000000000 * 1000000000
      | _ \<Rightarrow> price (vault_of st acc)) \<le> price (vault_of st' acc')"
    by (rule price_message [OF cosmwasm.account_run_backed [OF assms(1,2)]])
  with assms(6,7) show ?thesis by (simp cong: hub_execute_msg.case_cong)
qed

section \<open>A concrete run\<close>

text \<open>After the batch is closed, rewards are compounded and then ten percent of the stake is slashed.\<close>

definition run_compounded :: hub_storage where
  "run_compounded = run_closed\<lparr>STATE := Some (sample_state\<lparr>exchange_rate := Decimal 1250000000000000000,
     total_bond_amount := 500, last_unbonded_time := 200\<rparr>)\<rparr>"

definition run_slashed :: hub_storage where
  "run_slashed = run_closed\<lparr>STATE := Some (sample_state\<lparr>exchange_rate := Decimal 1125000000000000000,
     total_bond_amount := 450, last_unbonded_time := 200\<rparr>)\<rparr>"

abbreviation account_at :: "nat \<Rightarrow> nat \<Rightarrow> nat \<Rightarrow> nat \<Rightarrow> account" where
  "account_at a b c n \<equiv> \<lparr>put_in = a, taken_out = b, written_off = c, tokens = n\<rparr>"

lemma account_run_step:
  assumes "account_run L G st acc"
    and "\<exists>r. hub_execute L Q st env info msg = Ok (st', r) \<and> account_after Q st env msg r acc = acc'"
    and "G st Q msg acc"
  shows "account_run L G st' acc'"
  using assms account_run.message by blast

lemmas account_evals = account_after_def missing_def shortfall_def checks_slashing_def staked_def flow_defs
  honest_def prices_def reported_def vault_of_def

lemma run_start_account: "account_run ref_lib (honest ref_lib) run_start (account_at 1000 0 0 1000)"
proof -
  obtain r where "hub_instantiate ref_lib empty_storage (sample_env 100)
      \<lparr>sender = ''owner'', funds = [\<lparr>denom = ''uluna'', coin_amount = 1000\<rparr>]\<rparr> sample_instantiate
      = Ok (run_start, r)" and "delegated_by (messages r) = 1000"
    by (simp add: eval_defs sample_instantiate_def run_defs flow_defs)
  with account_run.start [OF this(1), of 1000] show ?thesis by simp
qed

lemma run_closed_account: "account_run ref_lib (honest ref_lib) run_closed (account_at 1000 600 0 400)"
proof -
  have "account_run ref_lib (honest ref_lib) run_token (account_at 1000 0 0 1000)"
    by (rule account_run_step [OF run_start_account, of "sample_querier 1000 1000 0" "sample_env 100"
          "\<lparr>sender = ''owner'', funds = []\<rparr>" "UpdateConfig (Some ''token'') None"])
      (simp_all add: eval_defs run_defs account_evals)
  then have "account_run ref_lib (honest ref_lib) run_request (account_at 1000 0 0 700)"
    by (rule account_run_step [of _ _ _ _ "sample_querier 1000 1000 0" "sample_env 110"
          "\<lparr>sender = ''token'', funds = []\<rparr>" "Receive \<lparr>cw20_sender = ''alice'', cw20_amount = 300, cw20_msg = [0]\<rparr>"])
      (simp_all add: eval_defs Let_def run_defs account_evals)
  then show ?thesis
    by (rule account_run_step [of _ _ _ _ "sample_querier 1000 700 0" "sample_env 200"
          "\<lparr>sender = ''token'', funds = []\<rparr>" "Receive \<lparr>cw20_sender = ''bob'', cw20_amount = 300, cw20_msg = [0]\<rparr>"])
      (simp_all add: eval_defs Let_def run_defs account_evals)
qed

lemma run_compounded_step: "\<exists>r. hub_execute ref_lib (sample_querier 400 400 0) run_closed (sample_env 210)
    \<lparr>sender = ''rewards'', funds = [\<lparr>denom = ''uluna'', coin_amount = 100\<rparr>]\<rparr> UpdateExchangeRate
      = Ok (run_compounded, r)
    \<and> account_after (sample_querier 400 400 0) run_closed (sample_env 210) UpdateExchangeRate r
        (account_at 1000 600 0 400) = account_at 1100 600 0 400"
  by (simp add: eval_defs Let_def run_compounded_def run_defs account_evals)

lemma run_compounded_honest:
  "honest ref_lib run_closed (sample_querier 400 400 0) UpdateExchangeRate (account_at 1000 600 0 400)"
  by (simp add: eval_defs run_defs account_evals)

lemma run_slashed_account: "account_run ref_lib (honest ref_lib) run_slashed (account_at 1100 600 50 400)"
proof -
  have "account_run ref_lib (honest ref_lib) run_compounded (account_at 1100 600 0 400)"
    using run_closed_account run_compounded_step run_compounded_honest by (rule account_run_step)
  then show ?thesis
    by (rule account_run_step [of _ _ _ _ "sample_querier 450 400 0" "sample_env 220"
          "\<lparr>sender = ''carol'', funds = []\<rparr>" CheckSlashing])
      (simp_all add: eval_defs Let_def run_compounded_def run_slashed_def run_defs account_evals)
qed

theorem hub_refines_vault_witness:
  "\<exists>r. hub_execute ref_lib (sample_querier 400 400 0) run_closed (sample_env 210)
      \<lparr>sender = ''rewards'', funds = [\<lparr>denom = ''uluna'', coin_amount = 100\<rparr>]\<rparr> UpdateExchangeRate
      = Ok (run_compounded, r)
    \<and> vault_message UpdateExchangeRate 0 (vault_of run_closed (account_at 1000 600 0 400))
        (vault_of run_compounded (account_at 1100 600 0 400))"
proof -
  from run_compounded_step obtain r where ok: "hub_execute ref_lib (sample_querier 400 400 0) run_closed
      (sample_env 210) \<lparr>sender = ''rewards'', funds = [\<lparr>denom = ''uluna'', coin_amount = 100\<rparr>]\<rparr>
      UpdateExchangeRate = Ok (run_compounded, r)"
    and acc: "account_after (sample_querier 400 400 0) run_closed (sample_env 210) UpdateExchangeRate r
        (account_at 1000 600 0 400) = account_at 1100 600 0 400" by blast
  have "hub_reachable ref_lib (\<lambda>_ _ _ _. True) run_closed" by (rule run_closed_reached(2)) simp
  from hub_refines_vault [OF cosmwasm_ref_lib this ok, of "account_at 1000 600 0 400"] acc
    run_compounded_honest ok
  show ?thesis by (simp add: honest_def missing_def checks_slashing_def)
qed

theorem bond_account_witness:
  "\<exists>s. STATE run_slashed = Some s \<and> unat (total_bond_amount s) + 600 + 50 = 1100"
  using bond_account [OF cosmwasm_ref_lib run_slashed_account] by simp

theorem tokens_backed_witness:
  "\<exists>s. STATE run_slashed = Some s \<and> 400 * units (exchange_rate s) \<le> 450 * E18"
  using tokens_backed [OF cosmwasm_ref_lib run_slashed_account]
  by (simp add: run_slashed_def run_closed_def)

text \<open>A validator is listed and a bond of 100 coins follows, at the rate of 1.125.\<close>

definition run_listed :: hub_storage where
  "run_listed = run_slashed\<lparr>VALIDATORS := [(to_vec_str ref_lib ''val1'', True)]\<rparr>"

lemma run_listed_account: "account_run ref_lib (honest ref_lib) run_listed (account_at 1100 600 50 400)"
  by (rule account_run_step [OF run_slashed_account, of "sample_querier 450 400 0" "sample_env 230"
        "\<lparr>sender = ''owner'', funds = []\<rparr>" "RegisterValidator ''val1''"])
    (simp_all add: eval_defs Let_def run_listed_def run_slashed_def run_defs account_evals)

theorem rate_never_falls_witness:
  "\<exists>st' r s'. hub_execute ref_lib (sample_querier 450 400 0) run_listed (sample_env 240)
      \<lparr>sender = ''dave'', funds = [\<lparr>denom = ''uluna'', coin_amount = 100\<rparr>]\<rparr> (Bond ''val1'') = Ok (st', r)
    \<and> minted_by (messages r) = 88 \<and> STATE st' = Some s' \<and> 1125000000000000000 \<le> units (exchange_rate s')"
    (is "\<exists>st' r s'. hub_execute _ ?Q _ ?env ?info ?msg = _ \<and> _")
proof -
  obtain st' r s' cb' where ok: "hub_execute ref_lib ?Q run_listed ?env ?info ?msg = Ok (st', r)"
    and mint: "minted_by (messages r) = 88" "burnt_by (messages r) = 0"
    and s': "STATE st' = Some s'" "CURRENT_BATCH st' = Some cb'"
    by (simp add: eval_defs Let_def run_listed_def run_slashed_def run_defs flow_defs less_decimal_def)
  obtain s where s: "STATE run_listed = Some s" "0 < total_bond_amount s"
    "units (exchange_rate s) = 1125000000000000000"
    by (simp add: run_listed_def run_slashed_def run_defs)
  have "honest ref_lib run_listed ?Q ?msg (account_at 1100 600 50 400)" "missing ?Q run_listed ?env ?msg = 0"
    by (simp_all add: eval_defs run_listed_def run_slashed_def run_defs account_evals)
  moreover have "0 < tokens (account_after ?Q run_listed ?env ?msg r (account_at 1100 600 50 400))
      + unat (requested_with_fee cb')" by (simp add: account_after_def mint)
  ultimately have "units (exchange_rate s) div 1000000000 * 1000000000 \<le> units (exchange_rate s')"
    using rate_never_falls [OF cosmwasm_ref_lib run_listed_account ok _ _ s(1) s' s(2) refl] by simp
  with ok mint s' s(3) show ?thesis by simp
qed

end
