(* ===== verification/HubProgress.thy ===== *)
theory HubProgress
  imports HubSolvency
begin

text \<open>
  Progress of withdrawals: the conditions under which the release of matured batches goes through
  without an error or a panic, and that from then on nothing but the lack of a finished claim stops a
  user from being paid.
\<close>

section \<open>Batches that can be released\<close>

text \<open>
  A run of batches is releasable when their claims fit 128 bits and all of them can be settled against
  what was received.
\<close>

definition releasable :: "hub_storage \<Rightarrow> u64 list \<Rightarrow> nat \<Rightarrow> bool" where
  "releasable st run received =
     (let claims = (\<Sum>b\<leftarrow>run. unbonded (HISTORY st) b) in
      claims < 2 ^ 128
      \<and> (\<forall>b \<in> set run. case kv_get (HISTORY st) (to_be_bytes b) of None \<Rightarrow> False
          | Some h \<Rightarrow> can_settle claims received h))"

lemma releasable_can_settle:
  assumes "releasable st run received" and "b \<in> set run"
    and "claims = (\<Sum>b\<leftarrow>run. unbonded (HISTORY st) b)"
  shows "\<exists>h. kv_get (HISTORY st) (to_be_bytes b) = Some h \<and> can_settle claims received h
           \<and> claimed_by h \<le> claims"
proof -
  have "unbonded (HISTORY st) b \<le> claims"
    unfolding assms(3) using assms(2) by (intro member_le_sum_list) auto
  with assms show ?thesis
    by (auto simp: releasable_def Let_def unbonded_claimed_by split: option.splits)
qed

lemma releasable_Nil [simp]: "releasable st [] received"
  by (simp add: releasable_def)

context cosmwasm
begin

lemma count_loop_total:
  assumes "\<And>b. b \<in> set (due_ids (HISTORY st) t i) \<Longrightarrow> unat b + 1 < 2 ^ 64"
    and "unat n + (\<Sum>b\<leftarrow>due_ids (HISTORY st) t i. unbonded (HISTORY st) b) < 2 ^ 128"
    and "unat c + length (due_ids (HISTORY st) t i) < 2 ^ 64"
  shows "is_ok (count_loop L st t i n c)"
  using assms
proof (induction "2 ^ 64 - unat i" arbitrary: i n c rule: less_induct)
  case less
  show ?case
  proof (cases "matured (HISTORY st) t i")
    case False
    then show ?thesis by (simp add: count_loop_stop)
  next
    case True
    then obtain h where h: "read_unbond_history st i = Ok h"
      "kv_get (HISTORY st) (to_be_bytes i) = Some h" by (rule maturedE)
    have "i \<in> set (due_ids (HISTORY st) t i)" using True by (subst due_ids.simps) simp
    then have "unat i + 1 < 2 ^ 64" by (rule less.prems(1))
    then have j: "u64_add i 1 = Ok (i + 1)" by (simp add: u64_add_def)
    note ids = due_ids_Cons [OF True j]
    have fits: "unat n + claimed_by h + (\<Sum>b\<leftarrow>due_ids (HISTORY st) t (i + 1). unbonded (HISTORY st) b) < 2 ^ 128"
      using less.prems(2) by (simp add: ids unbonded_claimed_by [OF h(2)])
    obtain u where u: "uint_mul_dec L (hist_amount h) (withdraw_rate h) = Ok u" "unat u = claimed_by h"
      using mul_dec_fits [of "hist_amount h" "withdraw_rate h"] fits by (auto simp: claimed_by_def)
    have m: "uint_add L n u = Ok (n + u)" using fits u(2) by (intro uint_add_fits) simp
    then have m': "unat (n + u) = unat n + claimed_by h" using u(2) by (simp add: uint_add_iff)
    have "unat c + 1 < 2 ^ 64" using less.prems(3) by (simp add: ids)
    then have d: "u64_add c 1 = Ok (c + 1)" by (simp add: u64_add_def)
    then have d': "unat (c + 1) = unat c + 1" by (simp add: u64_add_eq_Ok)
    have "2 ^ 64 - unat (i + 1) < 2 ^ 64 - unat i" using u64_add_one_decreases [OF j] by simp
    then have "is_ok (count_loop L st t (i + 1) (n + u) (c + 1))"
      by (rule less.hyps) (use less.prems fits in \<open>simp_all add: ids m' d'\<close>)
    then show ?thesis by (simp add: count_loop_step [OF True h(1)] u(1) m d j)
  qed
qed

lemma actual_unbonded_total:
  assumes "unat u \<le> unat n" and "0 < unat n"
    and "unat received \<le> unat n \<Longrightarrow> slash_cut (unat n) (unat n - unat received) (unat u) < 2 ^ 128"
    and "from_subtraction L n received = Ok d"
    and "unat n < unat received \<Longrightarrow> 1 \<le> slash_share (unat n) (unat received - unat n) (unat u)"
  shows "is_ok (actual_unbonded_of_batch L n d u)"
proof -
  have "unat u * E18 div unat n \<le> E18"
    using mult_div_le [OF assms(1), of E18] by (simp add: mult.commute)
  then obtain w where w: "dec_from_ratio L u n = Ok w" "units w = unat u * E18 div unat n"
    using from_ratio_fits [OF assms(2), of u] by fastforce
  then have "w \<le> dec_one" using \<open>unat u * E18 div unat n \<le> E18\<close> by (simp add: decimal_le_units)
  then obtain s where s: "uint_mul_dec L (magnitude d) w = Ok s" "s \<le> magnitude d"
    using mul_dec_le_one by blast
  have share: "unat s = slash_share (unat n) (unat (magnitude d)) (unat u)"
    using s(1) w(2) by (simp add: mul_dec_iff slash_share_def mult.commute)
  have d: "d = (if received \<le> n then SignedInt (n - received) False else SignedInt (received - n) True)"
    using assms(4) by (simp add: from_subtraction_eq)
  show ?thesis
  proof (cases "received \<le> n")
    case True
    with d have mag: "magnitude d = n - received" "\<not> negative d" by simp_all
    have "uint_add L s 1 = Ok (s + 1)" if "magnitude d \<noteq> 0"
    proof (rule uint_add_fits)
      have diff: "unat (magnitude d) = unat n - unat received" unfolding mag(1) using True by (rule unat_sub_le)
      moreover have "unat (magnitude d) \<noteq> 0" using that by (simp only: unat_eq_zero not_False_eq_True)
      ultimately have "slash_cut (unat n) (unat n - unat received) (unat u) = unat s + 1"
        by (simp only: slash_cut_def share if_False)
      with True assms(3) show "unat s + unat (1 :: u128) < 2 ^ 128" by (simp add: word_le_nat_alt)
    qed
    then show ?thesis using w(1) s(1) mag(2)
      by (cases "magnitude d = 0") (simp_all add: actual_unbonded_of_batch_def from_subtraction_eq)
  next
    case False
    with d have mag: "magnitude d = received - n" "negative d" by simp_all
    from False have lt: "n < received" by simp
    then have "1 \<le> unat s"
      using assms(5) share mag by (simp add: unat_sub_le word_less_nat_alt less_imp_le)
    then have sub: "uint_checked_sub L s 1 = Ok (s - 1)" and s1: "unat (s - 1) = unat s - 1"
      by (simp_all add: checked_sub_le word_le_nat_alt unat_sub_le)
    have "unat s \<le> unat received - unat n"
      using s(2) unat_sub_le [OF less_imp_le [OF lt]] by (simp add: mag word_le_nat_alt)
    then have "unat u + unat (s - 1) \<le> unat received" using assms(1) s1 lt by (simp add: word_less_nat_alt)
    then have "unat u + unat (s - 1) < 2 ^ 128" by (rule le_less_trans) simp
    then have "is_ok (uint_add L u (s - 1))" by (simp add: uint_add_fits)
    then show ?thesis using w(1) s(1) mag(2) sub by (simp add: actual_unbonded_of_batch_def)
  qed
qed

lemma release_history_total:
  assumes "can_settle (unat n) (unat received) h" and "from_subtraction L n received = Ok d"
    and "claimed_by h \<le> unat n"
  shows "is_ok (release_history L n d h)"
proof -
  note can = assms(1) [unfolded can_settle_def]
  have "claimed_by h < 2 ^ 128" using assms(3) by (rule le_less_trans) simp
  then obtain u where u: "uint_mul_dec L (hist_amount h) (withdraw_rate h) = Ok u" "unat u = claimed_by h"
    using mul_dec_fits [of "hist_amount h" "withdraw_rate h"] by (auto simp: claimed_by_def)
  have "is_ok (actual_unbonded_of_batch L n d u)"
    by (rule actual_unbonded_total [OF _ _ _ assms(2)]) (use can u(2) assms(3) in simp_all)
  then obtain a where a: "actual_unbonded_of_batch L n d u = Ok a" by (auto simp: is_ok_iff)
  then have "unat a = settled (unat n) (unat received) (claimed_by h)"
    using actual_unbonded_of_batch_OkD(1) [OF a assms(2)] u(2) by simp
  then obtain r where "dec_from_ratio L a (hist_amount h) = Ok r"
    using from_ratio_fits [of "hist_amount h" a] can by auto
  with u(1) a show ?thesis by (simp add: release_history_def)
qed

lemma release_loop_total:
  assumes "from_subtraction L n received = Ok d"
    and "\<And>b. b \<in> set (due_ids (HISTORY st) t i) \<Longrightarrow> unat b + 1 < 2 ^ 64
           \<and> (\<exists>h. kv_get (HISTORY st) (to_be_bytes b) = Some h \<and> can_settle (unat n) (unat received) h
                 \<and> claimed_by h \<le> unat n)"
  shows "is_ok (release_loop L st t n d l i)"
  using assms(2)
proof (induction "2 ^ 64 - unat i" arbitrary: i st l rule: less_induct)
  case less
  show ?case
  proof (cases "matured (HISTORY st) t i")
    case False
    then show ?thesis by (simp add: release_loop_stop)
  next
    case True
    have mem: "i \<in> set (due_ids (HISTORY st) t i)" using True by (subst due_ids.simps) simp
    from True obtain h where h: "read_unbond_history st i = Ok h"
      "kv_get (HISTORY st) (to_be_bytes i) = Some h" by (rule maturedE)
    with less.prems [OF mem] have can: "can_settle (unat n) (unat received) h"
      and le: "claimed_by h \<le> unat n" and j: "u64_add i 1 = Ok (i + 1)" by (simp_all add: u64_add_def)
    from release_history_total [OF can assms(1) le] obtain h' where h': "release_history L n d h = Ok h'"
      by (auto simp: is_ok_iff)
    let ?st = "st\<lparr>HISTORY := kv_put (HISTORY st) (to_be_bytes i) h'\<rparr>"
    have "i < i + 1" using j by (simp add: u64_add_eq_Ok word_less_nat_alt)
    then have ids: "due_ids (HISTORY ?st) t (i + 1) = due_ids (HISTORY st) t (i + 1)"
      by (simp add: due_ids_put_less)
    have closer: "2 ^ 64 - unat (i + 1) < 2 ^ 64 - unat i" using u64_add_one_decreases [OF j] by simp
    have "is_ok (release_loop L ?st t n d i (i + 1))"
    proof (rule less.hyps [OF closer])
      fix b assume b: "b \<in> set (due_ids (HISTORY ?st) t (i + 1))"
      then have "b \<noteq> i" using due_ids_ge [of b] \<open>i < i + 1\<close> by fastforce
      moreover have "b \<in> set (due_ids (HISTORY st) t i)" using b by (simp add: ids [simplified] due_ids_Cons [OF True j])
      ultimately show "unat b + 1 < 2 ^ 64 \<and> (\<exists>h. kv_get (HISTORY ?st) (to_be_bytes b) = Some h
          \<and> can_settle (unat n) (unat received) h \<and> claimed_by h \<le> unat n)"
        using less.prems by simp
    qed
    then show ?thesis by (simp add: release_loop_step [OF True h(1)] h' j store_unbond_history_def)
  qed
qed

lemma process_withdraw_rate_total:
  assumes "STATE st = Some s" and "unat (last_processed_batch s) + 1 < 2 ^ 64"
    and fits: "received_by s bal < 2 ^ 128"
    and ids: "\<And>b. b \<in> set (matured_run st s t) \<Longrightarrow> unat b + 1 < 2 ^ 64"
    and run: "releasable st (matured_run st s t) (received_by s bal)"
  shows "is_ok (process_withdraw_rate L st t bal)"
proof -
  let ?claims = "\<Sum>b\<leftarrow>matured_run st s t. unbonded (HISTORY st) b"
  let ?l = "last_processed_batch s"
  from assms(2) have i: "u64_add ?l 1 = Ok (?l + 1)" by (simp add: u64_add_def)
  obtain d where d: "from_subtraction L bal (prev_hub_balance s) = Ok d"
    and mag: "received_by s bal = unat (actual_unbonded_amount s) + unat (magnitude d)"
    by (auto simp: from_subtraction_eq received_by_def unat_sub_le)
  obtain received where rec: "uint_add L (actual_unbonded_amount s) (magnitude d) = Ok received"
    "unat received = received_by s bal"
    using uint_add_fits fits by (metis mag uint_add_iff)
  have room: "?claims < 2 ^ 128" using run by (simp add: releasable_def Let_def)
  have len: "length (matured_run st s t) < 2 ^ 64"
  proof (cases "matured_run st s t = []")
    case False
    let ?k = "length (matured_run st s t) - 1"
    have "unat (matured_run st s t ! ?k) = unat (?l + 1) + ?k"
      using False unfolding matured_run_def by (intro due_ids_nth) simp
    moreover have "matured_run st s t ! ?k \<in> set (matured_run st s t)" using False by simp
    ultimately show ?thesis using ids [of "matured_run st s t ! ?k"] by simp
  qed simp
  have "is_ok (count_loop L st t (?l + 1) 0 0)"
    by (rule count_loop_total) (use ids room len in \<open>simp_all add: matured_run_def\<close>)
  then obtain n c where n: "count_loop L st t (?l + 1) 0 0 = Ok (n, c)" by (auto simp: is_ok_iff)
  then have n': "unat n = ?claims" using count_loop_OkD [OF n] by (simp add: matured_run_def)
  obtain e where e: "from_subtraction L n received = Ok e" by (simp add: from_subtraction_eq)
  have "is_ok (release_loop L st t n e ?l (?l + 1))"
  proof (rule release_loop_total [OF e])
    show "unat b + 1 < 2 ^ 64 \<and> (\<exists>h. kv_get (HISTORY st) (to_be_bytes b) = Some h
        \<and> can_settle (unat n) (unat received) h \<and> claimed_by h \<le> unat n)"
      if "b \<in> set (due_ids (HISTORY st) t (?l + 1))" for b
      using ids [of b] releasable_can_settle [OF run, of b "unat n"] that n' rec(2)
      by (simp add: matured_run_def)
  qed
  then show ?thesis
    using assms(1) d rec(1) i n e by (auto simp: process_withdraw_rate_def is_ok_iff load_def)
qed

text \<open>Conversely, a release that went through was of a releasable run.\<close>

lemma process_claims_fit:
  assumes "process_withdraw_rate L st t bal = Ok st'" and "STATE st = Some s"
  shows "(\<Sum>b\<leftarrow>matured_run st s t. unbonded (HISTORY st) b) < 2 ^ 128"
proof -
  from assms obtain i n c where i: "u64_add (last_processed_batch s) 1 = Ok i"
    and n: "count_loop L st t i 0 0 = Ok (n, c)"
    by (auto simp: process_withdraw_rate_def res_simps)
  from i have "i = last_processed_batch s + 1" by (auto simp: u64_add_def split: if_splits)
  with count_loop_OkD [OF n] have "(\<Sum>b\<leftarrow>matured_run st s t. unbonded (HISTORY st) b) = unat n"
    by (simp add: matured_run_def)
  then show ?thesis by simp
qed

lemma process_withdraw_rate_releasable:
  assumes "process_withdraw_rate L st t bal = Ok st'" and "STATE st = Some s"
  shows "releasable st (matured_run st s t) (received_by s bal)"
proof -
  obtain l' :: u64 where run: "\<And>b. b \<in> set (matured_run st s t) \<Longrightarrow> \<exists>h h'.
           kv_get (HISTORY st) (to_be_bytes b) = Some h \<and> kv_get (HISTORY st') (to_be_bytes b) = Some h'
         \<and> settles_as (\<Sum>b\<leftarrow>matured_run st s t. unbonded (HISTORY st) b) (received_by s bal) h h'"
    and "unat l' = unat (last_processed_batch s) + length (matured_run st s t)"
    by (rule process_withdraw_rate_OkE [OF assms]) blast
  have "case kv_get (HISTORY st) (to_be_bytes b) of None \<Rightarrow> False
      | Some h \<Rightarrow> can_settle (\<Sum>b\<leftarrow>matured_run st s t. unbonded (HISTORY st) b) (received_by s bal) h"
    if "b \<in> set (matured_run st s t)" for b
    using run [OF that] by (auto simp: settles_as_def)
  with process_claims_fit [OF assms] show ?thesis by (simp add: releasable_def Let_def)
qed

text \<open>In a reachable state every filed batch has a successor id, and so has the last processed one.\<close>

lemma run_ids_fit:
  assumes "books_ok L st cur requested (last_processed_batch s)"
  shows "unat (last_processed_batch s) + 1 < 2 ^ 64"
    and "b \<in> set (matured_run st s t) \<Longrightarrow> unat b + 1 < 2 ^ 64"
proof -
  have below: "unat b + 1 < 2 ^ 64" if "b < cur" for b :: u64
  proof -
    from that have "unat b < unat cur" by (simp add: word_less_nat_alt)
    moreover have "unat cur < 2 ^ 64" by simp
    ultimately show ?thesis by linarith
  qed
  show "unat (last_processed_batch s) + 1 < 2 ^ 64"
    by (rule below) (use assms in \<open>simp add: books_ok_def\<close>)
  assume "b \<in> set (matured_run st s t)"
  then have "matured (HISTORY st) t b" unfolding matured_run_def by (rule due_ids_matured)
  then have "kv_get (HISTORY st) (to_be_bytes b) \<noteq> None"
    by (auto simp: matured_def split: option.splits)
  then show "unat b + 1 < 2 ^ 64" by (intro below) (use assms in \<open>simp add: books_ok_def\<close>)
qed

lemma process_withdraw_rate_iff:
  assumes "hub_inv L st" and "STATE st = Some s"
  shows "is_ok (process_withdraw_rate L st t bal)
     \<longleftrightarrow> releasable st (matured_run st s t) (received_by s bal)"
proof
  assume "is_ok (process_withdraw_rate L st t bal)"
  then show "releasable st (matured_run st s t) (received_by s bal)"
    using process_withdraw_rate_releasable [OF _ assms(2)] by (auto simp: is_ok_iff)
next
  obtain cur requested where zero: "actual_unbonded_amount s = 0"
    and books: "books_ok L st cur requested (last_processed_batch s)"
    using assms by (auto elim!: hub_invE)
  have "received_by s bal \<le> max (unat bal) (unat (prev_hub_balance s))"
    by (simp add: received_by_def zero le_max_iff_disj)
  then have fits: "received_by s bal < 2 ^ 128" by (rule le_less_trans) simp
  assume "releasable st (matured_run st s t) (received_by s bal)"
  then show "is_ok (process_withdraw_rate L st t bal)"
    by (intro process_withdraw_rate_total [OF assms(2) _ fits] run_ids_fit [OF books])
qed

lemma get_unbond_batches_total:
  assumes "bucket_ok L (WAIT st (to_vec_str L u))"
  shows "\<exists>bs. get_unbond_batches L st u = Ok bs"
proof -
  have "is_ok (get_unbond_batches L st u)"
    unfolding get_unbond_batches_def
  proof (rule fold_res_total)
    fix x :: "byte list \<times> u128" and a :: "u64 list"
    assume "x \<in> set (kv_range (WAIT st (to_vec_str L u)) None)"
    then have "fst x \<in> fst ` set (WAIT st (to_vec_str L u))" by (simp add: kv_range_def)
    with assms obtain b where "fst x = to_vec_u64 L b" by (auto simp: bucket_ok_def)
    then show "is_ok ((case x of (k, v) \<Rightarrow> \<lambda>deprecated_batches.
       and_then (unwrap (from_slice_u64 L k)) (\<lambda>user_batch.
       case read_unbond_history st user_batch of
         Ok h \<Rightarrow> Ok (if released h then deprecated_batches @ [user_batch] else deprecated_batches)
       | Err _ \<Rightarrow> Ok deprecated_batches
       | Panic p \<Rightarrow> Panic p)) a)"
      by (cases x) (auto simp: u64_round_trip split: res.splits)
  qed
  then show ?thesis by (simp add: is_ok_iff)
qed

text \<open>After a successful release, a withdrawal pays whatever is finished.\<close>

lemma withdraw_after_release:
  assumes "hub_inv L st" and "solvent L st" and "fair_chain st Q env WithdrawUnbonded"
    and "PARAMETERS st = Some p" and "u64_sub (block_seconds env) (unbonding_period p) = Ok t"
    and "query_balance Q (contract_address env) (underlying_coin_denom p) = Ok bal"
    and st1: "process_withdraw_rate L st t (coin_amount bal) = Ok st1"
  shows "(\<exists>paid st' r. unat paid = finished_total L st1 (to_vec_str L (sender info)) \<and> paid \<noteq> 0
            \<and> execute_withdraw_unbonded L Q st env info = Ok (st', r)
            \<and> messages r
               = [BankSend (sender info) [\<lparr>denom = underlying_coin_denom p, coin_amount = paid\<rparr>]])
         \<or> finished_total L st1 (to_vec_str L (sender info)) = 0
            \<and> is_err (execute_withdraw_unbonded L Q st env info)"
proof -
  let ?u = "to_vec_str L (sender info)"
  from release_covered_by_balance [OF assms] have stores: "stores_ok L st1"
    and owed: "owed L st1 \<le> unat (coin_amount bal)" by simp_all
  from stores have bucket: "bucket_ok L (WAIT st1 ?u)" and fin: "finite (waiting_users st1)"
    by (simp_all add: stores_ok_def)
  have le: "finished_total L st1 ?u \<le> unat (coin_amount bal)"
    using finished_total_le_owed [OF fin] owed by (rule order_trans)
  then have "finished_total L st1 ?u < 2 ^ 128" by (rule le_less_trans) simp
  then obtain paid where paid: "get_finished_amount L st1 (sender info) = Ok paid"
    using get_finished_amount_fits [OF bucket] by blast
  note worth = get_finished_amount_value [OF paid]
  obtain bs where bs: "get_unbond_batches L st1 (sender info) = Ok bs"
    using get_unbond_batches_total [OF bucket] by blast
  have sub: "uint_checked_sub L (coin_amount bal) paid = Ok (coin_amount bal - paid)"
    by (rule checked_sub_le) (use le worth in \<open>simp add: word_le_nat_alt\<close>)
  obtain s cb where s: "STATE st = Some s" and "CURRENT_BATCH st = Some cb" and "stores_ok L st"
    and "books_ok L st (cb_id cb) (requested_with_fee cb) (last_processed_batch s)"
    using assms(1) by (rule hub_invE)
  then obtain s1 where s1: "STATE st1 = Some s1"
    using process_withdraw_rate_preserves [OF st1 s] by metis
  note run = assms(4-6) st1 paid
  show ?thesis
  proof (cases "paid = 0")
    case True
    with run worth show ?thesis by (simp add: execute_withdraw_unbonded_def Let_def load_def)
  next
    case False
    with run bs sub s1 worth show ?thesis
      by (simp add: execute_withdraw_unbonded_def Let_def load_def remove_unbond_wait_list_def
          respond_def)
  qed
qed

end

section \<open>Properties\<close>

text \<open>
  C8: withdrawals make progress. In every state reachable while the chain takes no coins out of the
  hub and slashes stay small, once the unbonding period lies behind, the hub is not paused and the
  matured batches (if any) are releasable, a withdrawal releases them and then pays the caller in one
  transfer everything that is finished for the caller; it returns an error only when that is nothing,
  and it never panics. With no matured batch nothing has to be assumed of the batches.
\<close>

theorem withdrawal_progress:
  assumes "cosmwasm L" and "hub_reachable L fair_chain st" and "fair_chain st Q env WithdrawUnbonded"
    and "is_ok (is_contract_paused st)" and "PARAMETERS st = Some p" and "STATE st = Some s"
    and "unat (unbonding_period p) + unat t = unat (block_seconds env)"
    and "query_balance Q (contract_address env) (underlying_coin_denom p) = Ok bal"
    and "matured_run st s t \<noteq> [] \<Longrightarrow>
           releasable st (matured_run st s t) (received_by s (coin_amount bal))"
  shows "\<exists>st1. process_withdraw_rate L st t (coin_amount bal) = Ok st1
    \<and> (if 0 < finished_total L st1 (to_vec_str L (sender info))
       then \<exists>paid st' r. unat paid = finished_total L st1 (to_vec_str L (sender info))
            \<and> hub_execute L Q st env info WithdrawUnbonded = Ok (st', r)
            \<and> messages r
               = [BankSend (sender info) [\<lparr>denom = underlying_coin_denom p, coin_amount = paid\<rparr>]]
       else is_err (hub_execute L Q st env info WithdrawUnbonded))"
proof -
  note inv = cosmwasm.reachable_inv [OF assms(1,2)] and solvent = cosmwasm.reachable_solvent [OF assms(1,2)]
  have t: "u64_sub (block_seconds env) (unbonding_period p) = Ok t"
    using assms(7) by (auto simp: u64_sub_eq_Ok word_le_nat_alt word_unat_eq_iff unat_sub)
  have "releasable st (matured_run st s t) (received_by s (coin_amount bal))"
    using assms(9) by (cases "matured_run st s t = []") simp_all
  then obtain st1 where st1: "process_withdraw_rate L st t (coin_amount bal) = Ok st1"
    using cosmwasm.process_withdraw_rate_iff [OF assms(1) inv assms(6)] by (auto simp: is_ok_iff)
  from cosmwasm.withdraw_after_release [OF assms(1) inv solvent assms(3,5) t assms(8) st1, of info]
  show ?thesis using st1 assms(4)
    by (auto simp: hub_execute_def is_ok_iff unat_eq_zero intro!: exI [of _ st1])
qed

text \<open>
  C11: when the release of batches goes through. In a reachable state, processing the withdraw rates goes through
  exactly when the claims of the matured batches fit 128 bits and each of them is settled without a
  fault: together they claim something, the batch is not empty, a surplus leaves the batch a share of
  at least one coin, and its cut and new rate fit. Every withdrawal runs this step first.
\<close>

theorem release_exactly_when:
  assumes "cosmwasm L" and "hub_reachable L G st" and "STATE st = Some s"
  shows "is_ok (process_withdraw_rate L st t bal) \<longleftrightarrow>
     (let run = matured_run st s t;
          claims = (\<Sum>b\<leftarrow>run. unbonded (HISTORY st) b);
          received = received_by s bal
      in claims < 2 ^ 128 \<and> (\<forall>b \<in> set run. \<exists>h. kv_get (HISTORY st) (to_be_bytes b) = Some h
           \<and> 0 < claims \<and> 0 < unat (hist_amount h)
           \<and> (claims < received \<longrightarrow> 1 \<le> slash_share claims (received - claims) (unbonded (HISTORY st) b))
           \<and> (received \<le> claims \<longrightarrow> slash_cut claims (claims - received) (unbonded (HISTORY st) b) < 2 ^ 128)
           \<and> settled claims received (unbonded (HISTORY st) b) * E18 div unat (hist_amount h) < 2 ^ 128))"
  unfolding cosmwasm.process_withdraw_rate_iff [OF assms(1) cosmwasm.reachable_inv [OF assms(1,2)] assms(3)]
  unfolding releasable_def Let_def can_settle_def
  by (intro conj_cong refl ball_cong) (simp add: unbonded_claimed_by split: option.splits)

theorem withdrawal_progress_witness:
  "\<exists>paid st' r. hub_execute ref_lib (sample_querier 400 400 600) run_closed (sample_env 300)
      \<lparr>sender = ''alice'', funds = []\<rparr> WithdrawUnbonded = Ok (st', r) \<and> unat (paid :: u128) = 300
    \<and> messages r = [BankSend ''alice'' [\<lparr>denom = ''uluna'', coin_amount = paid\<rparr>]]"
proof -
  let ?s = "sample_state\<lparr>total_bond_amount := 400, last_unbonded_time := 200\<rparr>"
  let ?u = "to_vec_str ref_lib ''alice''"
  have run: "matured_run run_closed ?s 250 = [1]"
    by (simp add: run_defs matured_run_def due_ids.simps matured_def kv_get_def)
  have reach: "hub_reachable ref_lib fair_chain run_closed"
    by (rule run_closed_reached(2)) (simp add: fair_chain_def)
  obtain p where p: "PARAMETERS run_closed = Some p" "unbonding_period p = 50" "underlying_coin_denom p = ''uluna''"
    by (simp add: run_defs)
  have s: "STATE run_closed = Some ?s" by (simp add: run_closed_def)
  have bal: "query_balance (sample_querier 400 400 600) (contract_address (sample_env 300)) (underlying_coin_denom p)
      = Ok \<lparr>denom = underlying_coin_denom p, coin_amount = 600\<rparr>" by simp
  have rel: "releasable run_closed (matured_run run_closed ?s 250) (received_by ?s 600)"
    unfolding run
    by (simp add: releasable_def can_settle_def run_defs kv_get_def received_by_def unbonded_def
        claimed_by_def settled_def overcut_def slash_cut_def slash_share_def)
  have pause: "is_ok (is_contract_paused run_closed)" by (simp add: run_defs eval_defs)
  have time: "unat (unbonding_period p) + unat (250 :: u64) = unat (block_seconds (sample_env 300))"
    by (simp add: p(2))
  obtain st1 where st1: "process_withdraw_rate ref_lib run_closed 250 600 = Ok st1"
    and worth: "finished_total ref_lib st1 ?u = 300"
    by (simp add: eval_defs Let_def run_defs to_be_bytes_less_iff o_def finished_total_def claim_value_def)
  show ?thesis
    using withdrawal_progress [OF cosmwasm_ref_lib reach run_closed_fair pause p(1) s time bal,
        where info = "\<lparr>sender = ''alice'', funds = []\<rparr>"] rel st1 worth p(3)
    by auto
qed

theorem release_exactly_when_witness:
  "is_ok (process_withdraw_rate ref_lib run_closed 250 601)
    \<and> slash_share 600 1 (unbonded (HISTORY run_closed) 1) = 1"
proof -
  let ?s = "sample_state\<lparr>total_bond_amount := 400, last_unbonded_time := 200\<rparr>"
  have reach: "hub_reachable ref_lib (\<lambda>_ _ _ _. True) run_closed" by (rule run_closed_reached(2)) simp
  have s: "STATE run_closed = Some ?s" by (simp add: run_closed_def)
  have run: "matured_run run_closed ?s 250 = [1]"
    by (simp add: run_defs matured_run_def due_ids.simps matured_def kv_get_def)
  have worth: "unbonded (HISTORY run_closed) 1 = 600" "received_by ?s 601 = 601"
    by (simp_all add: run_closed_def unbonded_def kv_get_def received_by_def sample_state_def)
  obtain h where h: "kv_get (HISTORY run_closed) (to_be_bytes 1) = Some h" "hist_amount h = 600"
    by (simp add: run_closed_def kv_get_def)
  show ?thesis
    unfolding release_exactly_when [OF cosmwasm_ref_lib reach s] Let_def run
    using h by (simp add: worth settled_def slash_share_def)
qed

end
