(* ===== verification/HubQueries.thy ===== *)
theory HubQueries
  imports HubLedger
begin

text \<open>
  The read side of the hub in reachable states (\<open>query\<close> of \<open>contracts/prism_hub/src/contract.rs\<close> and the loops of
  \<open>state.rs\<close> behind it): what each of the nine queries answers, when the answer is an error or a panic,
  and how the withdrawable amount that is reported compares with what a withdrawal pays. Two invariants
  are added for it: the cells the queries load are filled, and batches are filed in the order of time.
\<close>

section \<open>Specification\<close>

text \<open>The value, at the filed rates, of a sender's requests in the batches with a property.\<close>

definition claim_where :: "(unbond_history \<Rightarrow> bool) \<Rightarrow> unbond_history kv \<Rightarrow> u64 \<Rightarrow> nat \<Rightarrow> nat" where
  "claim_where P hist b v =
     (case kv_get hist (to_be_bytes b) of
        Some h \<Rightarrow> if P h then v * units (withdraw_rate h) div E18 else 0
      | None \<Rightarrow> 0)"

definition claims_where :: "(unbond_history \<Rightarrow> bool) \<Rightarrow> cw_lib \<Rightarrow> hub_storage \<Rightarrow> byte list \<Rightarrow> nat" where
  "claims_where P L st a =
     (\<Sum>(k, v)\<leftarrow>WAIT st a. case from_slice_u64 L k of
          Ok b \<Rightarrow> claim_where P (HISTORY st) b (unat v)
        | Err _ \<Rightarrow> 0 | Panic _ \<Rightarrow> 0)"

text \<open>The configuration is stored in its current form, and an admin cell exists.\<close>

definition cells_ok :: "hub_storage \<Rightarrow> bool" where
  "cells_ok st = ((\<exists>cfg. CONFIG st = Some (CurrentConfig cfg)) \<and> ADMIN st \<noteq> None)"

text \<open>Later batches are filed later, and none after the start of the epoch.\<close>

definition times_ok :: "hub_storage \<Rightarrow> bool" where
  "times_ok st =
     ((\<forall>b h s. kv_get (HISTORY st) (to_be_bytes b) = Some h \<longrightarrow> STATE st = Some s \<longrightarrow>
         hist_time h \<le> last_unbonded_time s)
      \<and> (\<forall>b c h g. b < c \<longrightarrow> kv_get (HISTORY st) (to_be_bytes b) = Some h \<longrightarrow>
           kv_get (HISTORY st) (to_be_bytes c) = Some g \<longrightarrow> hist_time h < hist_time g))"

text \<open>The cells that a step leaves as they are, and the time a batch was filed at.\<close>

definition same_cells :: "hub_storage \<Rightarrow> hub_storage \<Rightarrow> bool" where
  "same_cells st st' = (CONFIG st' = CONFIG st \<and> ADMIN st' = ADMIN st)"

definition filed_at :: "hub_storage \<Rightarrow> u64 \<Rightarrow> u64 option" where
  "filed_at st b = map_option hist_time (kv_get (HISTORY st) (to_be_bytes b))"

section \<open>The loops\<close>

text \<open>
  The query loop is the withdrawal's loop over a history in which a batch counts as released when it is
  older than the given time.
\<close>

definition by_time :: "u64 \<Rightarrow> hub_storage \<Rightarrow> hub_storage" where
  "by_time t st = st\<lparr>HISTORY := map (\<lambda>(k, h). (k, h\<lparr>released := hist_time h < t\<rparr>)) (HISTORY st)\<rparr>"

lemma by_time_sel [simp]: "WAIT (by_time t st) = WAIT st"
  by (simp add: by_time_def)

lemma by_time_get:
  "kv_get (HISTORY (by_time t st)) k
     = map_option (\<lambda>h. h\<lparr>released := hist_time h < t\<rparr>) (kv_get (HISTORY st) k)"
proof -
  have "map_of (map (\<lambda>(k, h). (k, f h)) xs) k = map_option f (map_of xs k)"
    for f :: "unbond_history \<Rightarrow> unbond_history" and xs :: "unbond_history kv"
    by (induction xs) auto
  then show ?thesis by (simp add: by_time_def kv_get_def)
qed

lemma query_loop_by_time: "query_get_finished_amount L st u t = get_finished_amount L (by_time t st) u"
proof -
  have "(case read_unbond_history (by_time t st) b of
           Ok h \<Rightarrow> if released h then and_then (uint_mul_dec L v (withdraw_rate h)) (uint_add L acc) else Ok acc
         | Err _ \<Rightarrow> Ok acc | Panic p \<Rightarrow> Panic p)
      = (case read_unbond_history st b of
           Ok h \<Rightarrow> if hist_time h < t then and_then (uint_mul_dec L v (withdraw_rate h)) (uint_add L acc) else Ok acc
         | Err _ \<Rightarrow> Ok acc | Panic p \<Rightarrow> Panic p)" for b v acc
    by (cases "kv_get (HISTORY st) (to_be_bytes b)") (simp_all add: read_unbond_history_def by_time_get)
  then show ?thesis by (simp add: query_get_finished_amount_def get_finished_amount_def)
qed

lemma finished_by_time: "finished_total L (by_time t st) a = claims_where (\<lambda>h. hist_time h < t) L st a"
proof -
  have "claim_value (HISTORY (by_time t st)) b v = claim_where (\<lambda>h. hist_time h < t) (HISTORY st) b v" for b v
    by (cases "kv_get (HISTORY st) (to_be_bytes b)") (simp_all add: claim_value_def claim_where_def by_time_get)
  then show ?thesis by (simp add: finished_total_def claims_where_def cong: res.case_cong)
qed

lemma finished_claims: "finished_total L st a = claims_where released L st a"
proof -
  have "claim_value hist b v = claim_where released hist b v" for hist b v
    by (simp add: claim_value_def claim_where_def)
  then show ?thesis by (simp add: finished_total_def claims_where_def cong: res.case_cong)
qed

lemma claims_where_cong:
  assumes "WAIT st' a = WAIT st a" and "\<And>b. kv_get (HISTORY st') (to_be_bytes b) = kv_get (HISTORY st) (to_be_bytes b)"
  shows "claims_where P L st' a = claims_where P L st a"
  by (simp only: claims_where_def claim_where_def assms)

text \<open>Splitting the batches splits the value.\<close>

lemma claims_where_split:
  assumes "\<And>b h. kv_get (HISTORY st) (to_be_bytes b) = Some h \<Longrightarrow> if R h then P h \<and> \<not> S h else P h \<longleftrightarrow> S h"
  shows "claims_where P L st a = claims_where R L st a + claims_where S L st a"
proof -
  have "claim_where P (HISTORY st) b v = claim_where R (HISTORY st) b v + claim_where S (HISTORY st) b v" for b v
  proof (cases "kv_get (HISTORY st) (to_be_bytes b)")
    case (Some h)
    from assms [OF this] show ?thesis by (simp add: claim_where_def Some split: if_splits)
  qed (simp add: claim_where_def)
  then show ?thesis
    unfolding claims_where_def sum_list_addf [symmetric]
    by (intro arg_cong [where f = sum_list] map_cong [OF refl]) (auto split: res.splits)
qed

lemma unwrap_no_err [simp]: "\<not> is_err (unwrap r)"
  by (cases r) simp_all

lemma finished_amount_no_err:
  assumes "uint_decimal L"
  shows "\<not> is_err (get_finished_amount L st u)"
proof -
  have "\<not> is_err (fold_res (\<lambda>(k, v) acc.
       and_then (unwrap (from_slice_u64 L k)) (\<lambda>b.
       case read_unbond_history st b of
         Ok h \<Rightarrow> if released h then and_then (uint_mul_dec L v (withdraw_rate h)) (uint_add L acc) else Ok acc
       | Err _ \<Rightarrow> Ok acc
       | Panic p \<Rightarrow> Panic p)) s acc)" for s and acc :: u128
  proof (induction s arbitrary: acc)
    case (Cons e s)
    then show ?case
      using uint_decimal.uint_add_no_err [OF assms] uint_decimal.mul_dec_no_err [OF assms]
      by (auto simp: and_then_is_err split: prod.splits res.splits if_splits)
  qed simp
  then show ?thesis unfolding get_finished_amount_def .
qed

lemma times_ok_iff:
  "times_ok st \<longleftrightarrow> (\<forall>b n s. filed_at st b = Some n \<longrightarrow> STATE st = Some s \<longrightarrow> n \<le> last_unbonded_time s)
     \<and> (\<forall>b c m n. b < c \<longrightarrow> filed_at st b = Some m \<longrightarrow> filed_at st c = Some n \<longrightarrow> m < n)"
  by (auto simp: times_ok_def filed_at_def)

lemma settles_as_time: "settles_as n q h h' \<Longrightarrow> hist_time h' = hist_time h"
  by (subst settles_as_h') simp_all

context cosmwasm
begin

text \<open>The loop over a sender's wait list returns one request per stored entry.\<close>

lemma get_unbond_requests_Ok:
  assumes "bucket_ok L (WAIT st (to_vec_str L u))"
  shows "\<exists>rs. get_unbond_requests L st u = Ok rs
           \<and> map (\<lambda>(b, v). (to_vec_u64 L b, v)) rs = WAIT st (to_vec_str L u)"
proof -
  have "\<exists>rs. fold_res (\<lambda>(k, value) requests.
       and_then (unwrap (from_slice_u64 L k)) (\<lambda>user_batch. Ok (requests @ [(user_batch, value)])))
       xs acc = Ok (acc @ rs) \<and> map (\<lambda>(b, v). (to_vec_u64 L b, v)) rs = xs"
    if "\<forall>k \<in> fst ` set xs. \<exists>b. k = to_vec_u64 L b" for xs :: "u128 kv" and acc
    using that
  proof (induction xs arbitrary: acc)
    case (Cons x xs)
    then obtain b v where x: "x = (to_vec_u64 L b, v)" by (cases x) auto
    from Cons obtain rs where "fold_res (\<lambda>(k, value) requests.
         and_then (unwrap (from_slice_u64 L k)) (\<lambda>user_batch. Ok (requests @ [(user_batch, value)])))
         xs (acc @ [(b, v)]) = Ok ((acc @ [(b, v)]) @ rs)"
      and "map (\<lambda>(b, v). (to_vec_u64 L b, v)) rs = xs" by fastforce
    then show ?case by (intro exI [of _ "(b, v) # rs"]) (simp add: x u64_round_trip)
  qed simp
  from this [of "WAIT st (to_vec_str L u)" "[]"] assms show ?thesis
    by (simp add: get_unbond_requests_def kv_range_def bucket_ok_def)
qed

lemma unbond_requests_answer:
  assumes "bucket_ok L (WAIT st (to_vec_str L u))" and "get_unbond_requests L st u = Ok rs"
  shows "distinct (map fst rs)"
    and "(b, v) \<in> set rs \<longleftrightarrow> kv_get (WAIT st (to_vec_str L u)) (to_vec_u64 L b) = Some v"
proof -
  from get_unbond_requests_Ok [OF assms(1)] assms(2)
  have eq: "map (\<lambda>(b, v). (to_vec_u64 L b, v)) rs = WAIT st (to_vec_str L u)" by simp
  from assms(1) have ok: "kv_ok (WAIT st (to_vec_str L u))" by (simp add: bucket_ok_def)
  have "map (to_vec_u64 L) (map fst rs) = map fst (WAIT st (to_vec_str L u))"
    unfolding eq [symmetric] by (simp add: o_def case_prod_beta)
  with kv.entries_distinct [OF ok] have "distinct (map (to_vec_u64 L) (map fst rs))" by simp
  then show "distinct (map fst rs)" by (simp only: distinct_map)
  have "(b, v) \<in> set rs \<longleftrightarrow> (to_vec_u64 L b, v) \<in> set (WAIT st (to_vec_str L u))"
    unfolding eq [symmetric] by force
  also have "\<dots> \<longleftrightarrow> kv_get (WAIT st (to_vec_str L u)) (to_vec_u64 L b) = Some v"
    using ok by (rule kv_entries_get)
  finally show "(b, v) \<in> set rs \<longleftrightarrow> kv_get (WAIT st (to_vec_str L u)) (to_vec_u64 L b) = Some v" .
qed

text \<open>A positive request lies in a filed batch or in the current one.\<close>

lemma waiting_in_known_batch:
  assumes "books_ok L st cur requested processed" and "finite (waiting_users st)"
    and "0 < waiting L st a b"
  shows "0 < b \<and> b \<le> cur"
proof (rule ccontr)
  assume "\<not> (0 < b \<and> b \<le> cur)"
  then have "total_waiting L st b = 0" using assms(1) by (auto simp: books_ok_def word_gt_0 not_le)
  with waiting_le_total [OF assms(2), of L a b] assms(3) show False by simp
qed

text \<open>The amount a query reports, or its panic when the amount needs more than 128 bits.\<close>

lemma query_loop_answer:
  assumes "bucket_ok L (WAIT st (to_vec_str L u))"
  shows "if claims_where (\<lambda>h. hist_time h < t) L st (to_vec_str L u) < 2 ^ 128
    then \<exists>w. query_get_finished_amount L st u t = Ok w
           \<and> unat w = claims_where (\<lambda>h. hist_time h < t) L st (to_vec_str L u)
    else is_panic (query_get_finished_amount L st u t)"
proof -
  let ?st = "by_time t st"
  have value_of: "unat w = finished_total L ?st (to_vec_str L u)" if "get_finished_amount L ?st u = Ok w" for w
    using that by (rule get_finished_amount_value)
  show ?thesis
  proof (cases "finished_total L ?st (to_vec_str L u) < 2 ^ 128")
    case True
    with assms obtain w where "get_finished_amount L ?st u = Ok w" using get_finished_amount_fits [of ?st u] by auto
    with value_of True show ?thesis unfolding query_loop_by_time finished_by_time by auto
  next
    case False
    have "\<not> is_ok (get_finished_amount L ?st u)"
    proof
      assume "is_ok (get_finished_amount L ?st u)"
      then obtain w where "get_finished_amount L ?st u = Ok w" by (auto simp: is_ok_iff)
      from value_of [OF this] False unat_less_exp [of w] show False by simp
    qed
    moreover have "\<not> is_err (get_finished_amount L ?st u)"
      by (rule finished_amount_no_err) unfold_locales
    ultimately have "is_panic (get_finished_amount L ?st u)" by (rule res_trichotomy)
    with False show ?thesis unfolding query_loop_by_time finished_by_time by simp
  qed
qed

section \<open>Filled cells and filing times\<close>

lemma slashing_cells: "slashing L Q st env = Ok st' \<Longrightarrow> same_cells st st'"
  by (erule slashing_frame) (simp add: same_cells_def)

lemma withdraw_keeps:
  assumes "execute_withdraw_unbonded L Q st env info = Ok (st', r)" and "PARAMETERS st = Some p" and "STATE st = Some s"
  shows "same_cells st st' \<and> filed_at st' = filed_at st
    \<and> (\<exists>s'. STATE st' = Some s' \<and> last_unbonded_time s' = last_unbonded_time s)"
proof -
  obtain t bal st1 paid bs s1 where
    "query_balance Q (contract_address env) (underlying_coin_denom p) = Ok bal"
    and st1: "process_withdraw_rate L st t (coin_amount bal) = Ok st1" "STATE st1 = Some s1"
    and st': "st' = st1\<lparr>WAIT := (WAIT st1)(to_vec_str L (sender info) :=
        remove_batches L (WAIT st1 (to_vec_str L (sender info))) bs),
      STATE := Some (s1\<lparr>prev_hub_balance := coin_amount bal - paid\<rparr>)\<rparr>"
    by (rule execute_withdraw_unbonded_OkE [OF assms(1,2)]) blast
  obtain l' where frame: "st1 = st\<lparr>HISTORY := HISTORY st1,
      STATE := Some (s\<lparr>last_processed_batch := l', actual_unbonded_amount := 0\<rparr>)\<rparr>"
    and run: "\<And>b. b \<in> set (matured_run st s t) \<Longrightarrow> \<exists>h h'.
           kv_get (HISTORY st) (to_be_bytes b) = Some h \<and> kv_get (HISTORY st1) (to_be_bytes b) = Some h'
         \<and> settles_as (\<Sum>b\<leftarrow>matured_run st s t. unbonded (HISTORY st) b) (received_by s (coin_amount bal)) h h'"
    and others: "\<And>k. k \<notin> to_be_bytes ` set (matured_run st s t) \<Longrightarrow>
           kv_get (HISTORY st1) k = kv_get (HISTORY st) k"
    by (rule process_withdraw_rate_OkE [OF st1(1) assms(3)]) blast
  have same: "CONFIG st1 = CONFIG st" "ADMIN st1 = ADMIN st"
    "STATE st1 = Some (s\<lparr>last_processed_batch := l', actual_unbonded_amount := 0\<rparr>)"
    by (subst frame, simp)+
  have "filed_at st1 b = filed_at st b" for b
  proof (cases "b \<in> set (matured_run st s t)")
    case True
    from run [OF this] show ?thesis by (auto simp: filed_at_def settles_as_time)
  next
    case False
    then have "to_be_bytes b \<notin> to_be_bytes ` set (matured_run st s t)" by auto
    from others [OF this] show ?thesis by (simp add: filed_at_def)
  qed
  moreover have "s1 = s\<lparr>last_processed_batch := l', actual_unbonded_amount := 0\<rparr>" using same(3) st1(2) by simp
  ultimately show ?thesis using same by (simp add: same_cells_def filed_at_def st' fun_eq_iff)
qed

text \<open>An unbond files at most the current batch, under the block time, which is then later than any before.\<close>

lemma unbond_keeps:
  assumes "execute_unbond L Q st env amount user = Ok (st', r)"
    and "PARAMETERS st = Some p" and "CURRENT_BATCH st = Some cb" and "STATE st = Some s"
  shows "same_cells st st' \<and> (\<exists>s'. STATE st' = Some s'
    \<and> (filed_at st' = filed_at st \<and> last_unbonded_time s' = last_unbonded_time s
       \<or> filed_at st' = (filed_at st)(cb_id cb := Some (block_seconds env))
         \<and> last_unbonded_time s < block_seconds env \<and> last_unbonded_time s' = block_seconds env))"
proof -
  obtain st1 t m requested st2 s1 passed st3 s2 cb2 und where
    sl: "slashing L Q st env = Ok st1" and "STATE st1 = Some t"
    and t: "t = s\<lparr>total_bond_amount := total_bond_amount t, exchange_rate := exchange_rate t\<rparr>"
    and "m \<le> amount" and "unat requested = unat (requested_with_fee cb) + unat m"
    and st2: "st2 = st\<lparr>STATE := Some t, WAIT := WAIT st2\<rparr>"
    and s1: "s1 = t\<lparr>exchange_rate := exchange_rate s1\<rparr>"
    and time: "unat (block_seconds env) = unat (last_unbonded_time s) + unat passed"
    and step: "(if epoch_period p < passed
          then close_batch L Q st2 env s1 (cb\<lparr>requested_with_fee := requested\<rparr>)
          else Ok (st2, s1, cb\<lparr>requested_with_fee := requested\<rparr>, [])) = Ok (st3, s2, cb2, und)"
    and st': "st' = st3\<lparr>CURRENT_BATCH := Some cb2, STATE := Some s2\<rparr>"
    by (rule execute_unbond_summary [OF assms]) blast
  have same: "CONFIG st2 = CONFIG st" "ADMIN st2 = ADMIN st" "HISTORY st2 = HISTORY st" by (subst st2, simp)+
  have s1': "last_unbonded_time s1 = last_unbonded_time s" by (subst s1, subst t) simp
  show ?thesis
  proof (cases "epoch_period p < passed")
    case True
    then have "0 < unat passed" by (simp add: word_less_nat_alt)
    with time have later: "last_unbonded_time s < block_seconds env" by (simp add: word_less_nat_alt)
    from True step have "close_batch L Q st2 env s1 (cb\<lparr>requested_with_fee := requested\<rparr>) = Ok (st3, s2, cb2, und)"
      by simp
    then show ?thesis
      by (rule close_batch_OkE) (simp add: st' same_cells_def filed_at_def same fun_eq_iff later)
  next
    case False
    with step have "st3 = st2" "s2 = s1" by simp_all
    then show ?thesis by (simp add: st' same_cells_def filed_at_def same s1' fun_eq_iff)
  qed
qed

lemma cells_ok_same: "cells_ok st \<Longrightarrow> same_cells st st' \<Longrightarrow> cells_ok st'"
  by (simp add: cells_ok_def same_cells_def)

lemma bond_cells:
  assumes "execute_bond L Q st env info v = Ok (st', r)"
  shows "same_cells st st'"
proof -
  obtain st1 and s' :: hub_state where sl: "slashing L Q st env = Ok st1"
    and st': "st' = st1\<lparr>STATE := Some s'\<rparr>"
    by (rule execute_bond_OkE [OF assms]) blast
  from slashing_cells [OF sl] show ?thesis by (simp add: st' same_cells_def)
qed

lemma admin_update_fills:
  assumes "admin_execute_update L cell info a = Inr (cell', r)"
  shows "cell' \<noteq> None"
proof (cases "admin_assert L cell (sender info)")
  case (Inl e)
  from admin_update_rejected [OF this] assms show ?thesis by simp
next
  case (Inr u)
  then have "admin_assert L cell (sender info) = Inr ()" by simp
  from admin_update_accepted [OF this, of a] assms show ?thesis by auto
qed

lemma message_cells:
  assumes "hub_execute L Q st env info msg = Ok (st', r)" and "cells_ok st" and "hub_inv L st"
  shows "cells_ok st'"
proof -
  obtain p s cb where inv: "PARAMETERS st = Some p" "CURRENT_BATCH st = Some cb" "STATE st = Some s"
    using assms(3) by (rule hub_invE)
  show ?thesis
  proof (cases msg)
    case (Receive m)
    with assms(1) have "execute_unbond L Q st env (cw20_amount m) (cw20_sender m) = Ok (st', r)"
      by (blast intro: receive_unbonds)
    from unbond_keeps [OF this inv] show ?thesis by (blast intro: cells_ok_same [OF assms(2)])
  next
    case WithdrawUnbonded
    with assms(1) have "execute_withdraw_unbonded L Q st env info = Ok (st', r)" by (auto simp: hub_execute_def)
    from withdraw_keeps [OF this inv(1,3)] show ?thesis by (blast intro: cells_ok_same [OF assms(2)])
  next
    case (Bond v)
    with assms(1) have "execute_bond L Q st env info v = Ok (st', r)" by (auto simp: hub_execute_def)
    then show ?thesis by (rule cells_ok_same [OF assms(2) bond_cells])
  next
    case UpdateExchangeRate
    with assms(1) have "execute_update_exchange_rate L Q st env info = Ok (st', r)" by (auto simp: hub_execute_def)
    then show ?thesis by (rule execute_update_exchange_rate_OkE) (use assms(2) in \<open>simp add: cells_ok_def\<close>)
  next
    case CheckSlashing
    with assms(1) have "slashing L Q st env = Ok st'" by (auto simp: hub_execute_def execute_slashing_def)
    then show ?thesis by (rule cells_ok_same [OF assms(2) slashing_cells])
  next
    case (RegisterValidator v)
    with assms(1) have "execute_register_validator L Q st env info v = Ok (st', r)" by (auto simp: hub_execute_def)
    from execute_register_validator_frame [OF this] assms(2) show ?thesis by (simp add: cells_ok_def)
  next
    case (DeregisterValidator v)
    with assms(1) have "execute_deregister_validator L Q st env info v = Ok (st', r)" by (auto simp: hub_execute_def)
    from execute_deregister_validator_frame [OF this] assms(2) show ?thesis by (simp add: cells_ok_def)
  next
    case (UpdateConfig tok col)
    with assms(1) have "execute_update_config L st info tok col = Ok (st', r)" by (auto simp: hub_execute_def)
    then show ?thesis using assms(2)
      by (auto simp: execute_update_config_def load_config_def cells_ok_def Let_def res_simps split: option.splits if_splits)
  next
    case (UpdateAdmin a)
    with assms(1) obtain a' cell where "admin_execute_update L (ADMIN st) info a' = Inr (cell, r)"
      and "st' = st\<lparr>ADMIN := cell\<rparr>"
      by (auto simp: hub_execute_def execute_update_admin_def split: sum.splits admin_error.splits)
    with assms(2) admin_update_fills show ?thesis by (auto simp: cells_ok_def)
  qed (use assms in \<open>auto simp: hub_execute_def execute_update_global_def execute_update_params_def Let_def
        res_simps cells_ok_def\<close>)
qed

lemma message_times:
  assumes "hub_execute L Q st env info msg = Ok (st', r)" and "times_ok st" and "hub_inv L st"
  shows "times_ok st'"
proof -
  obtain p s cb where inv: "PARAMETERS st = Some p" "CURRENT_BATCH st = Some cb" "STATE st = Some s"
    and stores: "stores_ok L st"
    and books: "books_ok L st (cb_id cb) (requested_with_fee cb) (last_processed_batch s)"
    using assms(3) by (rule hub_invE)
  note times = assms(2) [unfolded times_ok_iff]
  consider (withdraw) "msg = WithdrawUnbonded" | (receive) m where "msg = Receive m"
    | (other) "msg \<noteq> WithdrawUnbonded" "\<And>m. msg \<noteq> Receive m" by blast
  then show ?thesis
  proof cases
    case withdraw
    with assms(1) have "execute_withdraw_unbonded L Q st env info = Ok (st', r)" by (auto simp: hub_execute_def)
    from withdraw_keeps [OF this inv(1,3)] times inv(3) show ?thesis by (auto simp: times_ok_iff)
  next
    case (receive m)
    with assms(1) have "execute_unbond L Q st env (cw20_amount m) (cw20_sender m) = Ok (st', r)"
      by (blast intro: receive_unbonds)
    from unbond_keeps [OF this inv] obtain s' where s': "STATE st' = Some s'"
      and filed: "filed_at st' = filed_at st \<and> last_unbonded_time s' = last_unbonded_time s
       \<or> filed_at st' = (filed_at st)(cb_id cb := Some (block_seconds env))
         \<and> last_unbonded_time s < block_seconds env \<and> last_unbonded_time s' = block_seconds env" by blast
    have before: "b < cb_id cb" if "filed_at st b = Some n" for b n
      using books that by (auto simp: books_ok_def filed_at_def)
    have bound: "n \<le> last_unbonded_time s" if "filed_at st b = Some n" for b n using times that inv(3) by blast
    from filed show ?thesis
    proof (elim disjE conjE)
      assume close: "filed_at st' = (filed_at st)(cb_id cb := Some (block_seconds env))"
        "last_unbonded_time s < block_seconds env" "last_unbonded_time s' = block_seconds env"
      have "n < block_seconds env" if "filed_at st b = Some n" for b n
        using bound [OF that] close(2) by (rule le_less_trans)
      with times before s' close show ?thesis by (auto simp: times_ok_iff dest: less_asym intro: less_imp_le)
    qed (use times inv(3) s' in \<open>auto simp: times_ok_iff\<close>)
  next
    case other
    have "PARAMETERS st \<noteq> None" "whitelist_ok L (VALIDATORS st)" using inv(1) stores by (auto simp: stores_ok_def)
    from message_same_books [OF assms(1) other this] inv(3) obtain s' where "HISTORY st' = HISTORY st"
      "STATE st' = Some s'" "last_unbonded_time s' = last_unbonded_time s" by (auto simp: same_books_def)
    with times inv(3) show ?thesis by (auto simp: times_ok_iff filed_at_def)
  qed
qed

lemma instantiate_cells:
  assumes "hub_instantiate L empty_storage env info msg = Ok (st, r)"
  shows "cells_ok st \<and> times_ok st"
  using assms
  by (auto simp: hub_instantiate_def Let_def empty_storage_def cells_ok_def times_ok_def kv_get_def admin_set_stores)

lemma migrate_cells:
  assumes "hub_migrate L st m = Ok (st', r)" and "cells_ok st" and "times_ok st"
  shows "cells_ok st' \<and> times_ok st'"
  using assms by (auto simp: hub_migrate_def migrate_config_def cells_ok_def times_ok_def)

lemma reachable_cells: "hub_reachable L G st \<Longrightarrow> cells_ok st \<and> times_ok st"
proof (induction rule: hub_reachable.induct)
  case (start env info msg st r)
  then show ?case by (rule instantiate_cells)
next
  case (step st st')
  from step.hyps(2) step.IH reachable_inv [OF step.hyps(1)] show ?case
    by (auto elim!: hub_stepE intro: message_cells message_times dest: migrate_cells)
qed

section \<open>The answers\<close>

text \<open>An optional stored address is answered as text exactly when its conversion succeeds.\<close>

lemma humanize_opt_eq_Ok: "humanize_opt L a = Ok t \<longleftrightarrow> map_option (addr_humanize L) a = map_option Ok t"
  by (cases a; cases t) (auto simp: humanize_opt_def res_simps)

lemma humanize_opt_no_err: "\<not> is_err (humanize_opt L a)"
  by (simp add: humanize_opt_def and_then_is_err split: option.split)

lemma config_answer:
  assumes "CONFIG st = Some (CurrentConfig cfg)"
  shows "\<not> is_err (hub_query L st env QConfig) \<and> (hub_query L st env QConfig = Ok r \<longleftrightarrow> (\<exists>tok col rew.
      r = ConfigResponse \<lparr>cr_token_contract = tok, cr_protocol_fee_collector = col, cr_rewards_contract = rew\<rparr>
    \<and> map_option (addr_humanize L) (token_contract cfg) = map_option Ok tok
    \<and> map_option (addr_humanize L) (protocol_fee_collector cfg) = map_option Ok col
    \<and> map_option (addr_humanize L) (rewards_contract cfg) = map_option Ok rew))"
  using assms humanize_opt_no_err unfolding humanize_opt_eq_Ok [symmetric]
  by (auto simp: hub_query_def query_config_def load_config_def load_def and_then_is_err)

lemma whitelist_answer:
  assumes "whitelist_ok L (VALIDATORS st)"
  shows "\<exists>vs. hub_query L st env QWhitelistedValidators = Ok (WhitelistedValidatorsResponse vs)
    \<and> distinct vs \<and> (\<forall>v. v \<in> set vs \<longleftrightarrow> is_valid_validator L st v = Ok True)"
proof -
  obtain vs where vs: "read_validators L st = Ok vs" using read_validators_Ok [OF assms] by blast
  have "is_valid_validator L st v = Ok True \<longleftrightarrow> kv_get (VALIDATORS st) (to_vec_str L v) \<noteq> None" for v
    by (simp add: is_valid_validator_def split: option.split)
  with read_validators_set [OF assms vs] vs show ?thesis
    by (intro exI [of _ vs]) (simp add: hub_query_def query_white_validators_def)
qed

lemma requests_answer:
  assumes "stores_ok L st" and "books_ok L st cur requested processed" and "\<not> is_err (addr_validate L u)"
  shows "\<exists>rs. hub_query L st env (QUnbondRequests u) = Ok (UnbondRequestsResponse u rs)
    \<and> distinct (map fst rs) \<and> (\<forall>b v. (b, v) \<in> set rs \<longleftrightarrow> read_unbond_wait_list L st b u = Ok v)
    \<and> (\<forall>(b, v) \<in> set rs. 0 < v \<longrightarrow> 0 < b \<and> b \<le> cur)"
proof -
  from assms(1) have fin: "finite (waiting_users st)" and bucket: "bucket_ok L (WAIT st (to_vec_str L u))"
    by (simp_all add: stores_ok_def)
  obtain rs where rs: "get_unbond_requests L st u = Ok rs" using get_unbond_requests_Ok [OF bucket] by blast
  note answer = unbond_requests_answer [OF bucket rs]
  have "0 < b \<and> b \<le> cur" if "(b, v) \<in> set rs" "0 < v" for b v
    using that answer(2) [of b v] unat_gt_0 [of v]
    by (intro waiting_in_known_batch [OF assms(2) fin, of "to_vec_str L u"]) (simp add: waiting_def word_gt_0)
  moreover have "(b, v) \<in> set rs \<longleftrightarrow> read_unbond_wait_list L st b u = Ok v" for b v
    by (simp add: answer(2) read_unbond_wait_list_def load_def res_simps)
  ultimately show ?thesis
    using rs answer(1) assms(3)
    by (intro exI [of _ rs]) (auto simp: hub_query_def query_unbond_requests_def)
qed

lemma withdrawable_answer:
  assumes "PARAMETERS st = Some p" and "bucket_ok L (WAIT st (to_vec_str L u))"
    and "due = claims_where (\<lambda>h. hist_time h < block_seconds env - unbonding_period p) L st (to_vec_str L u)"
  shows "if unbonding_period p \<le> block_seconds env \<and> due < 2 ^ 128
    then \<exists>w. hub_query L st env (QWithdrawableUnbonded u) = Ok (WithdrawableUnbondedResponse w) \<and> unat w = due
    else is_panic (hub_query L st env (QWithdrawableUnbonded u))"
proof (cases "unbonding_period p \<le> block_seconds env")
  case True
  with assms(1) have eq: "hub_query L st env (QWithdrawableUnbonded u)
      = and_then (query_get_finished_amount L st u (block_seconds env - unbonding_period p))
          (\<lambda>a. Ok (WithdrawableUnbondedResponse a))"
    by (simp add: hub_query_def query_withdrawable_unbonded_def load_def u64_sub_def)
  show ?thesis
    using query_loop_answer [OF assms(2), of "block_seconds env - unbonding_period p"] True
    unfolding eq assms(3) [symmetric] by (auto simp: is_panic_iff split: if_splits)
next
  case False
  with assms(1) show ?thesis
    by (simp add: hub_query_def query_withdrawable_unbonded_def load_def u64_sub_def)
qed

text \<open>Once no batch is due, every batch older than the unbonding period is released.\<close>

lemma old_batches_released:
  assumes "books_ok L st cur requested (last_processed_batch s)" and "times_ok st"
    and "matured_run st s t = []" and "kv_get (HISTORY st) (to_be_bytes b) = Some h" and "hist_time h < t"
  shows "released h"
proof (rule ccontr)
  assume "\<not> released h"
  let ?i = "last_processed_batch s + 1"
  have less: "last_processed_batch s < cur" using assms(1) by (simp add: books_ok_def)
  have "last_processed_batch s < b"
    using books_ok_entry [OF assms(1,4)] \<open>\<not> released h\<close> by (auto simp: not_le split: if_splits)
  then have le: "?i \<le> b" by (simp add: word_less_nat_alt word_le_nat_alt unat_u64_succ [OF less])
  moreover have "b < cur" using assms(1,4) by (auto simp: books_ok_def)
  ultimately have "?i < cur" by (rule le_less_trans)
  moreover have "0 < ?i" by (simp add: word_less_nat_alt unat_u64_succ [OF less])
  ultimately have "kv_get (HISTORY st) (to_be_bytes ?i) \<noteq> None" using assms(1) unfolding books_ok_def by blast
  then obtain g where g: "kv_get (HISTORY st) (to_be_bytes ?i) = Some g" by blast
  have "\<not> released g"
    using books_ok_entry [OF assms(1) g]
    by (auto simp: word_le_nat_alt unat_u64_succ [OF less] split: if_splits)
  moreover have "hist_time g \<le> hist_time h"
  proof (cases "?i = b")
    case False
    with le have "?i < b" by simp
    with assms(2,4) g show ?thesis unfolding times_ok_def by (blast intro: less_imp_le)
  qed (use assms(4) g in simp)
  with assms(5) have "hist_time g \<le> t" by (simp add: order.strict_implies_order order.trans)
  ultimately have "matured (HISTORY st) t ?i" by (simp add: matured_def g)
  with assms(3) show False by (simp add: matured_run_def due_ids.simps [of _ _ ?i])
qed

text \<open>A withdrawal at which no batch is due pays at the rates filed before it.\<close>

lemma withdraw_nothing_due:
  assumes "execute_withdraw_unbonded L Q st env info = Ok (st', r)"
    and "PARAMETERS st = Some p" and "STATE st = Some s" and "t = block_seconds env - unbonding_period p"
    and "matured_run st s t = []"
  obtains paid where "unbonding_period p \<le> block_seconds env"
    and "messages r = [BankSend (sender info) [\<lparr>denom = underlying_coin_denom p, coin_amount = paid\<rparr>]]"
    and "unat paid = claims_where released L st (to_vec_str L (sender info))"
proof -
  obtain t' bal st1 paid where time: "unat (block_seconds env) = unat (unbonding_period p) + unat t'"
    and "query_balance Q (contract_address env) (underlying_coin_denom p) = Ok bal"
    and st1: "process_withdraw_rate L st t' (coin_amount bal) = Ok st1"
    and paid: "get_finished_amount L st1 (sender info) = Ok paid"
    and msgs: "messages r = [BankSend (sender info) [\<lparr>denom = underlying_coin_denom p, coin_amount = paid\<rparr>]]"
    by (rule execute_withdraw_unbonded_OkE [OF assms(1,2)]) blast
  from time have le: "unbonding_period p \<le> block_seconds env" by (simp add: word_le_nat_alt)
  have "t' = t" using time le by (simp add: assms(4) word_unat_eq_iff unat_sub_le)
  with assms(5) have "matured_run st s t' = []" by simp
  then have "kv_get (HISTORY st1) (to_be_bytes b) = kv_get (HISTORY st) (to_be_bytes b)" for b
    using process_withdraw_rate_OkE [OF st1 assms(3)] by (metis empty_iff empty_set image_empty)
  then have "claims_where released L st1 a = claims_where released L st a" for a
    using process_withdraw_rate_WAIT [OF st1 assms(3)] by (intro claims_where_cong) simp_all
  with get_finished_amount_value [OF paid] show thesis
    by (intro that [OF le msgs]) (simp add: finished_claims)
qed

end

section \<open>Properties\<close>

text \<open>
  C29: what the nine queries answer in every reachable state. The state, the parameters, the current batch and
  the admin are answered as stored. The whitelist is answered without duplicates and holds exactly
  the validators a bond accepts. The history is answered page by page, in the order of the batches. For an
  invalid address the requests are an error value; else they list each stored request of the address once,
  every positive one in a batch from the first to the current one. The withdrawable amount is the value,
  at the filed rates, of the requests in the batches filed more than the unbonding period ago; the query panics
  when the clock is below the unbonding period or the amount exceeds 128 bits. The configuration is
  answered exactly when every stored address converts to text, and panics otherwise.
\<close>

theorem queries_answer:
  assumes "cosmwasm L" and "hub_reachable L G st"
  shows "\<exists>s p cb cfg admin. STATE st = Some s \<and> PARAMETERS st = Some p \<and> CURRENT_BATCH st = Some cb
    \<and> CONFIG st = Some (CurrentConfig cfg) \<and> ADMIN st = Some admin
    \<and> (case q of
         QState \<Rightarrow> hub_query L st env q = Ok (StateResponse
           \<lparr>sr_exchange_rate = exchange_rate s, sr_total_bond_amount = total_bond_amount s,
            sr_last_index_modification = last_index_modification s,
            sr_principle_balance_before_exchange_update = principle_balance_before_exchange_update s,
            sr_prev_hub_balance = prev_hub_balance s, sr_actual_unbonded_amount = actual_unbonded_amount s,
            sr_last_unbonded_time = last_unbonded_time s, sr_last_processed_batch = last_processed_batch s\<rparr>)
       | QParameters \<Rightarrow> hub_query L st env q = Ok (ParametersResponse p)
       | QCurrentBatch \<Rightarrow> hub_query L st env q = Ok (CurrentBatchResponse (cb_id cb) (requested_with_fee cb))
       | QAdmin \<Rightarrow> hub_query L st env q = Ok (AdminResponse admin)
       | QWhitelistedValidators \<Rightarrow> \<exists>vs. hub_query L st env q = Ok (WhitelistedValidatorsResponse vs)
           \<and> distinct vs \<and> (\<forall>v. v \<in> set vs \<longleftrightarrow> is_valid_validator L st v = Ok True)
       | QAllHistory start limit \<Rightarrow> hub_query L st env q = Ok (AllHistoryResponse
           (take (min 100 (case limit of None \<Rightarrow> 10 | Some l \<Rightarrow> unat l))
             (filter (\<lambda>h. case start of None \<Rightarrow> True | Some b \<Rightarrow> b < hist_batch_id h) (map snd (HISTORY st)))))
           \<and> sorted_wrt (<) (map hist_batch_id (map snd (HISTORY st)))
       | QUnbondRequests u \<Rightarrow>
           (if is_err (addr_validate L u) then hub_query L st env q = Err (GenericErr ''invalid address'')
            else \<exists>rs. hub_query L st env q = Ok (UnbondRequestsResponse u rs)
              \<and> distinct (map fst rs) \<and> (\<forall>b v. (b, v) \<in> set rs \<longleftrightarrow> read_unbond_wait_list L st b u = Ok v)
              \<and> (\<forall>(b, v) \<in> set rs. 0 < v \<longrightarrow> 0 < b \<and> b \<le> cb_id cb))
       | QWithdrawableUnbonded u \<Rightarrow>
           (let due = claims_where (\<lambda>h. hist_time h < block_seconds env - unbonding_period p) L st (to_vec_str L u) in
            if unbonding_period p \<le> block_seconds env \<and> due < 2 ^ 128
            then \<exists>w. hub_query L st env q = Ok (WithdrawableUnbondedResponse w) \<and> unat w = due
            else is_panic (hub_query L st env q))
       | QConfig \<Rightarrow> \<not> is_err (hub_query L st env q) \<and> (\<forall>r. hub_query L st env q = Ok r \<longleftrightarrow> (\<exists>tok col rew.
             r = ConfigResponse \<lparr>cr_token_contract = tok, cr_protocol_fee_collector = col, cr_rewards_contract = rew\<rparr>
           \<and> map_option (addr_humanize L) (token_contract cfg) = map_option Ok tok
           \<and> map_option (addr_humanize L) (protocol_fee_collector cfg) = map_option Ok col
           \<and> map_option (addr_humanize L) (rewards_contract cfg) = map_option Ok rew)))"
    (is "\<exists>s p cb cfg admin. _ \<and> _ \<and> _ \<and> _ \<and> _ \<and> ?A s p cb cfg admin")
proof -
  obtain p s cb where p: "PARAMETERS st = Some p" and s: "STATE st = Some s"
    and cb: "CURRENT_BATCH st = Some cb" and stores: "stores_ok L st"
    and books: "books_ok L st (cb_id cb) (requested_with_fee cb) (last_processed_batch s)"
    using cosmwasm.reachable_inv [OF assms] by (rule hub_invE)
  obtain cfg admin where cfg: "CONFIG st = Some (CurrentConfig cfg)" and admin: "ADMIN st = Some admin"
    using cosmwasm.reachable_cells [OF assms] by (auto simp: cells_ok_def)
  from stores have hist: "history_ok (HISTORY st)" and white: "whitelist_ok L (VALIDATORS st)"
    and bucket: "\<And>u. bucket_ok L (WAIT st (to_vec_str L u))" by (simp_all add: stores_ok_def)
  have "?A s p cb cfg admin"
  proof (cases q)
    case QConfig
    then show ?thesis using cosmwasm.config_answer [OF assms(1) cfg, of env] by simp
  next
    case QState
    then show ?thesis using s by (simp add: hub_query_def query_state_def load_def)
  next
    case QWhitelistedValidators
    then show ?thesis using cosmwasm.whitelist_answer [OF assms(1) white] by simp
  next
    case QCurrentBatch
    then show ?thesis using cb by (simp add: hub_query_def query_current_batch_def load_def)
  next
    case (QWithdrawableUnbonded u)
    then show ?thesis
      using cosmwasm.withdrawable_answer [OF assms(1) p bucket refl] by (simp only: hub_query_msg.case Let_def)
  next
    case QParameters
    then show ?thesis using p by (simp add: hub_query_def query_params_def load_def)
  next
    case (QUnbondRequests u)
    show ?thesis
    proof (cases "is_err (addr_validate L u)")
      case True
      then show ?thesis by (simp add: QUnbondRequests hub_query_def query_unbond_requests_def)
    next
      case False
      with cosmwasm.requests_answer [OF assms(1) stores books this] show ?thesis by (simp add: QUnbondRequests)
    qed
  next
    case (QAllHistory start limit)
    then show ?thesis using history_page [OF hist, of start limit] history_ids_sorted [OF hist]
      by (simp add: hub_query_def query_unbond_requests_limitation_def)
  next
    case QAdmin
    have "admin_controller L" using assms(1) by (simp add: cosmwasm_def)
    from admin_controller.admin_query_stored [OF this] show ?thesis by (simp add: QAdmin admin hub_query_def)
  qed
  with s p cb cfg admin show ?thesis by blast
qed

theorem queries_answer_witness:
  "(\<exists>w. hub_query ref_lib run_paid (sample_env 310) (QWithdrawableUnbonded ''bob'')
        = Ok (WithdrawableUnbondedResponse w) \<and> unat w = 300)
   \<and> is_panic (hub_query ref_lib run_paid (sample_env 10) (QWithdrawableUnbonded ''bob''))
   \<and> hub_query ref_lib run_paid (sample_env 10) QCurrentBatch = Ok (CurrentBatchResponse 2 0)"
proof (intro conjI)
  have p: "unbonding_period p = 50" if "PARAMETERS run_paid = Some p" for p
    using that by (auto simp: run_paid_def run_defs)
  have due: "claims_where (\<lambda>h. hist_time h < 260) ref_lib run_paid (to_vec_str ref_lib ''bob'') = 300"
    by (simp add: claims_where_def claim_where_def run_paid_def run_defs eval_defs o_def)
  from queries_answer [OF cosmwasm_ref_lib run_paid_reached, of "sample_env 310" "QWithdrawableUnbonded ''bob''"]
  show "\<exists>w. hub_query ref_lib run_paid (sample_env 310) (QWithdrawableUnbonded ''bob'')
        = Ok (WithdrawableUnbondedResponse w) \<and> unat w = 300"
    using p due by (auto simp: Let_def)
  from queries_answer [OF cosmwasm_ref_lib run_paid_reached, of "sample_env 10" "QWithdrawableUnbonded ''bob''"]
  show "is_panic (hub_query ref_lib run_paid (sample_env 10) (QWithdrawableUnbonded ''bob''))"
    using p by (auto simp: Let_def)
  from queries_answer [OF cosmwasm_ref_lib run_paid_reached, of "sample_env 10" QCurrentBatch]
  show "hub_query ref_lib run_paid (sample_env 10) QCurrentBatch = Ok (CurrentBatchResponse 2 0)"
    by (auto simp: run_paid_def run_defs)
qed

text \<open>
  C31: what the withdrawable query reports and what a withdrawal pays. In a reachable state in which no batch is
  due for release, a withdrawal pays exactly the amount that the query reports in the same block, plus
  the caller's requests in released batches that were not filed more than the unbonding period ago. The query
  leaves those out: a batch exactly as old as the period, which the release step takes, and a batch
  released before the period was raised. When there is none, the two amounts are equal.
\<close>

theorem withdrawal_pays_query:
  assumes "cosmwasm L" and "hub_reachable L G st" and "PARAMETERS st = Some p" and "STATE st = Some s"
    and "execute_withdraw_unbonded L Q st env info = Ok (st', r)"
    and "t = block_seconds env - unbonding_period p" and "matured_run st s t = []"
  shows "\<exists>w paid. hub_query L st env (QWithdrawableUnbonded (sender info)) = Ok (WithdrawableUnbondedResponse w)
    \<and> messages r = [BankSend (sender info) [\<lparr>denom = underlying_coin_denom p, coin_amount = paid\<rparr>]]
    \<and> unat paid = unat w
        + claims_where (\<lambda>h. released h \<and> \<not> hist_time h < t) L st (to_vec_str L (sender info))"
proof -
  let ?a = "to_vec_str L (sender info)" and ?older = "\<lambda>h. hist_time h < t"
  obtain s1 cb where "STATE st = Some s1" and "CURRENT_BATCH st = Some cb" and stores: "stores_ok L st"
    and "books_ok L st (cb_id cb) (requested_with_fee cb) (last_processed_batch s1)"
    using cosmwasm.reachable_inv [OF assms(1,2)] by (rule hub_invE) blast
  then have books: "books_ok L st (cb_id cb) (requested_with_fee cb) (last_processed_batch s)"
    using assms(4) by simp
  have times: "times_ok st" using cosmwasm.reachable_cells [OF assms(1,2)] by blast
  obtain paid where le: "unbonding_period p \<le> block_seconds env"
    and msgs: "messages r = [BankSend (sender info) [\<lparr>denom = underlying_coin_denom p, coin_amount = paid\<rparr>]]"
    and paid: "unat paid = claims_where released L st ?a"
    by (rule cosmwasm.withdraw_nothing_due [OF assms(1,5,3,4,6,7)])
  have "claims_where released L st ?a
      = claims_where ?older L st ?a + claims_where (\<lambda>h. released h \<and> \<not> ?older h) L st ?a"
    by (rule claims_where_split)
      (use cosmwasm.old_batches_released [OF assms(1) books times assms(7)] in auto)
  with paid have sum: "unat paid
      = claims_where ?older L st ?a + claims_where (\<lambda>h. released h \<and> \<not> ?older h) L st ?a" by simp
  then have "claims_where ?older L st ?a \<le> unat paid" by simp
  also have "\<dots> < 2 ^ 128" by simp
  finally obtain w where "hub_query L st env (QWithdrawableUnbonded (sender info)) = Ok (WithdrawableUnbondedResponse w)"
    and "unat w = claims_where ?older L st ?a"
    using cosmwasm.withdrawable_answer [OF assms(1,3) _ refl, of "sender info" env] stores le
    unfolding assms(6) by (auto simp: stores_ok_def)
  with msgs sum show ?thesis by auto
qed

text \<open>
  Two withdrawals of the same 300 coins: 110 seconds after the filing the query reports them, 50 seconds after
  it (the whole unbonding period) the withdrawal pays them and the query reports nothing.
\<close>

theorem withdrawal_pays_query_witness:
  "(\<exists>st' r w paid. execute_withdraw_unbonded ref_lib (sample_querier 400 400 300) run_paid (sample_env 310)
        \<lparr>sender = ''bob'', funds = []\<rparr> = Ok (st', r)
     \<and> hub_query ref_lib run_paid (sample_env 310) (QWithdrawableUnbonded ''bob'') = Ok (WithdrawableUnbondedResponse w)
     \<and> messages r = [BankSend ''bob'' [\<lparr>denom = ''uluna'', coin_amount = paid\<rparr>]]
     \<and> paid = 300 \<and> unat w = 300)
   \<and> (\<exists>st' r w paid. execute_withdraw_unbonded ref_lib (sample_querier 400 400 300) run_paid (sample_env 250)
        \<lparr>sender = ''bob'', funds = []\<rparr> = Ok (st', r)
     \<and> hub_query ref_lib run_paid (sample_env 250) (QWithdrawableUnbonded ''bob'') = Ok (WithdrawableUnbondedResponse w)
     \<and> messages r = [BankSend ''bob'' [\<lparr>denom = ''uluna'', coin_amount = paid\<rparr>]]
     \<and> paid = 300 \<and> unat w = 0)"
proof -
  obtain p s where p: "PARAMETERS run_paid = Some p" "unbonding_period p = 50" "underlying_coin_denom p = ''uluna''"
    and s: "STATE run_paid = Some s" "last_processed_batch s = 1"
    by (simp add: run_paid_def run_defs)
  have none: "matured_run run_paid s t = []" for t
    by (simp add: matured_run_def s due_ids.simps matured_def run_paid_def kv_get_def)
  obtain st1 r1 where one: "execute_withdraw_unbonded ref_lib (sample_querier 400 400 300) run_paid (sample_env 310)
        \<lparr>sender = ''bob'', funds = []\<rparr> = Ok (st1, r1)"
    and "messages r1 = [BankSend ''bob'' [\<lparr>denom = ''uluna'', coin_amount = 300\<rparr>]]"
    by (simp add: eval_defs Let_def run_paid_def run_defs to_be_bytes_less_iff o_def)
  moreover have "claims_where (\<lambda>h. released h \<and> \<not> hist_time h < 260) ref_lib run_paid (to_vec_str ref_lib ''bob'') = 0"
    by (simp add: claims_where_def claim_where_def run_paid_def run_defs eval_defs o_def)
  moreover obtain st2 r2 where two: "execute_withdraw_unbonded ref_lib (sample_querier 400 400 300) run_paid (sample_env 250)
        \<lparr>sender = ''bob'', funds = []\<rparr> = Ok (st2, r2)"
    and "messages r2 = [BankSend ''bob'' [\<lparr>denom = ''uluna'', coin_amount = 300\<rparr>]]"
    by (simp add: eval_defs Let_def run_paid_def run_defs to_be_bytes_less_iff o_def)
  moreover have "claims_where (\<lambda>h. released h \<and> \<not> hist_time h < 200) ref_lib run_paid (to_vec_str ref_lib ''bob'') = 300"
    by (simp add: claims_where_def claim_where_def run_paid_def run_defs eval_defs o_def)
  ultimately show ?thesis
    using withdrawal_pays_query [OF cosmwasm_ref_lib run_paid_reached p(1) s(1) one refl none]
      withdrawal_pays_query [OF cosmwasm_ref_lib run_paid_reached p(1) s(1) two refl none]
    by (simp add: p)
qed

end
