(* ===== verification/Rewards.thy ===== *)
theory Rewards
  imports Samples HubUtility
begin

text \<open>
  The rewards contract, \<open>contracts/prism_rewards\<close>: it is the receiver of the hub's staking rewards
  and returns its whole balance to the hub when the hub asks for it.
\<close>

section \<open>Storage\<close>

record rewards_storage =
  RW_PAUSE :: "bool option"
  RW_ADMIN :: admin_cell
  RW_CONFIG :: "rewards_config option"

definition empty_rewards :: rewards_storage where
  "empty_rewards = \<lparr>RW_PAUSE = None, RW_ADMIN = None, RW_CONFIG = None\<rparr>"

section \<open>Operations\<close>

definition rewards_assert_admin :: "cw_lib \<Rightarrow> rewards_storage \<Rightarrow> addr \<Rightarrow> unit res" where
  "rewards_assert_admin L st caller =
     (case admin_assert L (RW_ADMIN st) caller of
        Inr _ \<Rightarrow> Ok ()
      | Inl e \<Rightarrow> (case e of NotAdmin \<Rightarrow> Err (GenericErr ''Caller is not admin'')
                          | AdminStd std_error \<Rightarrow> Err std_error))"

definition is_rewards_paused :: "rewards_storage \<Rightarrow> response res" where
  "is_rewards_paused st =
     and_then (load ''bool'' (RW_PAUSE st)) (\<lambda>is_paused.
     if is_paused then Err (GenericErr ''Contract is paused cannot perform the tx'')
     else Ok (respond [] []))"

definition rewards_instantiate ::
  "cw_lib \<Rightarrow> rewards_storage \<Rightarrow> message_info \<Rightarrow> rewards_instantiate_msg \<Rightarrow>
   (rewards_storage \<times> response) res" where
  "rewards_instantiate L st info msg =
     and_then (addr_canonicalize L (sender info)) (\<lambda>_.
     let st1 = st\<lparr>RW_PAUSE := Some False\<rparr> in
     and_then (addr_validate L (sender info)) (\<lambda>admin.
     and_then (admin_set L (Some admin)) (\<lambda>cell.
     let st2 = st1\<lparr>RW_ADMIN := cell\<rparr> in
     and_then (addr_canonicalize L (ri_hub_addr msg)) (\<lambda>hub.
     let conf = \<lparr>hub_contract = hub, rc_underlying_coin_denom = ri_underlying_coin_denom msg\<rparr> in
     Ok (st2\<lparr>RW_CONFIG := Some conf\<rparr>,
         respond [] [(''hub_contract'', AttrText (ri_hub_addr msg)),
                     (''admin'', AttrText (sender info))])))))"

definition execute_process_rewards ::
  "cw_lib \<Rightarrow> querier \<Rightarrow> rewards_storage \<Rightarrow> env \<Rightarrow> message_info \<Rightarrow> (rewards_storage \<times> response) res" where
  "execute_process_rewards L Q st env info =
     and_then (load ''Config'' (RW_CONFIG st)) (\<lambda>config.
     and_then (addr_humanize L (hub_contract config)) (\<lambda>hub.
     if sender info \<noteq> hub then Err (GenericErr ''Caller is not hub contract'')
     else
     and_then (query_balance Q (contract_address env) (rc_underlying_coin_denom config)) (\<lambda>balance.
     Ok (st,
         respond
           [WasmExecute hub (HubMsg UpdateExchangeRate)
              [\<lparr>denom = denom balance, coin_amount = coin_amount balance\<rparr>]]
           [(''reward_accumulated'', AttrUint (coin_amount balance))]))))"

definition rewards_execute ::
  "cw_lib \<Rightarrow> querier \<Rightarrow> rewards_storage \<Rightarrow> env \<Rightarrow> message_info \<Rightarrow> rewards_execute_msg \<Rightarrow>
   (rewards_storage \<times> response) res" where
  "rewards_execute L Q st env info msg =
     (case msg of
        RwPause \<Rightarrow>
          and_then (rewards_assert_admin L st (sender info)) (\<lambda>_.
          Ok (st\<lparr>RW_PAUSE := Some True\<rparr>, respond [] []))
      | RwUnpause \<Rightarrow>
          and_then (rewards_assert_admin L st (sender info)) (\<lambda>_.
          Ok (st\<lparr>RW_PAUSE := Some False\<rparr>, respond [] []))
      | RwUpdateAdmin admin \<Rightarrow>
          and_then (is_rewards_paused st) (\<lambda>_.
          and_then (addr_validate L admin) (\<lambda>admin'.
          case admin_execute_update L (RW_ADMIN st) info (Some admin') of
            Inr (cell, r) \<Rightarrow> Ok (st\<lparr>RW_ADMIN := cell\<rparr>, r)
          | Inl e \<Rightarrow> (case e of NotAdmin \<Rightarrow> Err (GenericErr ''Caller is not admin'')
                              | AdminStd std_error \<Rightarrow> Err std_error)))
      | ProcessRewards \<Rightarrow>
          and_then (is_rewards_paused st) (\<lambda>_. execute_process_rewards L Q st env info))"

definition rewards_query_config :: "cw_lib \<Rightarrow> rewards_storage \<Rightarrow> string res" where
  "rewards_query_config L st =
     and_then (load ''Config'' (RW_CONFIG st)) (\<lambda>config.
     unwrap (addr_humanize L (hub_contract config)))"

definition rewards_query ::
  "cw_lib \<Rightarrow> rewards_storage \<Rightarrow> rewards_query_msg \<Rightarrow> rewards_query_response res" where
  "rewards_query L st msg =
     (case msg of
        RwQConfig \<Rightarrow> and_then (rewards_query_config L st) (\<lambda>a. Ok (RwConfigResponse a))
      | RwQAdmin \<Rightarrow> and_then (admin_query L (RW_ADMIN st)) (\<lambda>a. Ok (RwAdminResponse a)))"

lemmas rewards_defs =
  empty_rewards_def rewards_assert_admin_def is_rewards_paused_def rewards_instantiate_def
  execute_process_rewards_def rewards_execute_def rewards_query_config_def rewards_query_def

declare rewards_defs [eval_defs]

section \<open>What it does\<close>

lemma is_rewards_paused_OkD: "is_rewards_paused st = Ok r \<Longrightarrow> RW_PAUSE st = Some False"
  by (auto simp: is_rewards_paused_def res_simps split: if_splits)

lemma process_rewards_OkE:
  assumes "rewards_execute L Q st env info ProcessRewards = Ok (st', r)"
  obtains cfg bal where "RW_PAUSE st = Some False" and "RW_CONFIG st = Some cfg"
    and "addr_humanize L (hub_contract cfg) = Ok (sender info)"
    and "query_balance Q (contract_address env) (rc_underlying_coin_denom cfg) = Ok bal"
    and "st' = st" and "messages r = [WasmExecute (sender info) (HubMsg UpdateExchangeRate) [bal]]"
  using assms
  by (auto simp: rewards_execute_def execute_process_rewards_def is_rewards_paused_def res_simps
      split: if_splits)

section \<open>Properties\<close>

text \<open>
  C30: what the rewards contract does. Paused, it refuses everything but Pause and Unpause; only the stored
  admin can pause, unpause or hand over the admin role, and those messages change that cell alone and send
  nothing. Processing rewards succeeds only for the stored hub, changes nothing, and its only message hands
  the contract's whole balance of its coin to that hub, as an exchange-rate update: no message pays out
  to anybody else.
\<close>

theorem rewards_only_to_hub:
  assumes "admin_controller L" and "rewards_execute L Q st env info msg = Ok (st', r)"
  shows "(msg \<in> {RwPause, RwUnpause} \<or> RW_PAUSE st = Some False)
    \<and> (msg = ProcessRewards \<or> RW_ADMIN st = Some (Some (sender info)) \<and> messages r = [])
    \<and> (case msg of
         RwPause \<Rightarrow> st' = st\<lparr>RW_PAUSE := Some True\<rparr>
       | RwUnpause \<Rightarrow> st' = st\<lparr>RW_PAUSE := Some False\<rparr>
       | RwUpdateAdmin a \<Rightarrow> \<exists>a'. addr_validate L a = Ok a' \<and> st' = st\<lparr>RW_ADMIN := Some (Some a')\<rparr>
       | ProcessRewards \<Rightarrow> st' = st
           \<and> (\<exists>cfg bal. RW_CONFIG st = Some cfg \<and> addr_humanize L (hub_contract cfg) = Ok (sender info)
                \<and> query_balance Q (contract_address env) (rc_underlying_coin_denom cfg) = Ok bal
                \<and> messages r = [WasmExecute (sender info) (HubMsg UpdateExchangeRate) [bal]]))"
proof (cases msg)
  case (RwUpdateAdmin a)
  with assms(2) obtain a2 cell r0 where "is_rewards_paused st = Ok r0" and a2: "addr_validate L a = Ok a2"
    and upd: "admin_execute_update L (RW_ADMIN st) info (Some a2) = Inr (cell, r)"
    and st': "st' = st\<lparr>RW_ADMIN := cell\<rparr>"
    by (auto simp: rewards_execute_def split: sum.splits admin_error.splits)
  from this(1) have pause: "RW_PAUSE st = Some False" by (rule is_rewards_paused_OkD)
  have admin: "admin_assert L (RW_ADMIN st) (sender info) = Inr ()"
    using admin_controller.admin_update_rejected [OF assms(1), of "RW_ADMIN st" info _ "Some a2"] upd
    by (cases "admin_assert L (RW_ADMIN st) (sender info)") auto
  from admin_controller.admin_update_accepted [OF assms(1) this, of "Some a2"] upd
  have "cell = Some (Some a2)" and "messages r = []" by auto
  with pause a2 st' admin show ?thesis
    by (simp add: RwUpdateAdmin admin_controller.admin_assert_iff [OF assms(1)])
next
  case ProcessRewards
  with assms(2) have "rewards_execute L Q st env info ProcessRewards = Ok (st', r)" by simp
  then show ?thesis by (rule process_rewards_OkE) (simp add: ProcessRewards)
qed (use assms admin_controller.admin_assert_iff [OF assms(1), of "RW_ADMIN st" "sender info"] in
    \<open>auto simp: rewards_execute_def rewards_assert_admin_def split: sum.splits admin_error.splits\<close>)

theorem rewards_only_to_hub_witness:
  "\<exists>r. rewards_execute ref_lib (sample_querier 0 0 205)
      \<lparr>RW_PAUSE = Some False, RW_ADMIN = Some (Some ''owner''),
       RW_CONFIG = Some \<lparr>hub_contract = map char_byte ''hub'', rc_underlying_coin_denom = ''uluna''\<rparr>\<rparr>
      \<lparr>block_height = 7, block_seconds = 100, contract_address = ''rewards''\<rparr>
      \<lparr>sender = ''hub'', funds = []\<rparr> ProcessRewards
    = Ok (\<lparr>RW_PAUSE = Some False, RW_ADMIN = Some (Some ''owner''),
       RW_CONFIG = Some \<lparr>hub_contract = map char_byte ''hub'', rc_underlying_coin_denom = ''uluna''\<rparr>\<rparr>, r)
    \<and> messages r = [WasmExecute ''hub'' (HubMsg UpdateExchangeRate)
        [\<lparr>denom = ''uluna'', coin_amount = 205\<rparr>]]"
    (is "\<exists>r. rewards_execute _ ?Q ?st ?env ?info _ = _ \<and> _")
proof -
  obtain st' r where ok: "rewards_execute ref_lib ?Q ?st ?env ?info ProcessRewards = Ok (st', r)"
    by (simp add: eval_defs)
  from rewards_only_to_hub [OF ref_admin.admin_controller_axioms ok] ok show ?thesis by auto
qed

end
