(* ===== verification/BigInt.thy ===== *)
theory BigInt
  imports Cosmwasm
begin

text \<open>
  What the big number package builds on: \<open>U256\<close> of the crate \<open>bigint\<close>, whose four \<open>u64\<close> limbs the
  package reads and builds itself, and the text form of decimals. The crate's operations, and the
  text form of the platform's 128-bit \<open>Decimal\<close>, are parameters with the documented behaviour as
  locales; \<open>ref_big\<close> is an executable instance that satisfies all of it.
\<close>

section \<open>Integers of 256 bits\<close>

text \<open>\<open>U256([l0, l1, l2, l3])\<close>, least significant limb first.\<close>

datatype u256 = U256 u64 u64 u64 u64

fun uval :: "u256 \<Rightarrow> nat" where
  "uval (U256 a b c d) = unat a + 2 ^ 64 * (unat b + 2 ^ 64 * (unat c + 2 ^ 64 * unat d))"

definition u256_of_nat :: "nat \<Rightarrow> u256" where
  "u256_of_nat n =
     U256 (of_nat n) (of_nat (n div 2 ^ 64)) (of_nat (n div 2 ^ 64 div 2 ^ 64))
       (of_nat (n div 2 ^ 64 div 2 ^ 64 div 2 ^ 64))"

lemma limb_split_inject:
  fixes a c :: u64 and m n :: nat
  shows "unat a + 2 ^ 64 * m = unat c + 2 ^ 64 * n \<longleftrightarrow> a = c \<and> m = n"
proof
  assume eq: "unat a + 2 ^ 64 * m = unat c + 2 ^ 64 * n"
  have "unat a = (unat a + 2 ^ 64 * m) mod 2 ^ 64" and "unat c = (unat c + 2 ^ 64 * n) mod 2 ^ 64"
    by simp_all
  with eq have "unat a = unat c" by metis
  with eq show "a = c \<and> m = n" by (simp add: word_unat_eq_iff)
qed simp

lemma uval_inject [simp]: "uval u = uval v \<longleftrightarrow> u = v"
  by (cases u; cases v) (simp only: uval.simps u256.inject limb_split_inject word_unat_eq_iff [symmetric])

lemma limb_cons_less:
  fixes a :: u64 and m k :: nat
  assumes "m < k"
  shows "unat a + 2 ^ 64 * m < 2 ^ 64 * k"
proof -
  have "unat a + 2 ^ 64 * m < 2 ^ 64 * (m + 1)" by simp
  also have "\<dots> \<le> 2 ^ 64 * k" using assms by (intro mult_le_mono2) simp
  finally show ?thesis .
qed

lemma uval_less: "uval u < 2 ^ 256"
proof (cases u)
  case (U256 a b c d)
  have "unat d < 2 ^ 64" by simp
  then have "unat c + 2 ^ 64 * unat d < 2 ^ 64 * 2 ^ 64" by (rule limb_cons_less)
  then have "unat b + 2 ^ 64 * (unat c + 2 ^ 64 * unat d) < 2 ^ 64 * (2 ^ 64 * 2 ^ 64)"
    by (rule limb_cons_less)
  then have "uval u < 2 ^ 64 * (2 ^ 64 * (2 ^ 64 * 2 ^ 64))"
    unfolding U256 uval.simps by (rule limb_cons_less)
  then show ?thesis by simp
qed

lemma uval_u256_of_nat:
  assumes "n < 2 ^ 256"
  shows "uval (u256_of_nat n) = n"
proof -
  have top: "n div 2 ^ 64 div 2 ^ 64 div 2 ^ 64 < 2 ^ 64"
    using assms by (simp add: div_mult2_eq [symmetric] div_less_iff_less_mult)
  have limb: "unat (of_nat m :: u64) + 2 ^ 64 * (m div 2 ^ 64) = m" for m :: nat
    by (simp add: unat_of_nat)
  have "unat (of_nat (n div 2 ^ 64 div 2 ^ 64 div 2 ^ 64) :: u64) = n div 2 ^ 64 div 2 ^ 64 div 2 ^ 64"
    using top by (simp add: unat_of_nat)
  then show ?thesis by (simp only: u256_of_nat_def uval.simps limb)
qed

lemma u256_of_nat_uval [simp]: "u256_of_nat (uval u) = u"
  using uval_u256_of_nat [OF uval_less, of u] by simp

lemma uval_upper_limbs_zero_iff: "c = 0 \<and> d = 0 \<longleftrightarrow> uval (U256 a b c d) < 2 ^ 128"
proof
  assume "c = 0 \<and> d = 0"
  moreover have "unat a + 2 ^ 64 * unat b < 2 ^ 64 * 2 ^ 64" by (rule limb_cons_less) simp
  ultimately show "uval (U256 a b c d) < 2 ^ 128" by simp
next
  assume "uval (U256 a b c d) < 2 ^ 128"
  then have "2 ^ 64 * 2 ^ 64 * (unat c + 2 ^ 64 * unat d) < 2 ^ 64 * 2 ^ 64 * 1" by simp
  then have "unat c + 2 ^ 64 * unat d < 1" by (subst (asm) nat_mult_less_cancel1) simp_all
  then have "unat c = 0" and "unat d = 0" by simp_all
  then show "c = 0 \<and> d = 0" by (simp add: unat_eq_zero)
qed

section \<open>Decimal text\<close>

text \<open>The text form of a number of \<open>10^-18\<close> units: no trailing zeros, no dot for an integer.\<close>

definition trim_end_zeros :: "string \<Rightarrow> string" where
  "trim_end_zeros s = rev (dropWhile (\<lambda>c. c = CHR ''0'') (rev s))"

definition fraction_text :: "nat \<Rightarrow> string" where
  "fraction_text m =
     trim_end_zeros (replicate (18 - length (show_nat m)) (CHR ''0'') @ show_nat m)"

definition decimal_text :: "nat \<Rightarrow> string" where
  "decimal_text n =
     (if n mod E18 = 0 then show_nat (n div E18)
      else show_nat (n div E18) @ CHR ''.'' # fraction_text (n mod E18))"

text \<open>\<open>input.split('.')\<close>.\<close>

fun split_dot :: "string \<Rightarrow> string list" where
  "split_dot [] = [[]]"
| "split_dot (c # cs) =
     (if c = CHR ''.'' then [] # split_dot cs
      else (c # hd (split_dot cs)) # tl (split_dot cs))"

text \<open>The number of units a decimal text stands for: at most one dot, at most 18 digits after it.\<close>

definition read_decimal :: "string \<Rightarrow> nat option" where
  "read_decimal s =
     (case split_dot s of
        [w] \<Rightarrow> map_option (\<lambda>n. n * E18) (read_nat w)
      | [w, f] \<Rightarrow> (case (read_nat w, read_nat f) of
            (Some n, Some m) \<Rightarrow>
              if length f \<le> 18 then Some (n * E18 + m * 10 ^ (18 - length f)) else None
          | _ \<Rightarrow> None)
      | _ \<Rightarrow> None)"

lemma split_dot_nonempty: "split_dot s \<noteq> []"
  by (cases s) auto

lemma split_dot_cases:
  obtains (one) w where "split_dot s = [w]" | (two) w f where "split_dot s = [w, f]"
  | (many) w f g gs where "split_dot s = w # f # g # gs"
  using split_dot_nonempty [of s] by (metis neq_Nil_conv)

lemma split_dot_no_dot: "CHR ''.'' \<notin> set s \<Longrightarrow> split_dot s = [s]"
  by (induction s) auto

lemma split_dot_append:
  "CHR ''.'' \<notin> set s \<Longrightarrow> split_dot (s @ CHR ''.'' # t) = s # split_dot t"
  by (induction s) auto

lemma show_nat_no_dot: "CHR ''.'' \<notin> set (show_nat n)"
  using show_nat_digits [of "CHR ''.''" n] by (auto simp: is_digit_char_def)

lemma trim_end_zeros_decomp:
  "\<exists>k. s = trim_end_zeros s @ replicate k (CHR ''0'')"
proof -
  let ?z = "\<lambda>c. c = CHR ''0''"
  have "rev s = takeWhile ?z (rev s) @ dropWhile ?z (rev s)" by simp
  then have "s = rev (dropWhile ?z (rev s)) @ rev (takeWhile ?z (rev s))"
    by (metis rev_append rev_rev_ident)
  moreover have "takeWhile ?z (rev s) = replicate (length (takeWhile ?z (rev s))) (CHR ''0'')"
    by (rule replicate_length_same [symmetric]) (auto dest: set_takeWhileD)
  ultimately show ?thesis unfolding trim_end_zeros_def by (metis rev_replicate)
qed

lemma read_digits_all_digits:
  "(\<forall>c \<in> set s. is_digit_char c) \<Longrightarrow> \<exists>n. read_digits s acc = Some n"
  by (induction s acc rule: read_digits.induct) auto

text \<open>Reading the fraction that is printed for \<open>m\<close> gives \<open>m\<close> back, scaled by its length.\<close>

lemma read_fraction_text:
  assumes "m < E18"
  obtains f where "read_nat (fraction_text m) = Some f" and "length (fraction_text m) \<le> 18"
    and "f * 10 ^ (18 - length (fraction_text m)) = m" and "CHR ''.'' \<notin> set (fraction_text m)"
proof -
  let ?p = "replicate (18 - length (show_nat m)) (CHR ''0'') @ show_nat m"
  let ?t = "fraction_text m"
  obtain k where k: "?p = ?t @ replicate k (CHR ''0'')"
    using trim_end_zeros_decomp unfolding fraction_text_def by blast
  have "length (show_nat m) \<le> Suc 17" by (rule length_show_nat_le) (use assms in simp)
  then have "length ?p = 18" by simp
  then have len: "length ?t + k = 18" unfolding k by simp
  have "\<forall>c \<in> set ?p. is_digit_char c"
    using show_nat_digits by (auto simp: is_digit_char_def)
  then have digits: "\<forall>c \<in> set ?t. is_digit_char c" unfolding k by simp
  then obtain f where f: "read_nat ?t = Some f"
    using read_digits_all_digits [of ?t 0] by (auto simp: read_nat_def)
  have "read_nat ?p = Some m"
    unfolding read_nat_def read_digits_zeros by (simp add: read_nat_def [symmetric])
  then have "10 ^ k * f = m"
    unfolding k using f by (simp add: read_digits_append read_digits_acc_zeros read_nat_def)
  moreover have "CHR ''.'' \<notin> set ?t" using digits by (auto simp: is_digit_char_def)
  moreover have "18 - length ?t = k" and "length ?t \<le> 18" using len by simp_all
  ultimately show thesis using f by (intro that) (simp_all add: mult.commute)
qed

lemma read_decimal_text: "read_decimal (decimal_text n) = Some n"
proof (cases "n mod E18 = 0")
  case True
  then have "n div E18 * E18 = n" by (simp add: mod_eq_0_iff_dvd)
  with True show ?thesis
    by (simp add: decimal_text_def read_decimal_def split_dot_no_dot show_nat_no_dot)
next
  case False
  obtain f where "read_nat (fraction_text (n mod E18)) = Some f"
    and "length (fraction_text (n mod E18)) \<le> 18"
    and "f * 10 ^ (18 - length (fraction_text (n mod E18))) = n mod E18"
    and "CHR ''.'' \<notin> set (fraction_text (n mod E18))"
    by (rule read_fraction_text [of "n mod E18"]) simp_all
  with False show ?thesis
    by (simp add: decimal_text_def read_decimal_def split_dot_append split_dot_no_dot
        show_nat_no_dot)
qed

section \<open>The libraries called\<close>

record bignum_lib =
  u_from :: "u64 \<Rightarrow> u256"
    \<comment> \<open>\<open>U256::from\<close> of a machine integer\<close>
  u_add :: "u256 \<Rightarrow> u256 \<Rightarrow> u256 res"
  u_sub :: "u256 \<Rightarrow> u256 \<Rightarrow> u256 res"
  u_mul :: "u256 \<Rightarrow> u256 \<Rightarrow> u256 res"
  u_div :: "u256 \<Rightarrow> u256 \<Rightarrow> u256 res"
  u_rem :: "u256 \<Rightarrow> u256 \<Rightarrow> u256 res"
  u_pow :: "u256 \<Rightarrow> u256 \<Rightarrow> u256 res"
  u_is_zero :: "u256 \<Rightarrow> bool"
  u_ge :: "u256 \<Rightarrow> u256 \<Rightarrow> bool"
    \<comment> \<open>the operator \<open>>=\<close>\<close>
  u_from_dec_str :: "string \<Rightarrow> u256 option"
    \<comment> \<open>\<open>U256::from_dec_str\<close>; its error value is never looked at\<close>
  u_to_string :: "u256 \<Rightarrow> string"
  dec_to_string :: "decimal \<Rightarrow> string"
    \<comment> \<open>\<open>cosmwasm_std::Decimal::to_string\<close>\<close>
  dec_from_str :: "string \<Rightarrow> decimal res"
    \<comment> \<open>\<open>cosmwasm_std::Decimal::from_str\<close>\<close>
  err_to_string :: "std_error \<Rightarrow> string"
    \<comment> \<open>\<open>StdError::to_string\<close>\<close>

text \<open>
  The crate \<open>bigint\<close>: exact results, a panic where the result does not fit 256 bits, decimal
  numerals (the empty one stands for zero).
\<close>

locale u256_arith =
  fixes B :: bignum_lib
  assumes uval_from: "uval (u_from B n) = unat n"
    and u_add_iff: "u_add B a b = Ok c \<longleftrightarrow> uval c = uval a + uval b"
    and u_add_no_err: "\<not> is_err (u_add B a b)"
    and u_sub_iff: "u_sub B a b = Ok c \<longleftrightarrow> uval a = uval b + uval c"
    and u_sub_no_err: "\<not> is_err (u_sub B a b)"
    and u_mul_iff: "u_mul B a b = Ok c \<longleftrightarrow> uval c = uval a * uval b"
    and u_mul_no_err: "\<not> is_err (u_mul B a b)"
    and u_div_iff: "0 < uval b \<Longrightarrow> u_div B a b = Ok c \<longleftrightarrow> uval c = uval a div uval b"
    and u_rem_iff: "0 < uval b \<Longrightarrow> u_rem B a b = Ok c \<longleftrightarrow> uval c = uval a mod uval b"
    and u_pow_iff: "u_pow B a b = Ok c \<longleftrightarrow> uval c = uval a ^ uval b"
    and is_zero_iff: "u_is_zero B a \<longleftrightarrow> uval a = 0"
    and ge_iff: "u_ge B a b \<longleftrightarrow> uval b \<le> uval a"
    and from_dec_str_iff: "u_from_dec_str B s = Some u \<longleftrightarrow> read_nat s = Some (uval u)"
    and to_string_eq: "u_to_string B u = show_nat (uval u)"

text \<open>
  The text form of the platform's 128-bit decimals: what is printed, and that a printed number is
  read back exactly when it fits.
\<close>

locale decimal_strings =
  fixes B :: bignum_lib
  assumes dec_to_string_eq: "dec_to_string B d = decimal_text (units d)"
    and dec_from_str_fits:
      "n < 2 ^ 128 \<Longrightarrow> dec_from_str B (decimal_text n) = Ok (Decimal (of_nat n))"
    and dec_from_str_overflow: "2 ^ 128 \<le> n \<Longrightarrow> is_err (dec_from_str B (decimal_text n))"

locale bignum = u256_arith B + decimal_strings B for B :: bignum_lib

section \<open>An executable instance\<close>

definition big_narrow :: "nat \<Rightarrow> u256 res" where
  "big_narrow n = (if n < 2 ^ 256 then Ok (u256_of_nat n) else Panic ''arithmetic operation overflow'')"

definition ref_big :: bignum_lib where
  "ref_big =
     \<lparr>u_from = (\<lambda>n. u256_of_nat (unat n)),
      u_add = (\<lambda>a b. big_narrow (uval a + uval b)),
      u_sub = (\<lambda>a b. if uval b \<le> uval a then Ok (u256_of_nat (uval a - uval b))
                     else Panic ''arithmetic operation overflow''),
      u_mul = (\<lambda>a b. big_narrow (uval a * uval b)),
      u_div = (\<lambda>a b. if uval b = 0 then Panic ''division by zero''
                     else Ok (u256_of_nat (uval a div uval b))),
      u_rem = (\<lambda>a b. if uval b = 0 then Panic ''division by zero''
                     else Ok (u256_of_nat (uval a mod uval b))),
      u_pow = (\<lambda>a b. big_narrow (uval a ^ uval b)),
      u_is_zero = (\<lambda>a. uval a = 0),
      u_ge = (\<lambda>a b. uval b \<le> uval a),
      u_from_dec_str =
        (\<lambda>s. case read_nat s of
                Some n \<Rightarrow> if n < 2 ^ 256 then Some (u256_of_nat n) else None
              | None \<Rightarrow> None),
      u_to_string = (\<lambda>u. show_nat (uval u)),
      dec_to_string = (\<lambda>d. decimal_text (units d)),
      dec_from_str =
        (\<lambda>s. case read_decimal s of
                Some n \<Rightarrow> if n < 2 ^ 128 then Ok (Decimal (of_nat n))
                           else Err (GenericErr ''Value too big'')
              | None \<Rightarrow> Err (GenericErr ''Error parsing decimal'')),
      err_to_string = (\<lambda>e. case e of GenericErr m \<Rightarrow> ''Generic error: '' @ m | _ \<Rightarrow> ''error'')\<rparr>"

lemma big_narrow_iff: "big_narrow n = Ok u \<longleftrightarrow> uval u = n"
  using uval_less [of u] by (auto simp: big_narrow_def uval_u256_of_nat)

lemma big_narrow_no_err: "\<not> is_err (big_narrow n)"
  by (simp add: big_narrow_def)

lemma u256_of_nat_eq_iff: "n < 2 ^ 256 \<Longrightarrow> u256_of_nat n = u \<longleftrightarrow> uval u = n"
  by (auto simp: uval_u256_of_nat)

interpretation ref_u256: u256_arith ref_big
proof (unfold_locales, goal_cases)
  case (1 n)
  have "unat n < 2 ^ 256" by (rule less_trans [OF unat_less_exp]) simp
  then show ?case by (simp add: ref_big_def uval_u256_of_nat)
next
  case (4 a b c)
  have "uval a - uval b < 2 ^ 256" by (rule le_less_trans [OF diff_le_self uval_less])
  then show ?case by (auto simp: ref_big_def u256_of_nat_eq_iff)
next
  case (8 b a c)
  have "uval a div uval b < 2 ^ 256" by (rule le_less_trans [OF div_le_dividend uval_less])
  with 8 show ?case by (auto simp: ref_big_def u256_of_nat_eq_iff)
next
  case (9 b a c)
  have "uval a mod uval b < 2 ^ 256" by (rule le_less_trans [OF mod_less_eq_dividend uval_less])
  with 9 show ?case by (auto simp: ref_big_def u256_of_nat_eq_iff)
next
  case (13 s u)
  show ?case
    using uval_less [of u]
    by (auto simp: ref_big_def u256_of_nat_eq_iff split: option.splits if_splits)
qed (simp_all add: ref_big_def big_narrow_iff big_narrow_no_err)

interpretation ref_strings: decimal_strings ref_big
  by unfold_locales (simp_all add: ref_big_def read_decimal_text)

interpretation ref_bignum: bignum ref_big ..

lemmas bignum_ref_big = ref_bignum.bignum_axioms
lemmas u256_arith_ref_big = ref_u256.u256_arith_axioms

end
