(* ===== verification/BigNumber.thy ===== *)
theory BigNumber
  imports BigInt
begin

text \<open>
  \<open>packages/bignumber/src/math.rs\<close>: the 256-bit decimal with 18 fractional digits and the 256-bit
  unsigned integer, with their conversions, text form and arithmetic. A serializer and a
  deserializer are arguments of the serde implementations, which exchange the text form with them.
\<close>

unbundle bit_operations_syntax

section \<open>Decimal256\<close>

datatype decimal256 = Decimal256 (dec_raw: u256)

datatype uint256 = Uint256 (uint_raw: u256)

definition DECIMAL_FRACTIONAL_256 :: u256 where
  "DECIMAL_FRACTIONAL_256 = U256 1000000000000000000 0 0 0"

definition decimal256_max :: decimal256 where
  "decimal256_max = Decimal256 (U256 (- 1) (- 1) (- 1) (- 1))"

definition decimal256_one :: decimal256 where
  "decimal256_one = Decimal256 DECIMAL_FRACTIONAL_256"

definition decimal256_zero :: decimal256 where
  "decimal256_zero = Decimal256 (U256 0 0 0 0)"

definition decimal256_percent :: "bignum_lib \<Rightarrow> u64 \<Rightarrow> decimal256 res" where
  "decimal256_percent B x =
     and_then (u_mul B (u_from B x) (u_from B 10000000000000000)) (\<lambda>v. Ok (Decimal256 v))"

definition decimal256_permille :: "bignum_lib \<Rightarrow> u64 \<Rightarrow> decimal256 res" where
  "decimal256_permille B x =
     and_then (u_mul B (u_from B x) (u_from B 1000000000000000)) (\<lambda>v. Ok (Decimal256 v))"

definition decimal256_from_ratio :: "bignum_lib \<Rightarrow> u256 \<Rightarrow> u256 \<Rightarrow> decimal256 res" where
  "decimal256_from_ratio B nominator denominator =
     (if u_is_zero B denominator then Panic ''Denominator must not be zero''
      else and_then (u_mul B nominator DECIMAL_FRACTIONAL_256) (\<lambda>scaled.
           and_then (u_div B scaled denominator) (\<lambda>v. Ok (Decimal256 v))))"

definition decimal256_from_uint256 :: "bignum_lib \<Rightarrow> uint256 \<Rightarrow> decimal256 res" where
  "decimal256_from_uint256 B num =
     and_then (u_mul B (uint_raw num) DECIMAL_FRACTIONAL_256) (\<lambda>v. Ok (Decimal256 v))"

definition decimal256_is_zero :: "bignum_lib \<Rightarrow> decimal256 \<Rightarrow> bool" where
  "decimal256_is_zero B d = u_is_zero B (dec_raw d)"

text \<open>\<open>FromStr\<close>: the branches of the match on the number of parts, and its error values.\<close>

definition decimal256_from_str :: "bignum_lib \<Rightarrow> string \<Rightarrow> decimal256 res" where
  "decimal256_from_str B input =
     (case split_dot input of
        [whole_part] \<Rightarrow>
          and_then (ok_or (GenericErr ''Error parsing whole'') (u_from_dec_str B whole_part)) (\<lambda>whole.
          and_then (u_mul B whole DECIMAL_FRACTIONAL_256) (\<lambda>whole_as_atomics.
          Ok (Decimal256 whole_as_atomics)))
      | [whole_part, fractional_part] \<Rightarrow>
          and_then (ok_or (GenericErr ''Error parsing whole'') (u_from_dec_str B whole_part)) (\<lambda>whole.
          and_then (ok_or (GenericErr ''Error parsing fractional'')
                     (u_from_dec_str B fractional_part)) (\<lambda>fractional.
          and_then (if length fractional_part \<le> 18 then Ok (18 - length fractional_part)
                    else Err (GenericErr ''Cannot parse more than 18 fractional digits'')) (\<lambda>exp.
          and_then (u_pow B (u_from B 10) (u_from B (of_nat exp))) (\<lambda>fractional_factor.
          and_then (u_mul B whole DECIMAL_FRACTIONAL_256) (\<lambda>whole_as_atomics.
          and_then (u_mul B fractional fractional_factor) (\<lambda>fractional_as_atomics.
          and_then (u_add B whole_as_atomics fractional_as_atomics) (\<lambda>atomics.
          Ok (Decimal256 atomics))))))))
      | _ \<Rightarrow> Err (GenericErr ''Unexpected number of dots''))"

text \<open>\<open>Display\<close>; the padding subtracts on \<open>usize\<close>.\<close>

definition decimal256_to_string :: "bignum_lib \<Rightarrow> decimal256 \<Rightarrow> string res" where
  "decimal256_to_string B d =
     and_then (u_div B (dec_raw d) DECIMAL_FRACTIONAL_256) (\<lambda>whole.
     and_then (u_rem B (dec_raw d) DECIMAL_FRACTIONAL_256) (\<lambda>fractional.
     if u_is_zero B fractional then Ok (u_to_string B whole)
     else let fractional_string = u_to_string B fractional in
       if 18 < length fractional_string then Panic ''attempt to subtract with overflow''
       else Ok (u_to_string B whole @ CHR ''.'' #
                trim_end_zeros (replicate (18 - length fractional_string) (CHR ''0'')
                                @ fractional_string))))"

text \<open>\<open>From<Decimal> for Decimal256\<close> and back.\<close>

definition decimal256_from_decimal :: "bignum_lib \<Rightarrow> decimal \<Rightarrow> decimal256 res" where
  "decimal256_from_decimal B val = unwrap (decimal256_from_str B (dec_to_string B val))"

definition decimal256_into_decimal :: "bignum_lib \<Rightarrow> decimal256 \<Rightarrow> decimal res" where
  "decimal256_into_decimal B n =
     (case dec_raw n of U256 l0 l1 l2 l3 \<Rightarrow>
        if l2 \<noteq> 0 then Panic ''assertion failed: arr[2] == 0u64''
        else if l3 \<noteq> 0 then Panic ''assertion failed: arr[3] == 0u64''
        else and_then (decimal256_to_string B n) (\<lambda>s. unwrap (dec_from_str B s)))"

definition decimal256_add :: "bignum_lib \<Rightarrow> decimal256 \<Rightarrow> decimal256 \<Rightarrow> decimal256 res" where
  "decimal256_add B x y = and_then (u_add B (dec_raw x) (dec_raw y)) (\<lambda>v. Ok (Decimal256 v))"

text \<open>The assignment operator returns the new value of its left operand.\<close>

definition decimal256_add_assign :: "bignum_lib \<Rightarrow> decimal256 \<Rightarrow> decimal256 \<Rightarrow> decimal256 res" where
  "decimal256_add_assign B x y =
     and_then (u_add B (dec_raw x) (dec_raw y)) (\<lambda>v. Ok (Decimal256 v))"

definition decimal256_sub :: "bignum_lib \<Rightarrow> decimal256 \<Rightarrow> decimal256 \<Rightarrow> decimal256 res" where
  "decimal256_sub B x y =
     (if u_ge B (dec_raw x) (dec_raw y)
      then and_then (u_sub B (dec_raw x) (dec_raw y)) (\<lambda>v. Ok (Decimal256 v))
      else Panic ''assertion failed: self.0 >= rhs.0'')"

definition decimal256_mul :: "bignum_lib \<Rightarrow> decimal256 \<Rightarrow> decimal256 \<Rightarrow> decimal256 res" where
  "decimal256_mul B x y =
     and_then (u_mul B (dec_raw x) (dec_raw y)) (\<lambda>p.
     and_then (u_div B p DECIMAL_FRACTIONAL_256) (\<lambda>v. Ok (Decimal256 v)))"

definition decimal256_div :: "bignum_lib \<Rightarrow> decimal256 \<Rightarrow> decimal256 \<Rightarrow> decimal256 res" where
  "decimal256_div B x y =
     (if decimal256_is_zero B y then Panic ''assertion failed: !rhs.is_zero()''
      else and_then (u_mul B (dec_raw x) DECIMAL_FRACTIONAL_256) (\<lambda>p.
           and_then (u_div B p (dec_raw y)) (\<lambda>v. Ok (Decimal256 v))))"

text \<open>The serde visitor.\<close>

definition decimal256_visit_str :: "bignum_lib \<Rightarrow> string \<Rightarrow> decimal256 res" where
  "decimal256_visit_str B v =
     (case decimal256_from_str B v of
        Ok d \<Rightarrow> Ok d
      | Err e \<Rightarrow> Err (ParseErr (''Error parsing decimal '' @ [CHR 39] @ v @ [CHR 39] @ '': ''
                                @ err_to_string B e))
      | Panic p \<Rightarrow> Panic p)"

text \<open>
  \<open>Serialize\<close> hands the text to the serializer and \<open>Deserialize\<close> the visitor to the deserializer;
  both are given by the format and are arguments here.
\<close>

definition decimal256_serialize :: "bignum_lib \<Rightarrow> (string \<Rightarrow> 'o res) \<Rightarrow> decimal256 \<Rightarrow> 'o res" where
  "decimal256_serialize B serialize_str d = and_then (decimal256_to_string B d) serialize_str"

definition decimal256_deserialize ::
  "bignum_lib \<Rightarrow> ((string \<Rightarrow> decimal256 res) \<Rightarrow> decimal256 res) \<Rightarrow> decimal256 res" where
  "decimal256_deserialize B deserialize_str = deserialize_str (decimal256_visit_str B)"

section \<open>Uint256\<close>

definition uint256_zero :: uint256 where
  "uint256_zero = Uint256 (U256 0 0 0 0)"

definition uint256_one :: uint256 where
  "uint256_one = Uint256 (U256 1 0 0 0)"

definition uint256_is_zero :: "bignum_lib \<Rightarrow> uint256 \<Rightarrow> bool" where
  "uint256_is_zero B n = u_is_zero B (uint_raw n)"

text \<open>\<open>From<U256> for Uint256\<close> and back.\<close>

definition uint256_from_u256 :: "u256 \<Rightarrow> uint256" where
  "uint256_from_u256 val = Uint256 val"

definition uint256_into_u256 :: "uint256 \<Rightarrow> u256" where
  "uint256_into_u256 val = uint_raw val"

definition split_u128 :: "u128 \<Rightarrow> u64 \<times> u64" where
  "split_u128 a = (ucast (drop_bit 64 a), ucast (a AND 0xFFFFFFFFFFFFFFFF))"

definition uint256_from_u128 :: "u128 \<Rightarrow> uint256" where
  "uint256_from_u128 val = (let (hi, low) = split_u128 val in Uint256 (U256 low hi 0 0))"

text \<open>\<open>From<Uint128> for Uint256\<close>; \<open>Uint128\<close> wraps a \<open>u128\<close>.\<close>

definition uint256_from_uint128 :: "u128 \<Rightarrow> uint256" where
  "uint256_from_uint128 val = uint256_from_u128 val"

definition uint256_from_u64 :: "bignum_lib \<Rightarrow> u64 \<Rightarrow> uint256" where
  "uint256_from_u64 B val = Uint256 (u_from B val)"

definition uint256_try_from :: "bignum_lib \<Rightarrow> string \<Rightarrow> uint256 res" where
  "uint256_try_from B val =
     (case u_from_dec_str B val of
        Some u \<Rightarrow> Ok (Uint256 u)
      | None \<Rightarrow> Err (GenericErr (''invalid Uint256 '' @ [CHR 39] @ val @ [CHR 39])))"

definition uint256_from_str :: "bignum_lib \<Rightarrow> string \<Rightarrow> uint256 res" where
  "uint256_from_str B input =
     and_then (ok_or (GenericErr ''Error parsing number'') (u_from_dec_str B input)) (\<lambda>number.
     Ok (Uint256 number))"

definition uint256_to_string :: "bignum_lib \<Rightarrow> uint256 \<Rightarrow> string" where
  "uint256_to_string B n = u_to_string B (uint_raw n)"

text \<open>\<open>From<Uint256> for String\<close>.\<close>

definition uint256_into_string :: "bignum_lib \<Rightarrow> uint256 \<Rightarrow> string" where
  "uint256_into_string B n = u_to_string B (uint_raw n)"

definition uint256_into_u128 :: "uint256 \<Rightarrow> u128 res" where
  "uint256_into_u128 n =
     (case uint_raw n of U256 low hi l2 l3 \<Rightarrow>
        if l2 \<noteq> 0 then Panic ''assertion failed: arr[2] == 0u64''
        else if l3 \<noteq> 0 then Panic ''assertion failed: arr[3] == 0u64''
        else let high = push_bit 64 (ucast hi :: u128) in
          if unat high + unat low < 2 ^ 128 then Ok (high + ucast low)
          else Panic ''attempt to add with overflow'')"

definition uint256_into_uint128 :: "uint256 \<Rightarrow> u128 res" where
  "uint256_into_uint128 n = and_then (uint256_into_u128 n) (\<lambda>num. Ok num)"

definition uint256_add :: "bignum_lib \<Rightarrow> uint256 \<Rightarrow> uint256 \<Rightarrow> uint256 res" where
  "uint256_add B x y = and_then (u_add B (uint_raw x) (uint_raw y)) (\<lambda>v. Ok (Uint256 v))"

definition uint256_add_assign :: "bignum_lib \<Rightarrow> uint256 \<Rightarrow> uint256 \<Rightarrow> uint256 res" where
  "uint256_add_assign B x y = and_then (u_add B (uint_raw x) (uint_raw y)) (\<lambda>v. Ok (Uint256 v))"

definition uint256_sub :: "bignum_lib \<Rightarrow> uint256 \<Rightarrow> uint256 \<Rightarrow> uint256 res" where
  "uint256_sub B x y =
     (if u_ge B (uint_raw x) (uint_raw y)
      then and_then (u_sub B (uint_raw x) (uint_raw y)) (\<lambda>v. Ok (Uint256 v))
      else Panic ''assertion failed: self.0 >= rhs.0'')"

definition uint256_mul :: "bignum_lib \<Rightarrow> uint256 \<Rightarrow> uint256 \<Rightarrow> uint256 res" where
  "uint256_mul B x y =
     (if uint256_is_zero B x \<or> uint256_is_zero B y then Ok uint256_zero
      else and_then (u_mul B (uint_raw x) (uint_raw y)) (\<lambda>v. Ok (Uint256 v)))"

definition multiply_ratio :: "bignum_lib \<Rightarrow> uint256 \<Rightarrow> u256 \<Rightarrow> u256 \<Rightarrow> uint256 res" where
  "multiply_ratio B n nominator denominator =
     (if u_is_zero B denominator then Panic ''Denominator must not be zero''
      else and_then (u_mul B (uint_raw n) nominator) (\<lambda>p.
           and_then (u_div B p denominator) (\<lambda>val. Ok (uint256_from_u256 val))))"

definition uint256_mul_decimal256 :: "bignum_lib \<Rightarrow> uint256 \<Rightarrow> decimal256 \<Rightarrow> uint256 res" where
  "uint256_mul_decimal256 B n d =
     (if uint256_is_zero B n \<or> decimal256_is_zero B d then Ok uint256_zero
      else multiply_ratio B n (dec_raw d) DECIMAL_FRACTIONAL_256)"

definition uint256_div_decimal256 :: "bignum_lib \<Rightarrow> uint256 \<Rightarrow> decimal256 \<Rightarrow> uint256 res" where
  "uint256_div_decimal256 B n d =
     (if decimal256_is_zero B d then Panic ''assertion failed: !rhs.is_zero()''
      else if uint256_is_zero B n then Ok uint256_zero
      else multiply_ratio B n DECIMAL_FRACTIONAL_256 (dec_raw d))"

definition decimal256_mul_uint256 :: "bignum_lib \<Rightarrow> decimal256 \<Rightarrow> uint256 \<Rightarrow> uint256 res" where
  "decimal256_mul_uint256 B d n = uint256_mul_decimal256 B n d"

definition uint256_visit_str :: "bignum_lib \<Rightarrow> string \<Rightarrow> uint256 res" where
  "uint256_visit_str B v =
     (case u_from_dec_str B v of
        Some u \<Rightarrow> Ok (Uint256 u)
      | None \<Rightarrow> Err (ParseErr (''invalid Uint256 '' @ [CHR 39] @ v @ [CHR 39])))"

definition uint256_serialize :: "bignum_lib \<Rightarrow> (string \<Rightarrow> 'o res) \<Rightarrow> uint256 \<Rightarrow> 'o res" where
  "uint256_serialize B serialize_str n = serialize_str (uint256_to_string B n)"

definition uint256_deserialize ::
  "bignum_lib \<Rightarrow> ((string \<Rightarrow> uint256 res) \<Rightarrow> uint256 res) \<Rightarrow> uint256 res" where
  "uint256_deserialize B deserialize_str = deserialize_str (uint256_visit_str B)"

section \<open>Arithmetic of the representation\<close>

lemma uval_DECIMAL_FRACTIONAL [simp]: "uval DECIMAL_FRACTIONAL_256 = E18"
  by (simp add: DECIMAL_FRACTIONAL_256_def)

abbreviation dval :: "decimal256 \<Rightarrow> nat" where
  "dval d \<equiv> uval (dec_raw d)"

abbreviation nval :: "uint256 \<Rightarrow> nat" where
  "nval n \<equiv> uval (uint_raw n)"

lemma dval_eq_iff: "dval d = dval e \<longleftrightarrow> d = e"
  by (auto intro: decimal256.expand)

lemma nval_eq_iff: "nval m = nval n \<longleftrightarrow> m = n"
  by (auto intro: uint256.expand)

lemma nval_zero [simp]: "nval uint256_zero = 0"
  by (simp add: uint256_zero_def)

lemma dval_less: "dval d < 2 ^ 256" and nval_less: "nval n < 2 ^ 256"
  by (rule uval_less)+

lemma scale_down_up_le:
  fixes a s n :: nat
  assumes "0 < a"
  shows "n * a div s * s div a \<le> n"
proof -
  have "n * a div s * s \<le> n * a" by (rule div_times_less_eq_dividend)
  then have "n * a div s * s div a \<le> n * a div a" by (rule div_le_mono)
  with assms show ?thesis by simp
qed

lemma ex_unat_eq_iff: "(\<exists>b :: 'a :: len word. n = unat b) \<longleftrightarrow> n < 2 ^ LENGTH('a)"
proof
  assume "n < 2 ^ LENGTH('a)"
  then have "n = unat (of_nat n :: 'a word)" by (simp add: unat_of_nat)
  then show "\<exists>b :: 'a word. n = unat b" ..
qed (auto intro: unsigned_less)

lemma wrap_Decimal256: "and_then m (\<lambda>v. Ok (Decimal256 v)) = Ok d \<longleftrightarrow> m = Ok (dec_raw d)"
  by (cases m; cases d) auto

lemma wrap_Uint256: "and_then m (\<lambda>v. Ok (Uint256 v)) = Ok n \<longleftrightarrow> m = Ok (uint_raw n)"
  by (cases m; cases n) auto

context u256_arith
begin

lemma ex_uval: "n < 2 ^ 256 \<Longrightarrow> \<exists>u. uval u = n"
  using uval_u256_of_nat by blast

lemma mul_then_div_iff:
  assumes "0 < uval c"
  shows "(\<exists>p. u_mul B a b = Ok p \<and> u_div B p c = Ok r)
           \<longleftrightarrow> uval a * uval b < 2 ^ 256 \<and> uval r = uval a * uval b div uval c"
proof
  assume "\<exists>p. u_mul B a b = Ok p \<and> u_div B p c = Ok r"
  then obtain p where "uval p = uval a * uval b" and "uval r = uval p div uval c"
    using assms by (auto simp: u_mul_iff u_div_iff)
  then show "uval a * uval b < 2 ^ 256 \<and> uval r = uval a * uval b div uval c"
    using uval_less [of p] by simp
next
  assume r: "uval a * uval b < 2 ^ 256 \<and> uval r = uval a * uval b div uval c"
  then obtain p where "uval p = uval a * uval b" using ex_uval by blast
  with r assms have "u_mul B a b = Ok p \<and> u_div B p c = Ok r" by (simp add: u_mul_iff u_div_iff)
  then show "\<exists>p. u_mul B a b = Ok p \<and> u_div B p c = Ok r" ..
qed

lemma u_div_total: "0 < uval b \<Longrightarrow> \<exists>c. u_div B a b = Ok c \<and> uval c = uval a div uval b"
  using ex_uval [OF le_less_trans [OF div_le_dividend uval_less]] by (metis u_div_iff)

lemma u_rem_total: "0 < uval b \<Longrightarrow> \<exists>c. u_rem B a b = Ok c \<and> uval c = uval a mod uval b"
  using ex_uval [OF le_less_trans [OF mod_less_eq_dividend uval_less]] by (metis u_rem_iff)

lemma u_div_no_err: "0 < uval b \<Longrightarrow> \<not> is_err (u_div B a b)"
  using u_div_total [of b a] by auto

lemma mul_div_Decimal256:
  assumes "0 < uval c"
  shows "and_then (u_mul B a b) (\<lambda>p. and_then (u_div B p c) (\<lambda>v. Ok (Decimal256 v))) = Ok d
           \<longleftrightarrow> uval a * uval b < 2 ^ 256 \<and> dval d = uval a * uval b div uval c"
  unfolding and_then_eq_Ok [of "u_mul B a b"] wrap_Decimal256
  by (rule mul_then_div_iff [OF assms])

lemma mul_div_Uint256:
  assumes "0 < uval c"
  shows "and_then (u_mul B a b) (\<lambda>p. and_then (u_div B p c) (\<lambda>v. Ok (Uint256 v))) = Ok n
           \<longleftrightarrow> uval a * uval b < 2 ^ 256 \<and> nval n = uval a * uval b div uval c"
  unfolding and_then_eq_Ok [of "u_mul B a b"] wrap_Uint256
  by (rule mul_then_div_iff [OF assms])

lemma decimal256_add_iff: "decimal256_add B x y = Ok z \<longleftrightarrow> dval z = dval x + dval y"
  by (simp add: decimal256_add_def wrap_Decimal256 u_add_iff)

lemma decimal256_sub_iff: "decimal256_sub B x y = Ok z \<longleftrightarrow> dval x = dval y + dval z"
  by (auto simp: decimal256_sub_def wrap_Decimal256 u_sub_iff ge_iff)

lemma decimal256_mul_iff:
  "decimal256_mul B x y = Ok z \<longleftrightarrow> dval x * dval y < 2 ^ 256 \<and> dval z = dval x * dval y div E18"
  by (simp add: decimal256_mul_def mul_div_Decimal256)

lemma decimal256_div_iff:
  "decimal256_div B x y = Ok z \<longleftrightarrow>
     0 < dval y \<and> dval x * E18 < 2 ^ 256 \<and> dval z = dval x * E18 div dval y"
  by (cases "dval y = 0")
    (simp_all add: decimal256_div_def decimal256_is_zero_def is_zero_iff mul_div_Decimal256)

lemma decimal256_no_err:
  "\<not> is_err (decimal256_add B x y)" "\<not> is_err (decimal256_sub B x y)"
  "\<not> is_err (decimal256_mul B x y)" "\<not> is_err (decimal256_div B x y)"
  by (auto simp: decimal256_add_def decimal256_sub_def decimal256_mul_def decimal256_div_def
      decimal256_is_zero_def is_zero_iff and_then_is_err u_add_no_err u_sub_no_err u_mul_no_err
      u_div_no_err)

lemma multiply_ratio_iff:
  "multiply_ratio B n a b = Ok m \<longleftrightarrow>
     0 < uval b \<and> nval n * uval a < 2 ^ 256 \<and> nval m = nval n * uval a div uval b"
  by (cases "uval b = 0")
    (simp_all add: multiply_ratio_def uint256_from_u256_def is_zero_iff mul_div_Uint256)

lemma uint256_mul_decimal256_iff:
  "uint256_mul_decimal256 B n d = Ok m \<longleftrightarrow>
     nval n * dval d < 2 ^ 256 \<and> nval m = nval n * dval d div E18"
proof (cases "nval n = 0 \<or> dval d = 0")
  case True
  moreover have "nval m = 0 \<longleftrightarrow> m = uint256_zero" using nval_eq_iff [of m uint256_zero] by simp
  ultimately show ?thesis
    by (auto simp: uint256_mul_decimal256_def uint256_is_zero_def decimal256_is_zero_def is_zero_iff)
next
  case False
  then show ?thesis
    by (simp add: uint256_mul_decimal256_def uint256_is_zero_def decimal256_is_zero_def is_zero_iff
        multiply_ratio_iff)
qed

lemma uint256_div_decimal256_iff:
  "uint256_div_decimal256 B n d = Ok m \<longleftrightarrow>
     0 < dval d \<and> nval n * E18 < 2 ^ 256 \<and> nval m = nval n * E18 div dval d"
proof (cases "nval n = 0 \<or> dval d = 0")
  case True
  moreover have "nval m = 0 \<longleftrightarrow> m = uint256_zero" using nval_eq_iff [of m uint256_zero] by simp
  ultimately show ?thesis
    by (auto simp: uint256_div_decimal256_def uint256_is_zero_def decimal256_is_zero_def is_zero_iff)
next
  case False
  then show ?thesis
    by (simp add: uint256_div_decimal256_def uint256_is_zero_def decimal256_is_zero_def is_zero_iff
        multiply_ratio_iff)
qed

text \<open>Reading: the fractional factor, one part, two parts.\<close>

lemma pow_ten_total:
  assumes "k \<le> 18"
  shows "\<exists>p. u_pow B (u_from B 10) (u_from B (of_nat k)) = Ok p \<and> uval p = 10 ^ k"
proof -
  have "(10 :: nat) ^ k \<le> 10 ^ 18" using assms by (intro power_increasing) simp_all
  then have "(10 :: nat) ^ k < 2 ^ 256" by (rule le_less_trans) simp
  then obtain p where "uval p = 10 ^ k" using ex_uval by blast
  moreover have "unat (of_nat k :: u64) = k" using assms by (simp add: unat_of_nat)
  ultimately show ?thesis by (auto simp: u_pow_iff uval_from)
qed

lemma from_str_one_part:
  assumes "split_dot s = [w]"
  shows "decimal256_from_str B s = Ok d \<longleftrightarrow> (\<exists>n. read_nat w = Some n \<and> dval d = n * E18)"
proof
  assume "decimal256_from_str B s = Ok d"
  then show "\<exists>n. read_nat w = Some n \<and> dval d = n * E18"
    using assms by (auto simp: decimal256_from_str_def ok_or_eq_Ok from_dec_str_iff u_mul_iff)
next
  assume "\<exists>n. read_nat w = Some n \<and> dval d = n * E18"
  then obtain n where n: "read_nat w = Some n" "dval d = n * E18" by blast
  then have "n \<le> dval d" by simp
  then obtain u where u: "uval u = n" using ex_uval [of n] dval_less [of d] by (auto dest: le_less_trans)
  with n have "u_from_dec_str B w = Some u" and "u_mul B u DECIMAL_FRACTIONAL_256 = Ok (dec_raw d)"
    by (simp_all add: from_dec_str_iff u_mul_iff)
  then show "decimal256_from_str B s = Ok d" using assms by (simp add: decimal256_from_str_def)
qed

lemma from_str_two_parts:
  assumes parts: "split_dot s = [w, f]"
  shows "decimal256_from_str B s = Ok d \<longleftrightarrow>
    (\<exists>n m. read_nat w = Some n \<and> read_nat f = Some m \<and> length f \<le> 18
           \<and> dval d = n * E18 + m * 10 ^ (18 - length f))" (is "_ \<longleftrightarrow> ?r")
proof
  assume ok: "decimal256_from_str B s = Ok d"
  then have len: "length f \<le> 18"
    using parts by (auto simp: decimal256_from_str_def split: if_splits)
  obtain p where p: "u_pow B (u_from B 10) (u_from B (of_nat (18 - length f))) = Ok p"
    "uval p = 10 ^ (18 - length f)" using pow_ten_total [of "18 - length f"] by auto
  with ok len parts show ?r
    by (auto simp: decimal256_from_str_def ok_or_eq_Ok from_dec_str_iff u_mul_iff u_add_iff)
next
  assume ?r
  then obtain n m where n: "read_nat w = Some n" and m: "read_nat f = Some m"
    and len: "length f \<le> 18" and d: "dval d = n * E18 + m * 10 ^ (18 - length f)" by blast
  obtain p where p: "u_pow B (u_from B 10) (u_from B (of_nat (18 - length f))) = Ok p"
    "uval p = 10 ^ (18 - length f)" using pow_ten_total [of "18 - length f"] by auto
  have fits: "k \<le> dval d \<Longrightarrow> \<exists>u. uval u = k" for k
    using ex_uval le_less_trans [OF _ dval_less [of d]] by blast
  have "n \<le> dval d" and "n * E18 \<le> dval d" and "m * 10 ^ (18 - length f) \<le> dval d"
    by (simp_all add: d)
  moreover have "m * 1 \<le> m * 10 ^ (18 - length f)" by (intro mult_le_mono2) simp
  then have "m \<le> dval d" using \<open>m * 10 ^ (18 - length f) \<le> dval d\<close> by linarith
  ultimately obtain u v u' v' where "uval u = n" "uval v = m" "uval u' = n * E18"
    and "uval v' = m * 10 ^ (18 - length f)"
    using fits by meson
  with n m d p have "u_from_dec_str B w = Some u" "u_from_dec_str B f = Some v"
    "u_mul B u DECIMAL_FRACTIONAL_256 = Ok u'" "u_mul B v p = Ok v'" "u_add B u' v' = Ok (dec_raw d)"
    by (simp_all add: from_dec_str_iff u_mul_iff u_add_iff)
  then show "decimal256_from_str B s = Ok d"
    using parts len p by (simp add: decimal256_from_str_def)
qed

lemma from_str_iff: "decimal256_from_str B s = Ok d \<longleftrightarrow> read_decimal s = Some (dval d)"
proof (cases s rule: split_dot_cases)
  case (one w)
  then show ?thesis by (auto simp: from_str_one_part read_decimal_def)
next
  case (two w f)
  then show ?thesis
    by (auto simp: from_str_two_parts read_decimal_def split: option.splits if_splits)
next
  case (many w f g gs)
  then show ?thesis by (simp add: decimal256_from_str_def read_decimal_def)
qed

lemma from_str_malformed:
  assumes "read_decimal s = None"
  shows "is_err (decimal256_from_str B s)"
proof (cases s rule: split_dot_cases)
  case (one w)
  with assms have "read_nat w = None" by (simp add: read_decimal_def)
  then have "u_from_dec_str B w = None" by (metis from_dec_str_iff not_Some_eq)
  with one show ?thesis by (simp add: decimal256_from_str_def)
next
  case (two w f)
  show ?thesis
  proof (cases "u_from_dec_str B w = None \<or> u_from_dec_str B f = None")
    case True
    with two show ?thesis by (cases "u_from_dec_str B w") (auto simp: decimal256_from_str_def)
  next
    case False
    then obtain u v where "u_from_dec_str B w = Some u" "u_from_dec_str B f = Some v" by auto
    moreover from this have "\<not> length f \<le> 18"
      using assms two by (auto simp: read_decimal_def from_dec_str_iff)
    ultimately show ?thesis using two by (simp add: decimal256_from_str_def)
  qed
next
  case (many w f g gs)
  then show ?thesis by (simp add: decimal256_from_str_def)
qed

lemma from_str_fits:
  assumes "read_decimal s = Some n" and "n < 2 ^ 256"
  shows "\<exists>d. decimal256_from_str B s = Ok d"
proof -
  obtain u where "uval u = n" using ex_uval [OF assms(2)] by blast
  then have "decimal256_from_str B s = Ok (Decimal256 u)" by (simp add: from_str_iff assms(1))
  then show ?thesis ..
qed

text \<open>
  A numeral that needs more than 256 bits: the crate refuses a whole part that is itself too big, and the
  multiplication by \<open>10^18\<close>, or the addition of the fraction, panics otherwise.
\<close>

lemma from_dec_str_too_big:
  assumes "read_nat w = Some n" and "2 ^ 256 \<le> n"
  shows "u_from_dec_str B w = None"
proof (cases "u_from_dec_str B w")
  case (Some u)
  with assms uval_less [of u] show ?thesis by (simp add: from_dec_str_iff)
qed

lemma from_str_too_big_one:
  assumes "split_dot s = [w]" and "read_nat w = Some n" and "2 ^ 256 \<le> n * E18"
  shows "if 2 ^ 256 \<le> n then is_err (decimal256_from_str B s) else is_panic (decimal256_from_str B s)"
proof (cases "2 ^ 256 \<le> n")
  case True
  with assms(1) from_dec_str_too_big [OF assms(2)] show ?thesis by (simp add: decimal256_from_str_def)
next
  case False
  then obtain u where u: "uval u = n" using ex_uval [of n] by auto
  then have "u_from_dec_str B w = Some u" using assms(2) by (simp add: from_dec_str_iff)
  then have "\<not> is_err (decimal256_from_str B s)"
    using assms(1) by (simp add: decimal256_from_str_def and_then_is_err u_mul_no_err)
  moreover have "decimal256_from_str B s \<noteq> Ok d" for d
    using assms dval_less [of d] by (auto simp: from_str_one_part)
  ultimately show ?thesis using False by (auto intro: res_trichotomy simp: is_ok_iff)
qed

lemma from_str_too_big_two:
  assumes "split_dot s = [w, f]" and "read_nat w = Some n" and "read_nat f = Some m" and "length f \<le> 18"
    and "2 ^ 256 \<le> n * E18 + m * 10 ^ (18 - length f)"
  shows "if 2 ^ 256 \<le> n then is_err (decimal256_from_str B s) else is_panic (decimal256_from_str B s)"
proof (cases "2 ^ 256 \<le> n")
  case True
  with assms(1) from_dec_str_too_big [OF assms(2)] show ?thesis by (simp add: decimal256_from_str_def)
next
  case False
  then obtain u where "uval u = n" using ex_uval [of n] by auto
  moreover have "m < 10 ^ 18"
    using read_nat_less [OF assms(3)] power_increasing [OF assms(4), of "10 :: nat"] by (auto dest: less_le_trans)
  then obtain v where "uval v = m" using ex_uval [of m] by auto
  ultimately have parts: "u_from_dec_str B w = Some u" "u_from_dec_str B f = Some v"
    using assms(2,3) by (simp_all add: from_dec_str_iff)
  obtain p where "u_pow B (u_from B 10) (u_from B (of_nat (18 - length f))) = Ok p"
    using pow_ten_total [of "18 - length f"] by auto
  with parts have "\<not> is_err (decimal256_from_str B s)"
    using assms(1,4) by (simp add: decimal256_from_str_def and_then_is_err u_mul_no_err u_add_no_err)
  moreover have "decimal256_from_str B s \<noteq> Ok d" for d
    using assms dval_less [of d] by (auto simp: from_str_two_parts)
  ultimately show ?thesis using False by (auto intro: res_trichotomy simp: is_ok_iff)
qed

lemma from_str_too_big:
  assumes "read_decimal s = Some n" and "2 ^ 256 \<le> n"
  shows "if 2 ^ 256 \<le> n div E18 then is_err (decimal256_from_str B s) else is_panic (decimal256_from_str B s)"
proof (cases s rule: split_dot_cases)
  case (one w)
  with assms obtain k where "read_nat w = Some k" "n = k * E18" by (auto simp: read_decimal_def)
  with from_str_too_big_one [OF one] assms(2) show ?thesis by simp
next
  case (two w f)
  with assms(1) obtain k m where k: "read_nat w = Some k" "read_nat f = Some m" "length f \<le> 18"
    and n: "n = k * E18 + m * 10 ^ (18 - length f)"
    by (auto simp: read_decimal_def split: option.splits if_splits)
  have "m * 10 ^ (18 - length f) < 10 ^ length f * 10 ^ (18 - length f)"
    using read_nat_less [OF k(2)] by simp
  also have "\<dots> = 10 ^ 18" using k(3) by (simp flip: power_add)
  finally have "n div E18 = k" by (simp add: n)
  with from_str_too_big_two [OF two k] assms(2) n show ?thesis by simp
next
  case (many w f g gs)
  with assms show ?thesis by (simp add: read_decimal_def)
qed

text \<open>Printing: \<open>Display\<close> never panics and prints the text form of the value.\<close>

lemma to_string_text: "decimal256_to_string B d = Ok (decimal_text (dval d))"
proof -
  obtain w where w: "u_div B (dec_raw d) DECIMAL_FRACTIONAL_256 = Ok w" "uval w = dval d div E18"
    using u_div_total [of DECIMAL_FRACTIONAL_256 "dec_raw d"] by auto
  obtain f where f: "u_rem B (dec_raw d) DECIMAL_FRACTIONAL_256 = Ok f" "uval f = dval d mod E18"
    using u_rem_total [of DECIMAL_FRACTIONAL_256 "dec_raw d"] by auto
  have "length (show_nat (dval d mod E18)) \<le> Suc 17" by (rule length_show_nat_le) simp
  then show ?thesis
    using w f by (simp add: decimal256_to_string_def is_zero_iff to_string_eq decimal_text_def
        fraction_text_def Let_def)
qed

lemma from_str_text: "decimal256_from_str B (decimal_text (dval d)) = Ok d"
  by (simp add: from_str_iff read_decimal_text)

end

text \<open>Conversion from and to the platform's decimals goes through the text form.\<close>

context bignum
begin

lemma from_decimal_iff: "decimal256_from_decimal B x = Ok d \<longleftrightarrow> dval d = units x"
  by (auto simp: decimal256_from_decimal_def unwrap_eq_Ok from_str_iff dec_to_string_eq
      read_decimal_text)

lemma from_decimal_total: "\<exists>d. decimal256_from_decimal B x = Ok d \<and> dval d = units x"
proof -
  have "units x < 2 ^ 256" by (rule less_trans [OF unat_less_exp]) simp
  then obtain u where "uval u = units x" using ex_uval by blast
  then have "dval (Decimal256 u) = units x" by simp
  then show ?thesis using from_decimal_iff by blast
qed

lemma into_decimal_fits:
  assumes "dval d < 2 ^ 128"
  shows "decimal256_into_decimal B d = Ok (Decimal (of_nat (dval d)))"
proof (cases "dec_raw d")
  case (U256 a b c e)
  then have "c = 0" and "e = 0" using assms uval_upper_limbs_zero_iff [of c e a b] by simp_all
  with U256 show ?thesis
    using dec_from_str_fits [OF assms] by (simp add: decimal256_into_decimal_def to_string_text)
qed

lemma into_decimal_too_big:
  assumes "2 ^ 128 \<le> dval d"
  shows "is_panic (decimal256_into_decimal B d)"
proof (cases "dec_raw d")
  case (U256 a b c e)
  then have "\<not> (c = 0 \<and> e = 0)" using assms uval_upper_limbs_zero_iff [of c e a b] by simp
  with U256 show ?thesis by (auto simp: decimal256_into_decimal_def)
qed

lemma into_decimal_iff: "decimal256_into_decimal B d = Ok x \<longleftrightarrow> units x = dval d"
proof (cases "dval d < 2 ^ 128")
  case True
  have "Decimal (of_nat (dval d)) = x \<longleftrightarrow> units x = dval d"
    using True units_eq_iff [of x "Decimal (of_nat (dval d))"]
    by (auto simp: unat_of_nat)
  with True show ?thesis by (simp add: into_decimal_fits)
next
  case False
  then have "is_panic (decimal256_into_decimal B d)" by (intro into_decimal_too_big) simp
  moreover from False have "\<not> dval d < 340282366920938463463374607431768211456" by simp
  then have "units x \<noteq> dval d" by (metis unat_lt_128)
  ultimately show ?thesis by (auto simp: is_panic_iff)
qed

end

text \<open>The two limbs of a 128-bit integer.\<close>

lemma unat_high_limb: "unat (ucast (drop_bit 64 a) :: u64) = unat a div 2 ^ 64" for a :: u128
proof -
  have "unat a div 2 ^ 64 < 2 ^ 64" by (simp add: div_less_iff_less_mult)
  then show ?thesis
    unfolding unsigned_ucast_eq unsigned_drop_bit_eq by (simp add: drop_bit_eq_div take_bit_eq_mod)
qed

lemma unat_low_limb: "unat (ucast (a AND 0xFFFFFFFFFFFFFFFF) :: u64) = unat a mod 2 ^ 64"
  for a :: u128
proof -
  have "(0xFFFFFFFFFFFFFFFF :: u128) = mask 64" by (simp add: mask_eq_exp_minus_1)
  then have "a AND 0xFFFFFFFFFFFFFFFF = take_bit 64 a" by (simp add: take_bit_eq_mask)
  then show ?thesis
    by (simp only: unsigned_ucast_eq unsigned_take_bit_eq) (simp add: take_bit_eq_mod)
qed

lemma nval_from_u128: "nval (uint256_from_u128 a) = unat a"
  by (simp only: uint256_from_u128_def split_u128_def Let_def prod.case uint256.sel uval.simps
      unat_high_limb unat_low_limb) simp

lemma unat_ucast_u128: "unat (ucast x :: u128) = unat x" for x :: u64
proof -
  have "unat x < 340282366920938463463374607431768211456"
    by (rule less_trans [OF unat_lt_64]) simp
  then show ?thesis unfolding unsigned_ucast_eq by (simp add: take_bit_eq_mod)
qed

lemma unat_shifted_limb: "unat (push_bit 64 (ucast hi :: u128)) = 2 ^ 64 * unat hi" for hi :: u64
proof -
  have "unat hi * 2 ^ 64 < 2 ^ 64 * 2 ^ 64" by simp
  then show ?thesis
    unfolding unsigned_push_bit_eq unat_ucast_u128
    by (simp add: push_bit_eq_mult take_bit_eq_mod mult.commute)
qed

lemma into_u128_iff: "uint256_into_u128 n = Ok a \<longleftrightarrow> nval n = unat a"
proof (cases "uint_raw n")
  case (U256 low hi l2 l3)
  show ?thesis
  proof (cases "l2 = 0 \<and> l3 = 0")
    case True
    then have val: "nval n = unat low + 2 ^ 64 * unat hi" by (simp add: U256)
    have "unat low + 2 ^ 64 * unat hi < 2 ^ 64 * 2 ^ 64" by (rule limb_cons_less) simp
    then have less: "2 ^ 64 * unat hi + unat low < 2 ^ 128" by simp
    let ?sum = "push_bit 64 (ucast hi :: u128) + ucast low"
    have "unat ?sum = 2 ^ 64 * unat hi + unat low"
      using less by (subst unat_add_no_overflow) (simp_all add: unat_shifted_limb unat_ucast_u128)
    with val have sum: "unat ?sum = nval n" by simp
    have "uint256_into_u128 n = Ok ?sum"
      using U256 True less by (simp add: uint256_into_u128_def unat_shifted_limb)
    with sum show ?thesis by (auto simp: word_unat_eq_iff)
  next
    case False
    then have "\<not> nval n < 2 ^ 128" using uval_upper_limbs_zero_iff [of l2 l3 low hi] U256 by simp
    then have "\<not> nval n < 340282366920938463463374607431768211456" by simp
    then have "nval n \<noteq> unat a" by (metis unat_lt_128)
    with False U256 show ?thesis by (auto simp: uint256_into_u128_def)
  qed
qed

lemma into_u128_no_err: "\<not> is_err (uint256_into_u128 n)"
  by (auto simp: uint256_into_u128_def Let_def split: u256.split)

section \<open>Properties\<close>

text \<open>
  C36: printing and reading are inverse. \<open>Display\<close> prints every 256-bit decimal without a panic, and
  \<open>FromStr\<close> reads the printed text back as the same decimal; every 256-bit integer is read back by
  \<open>FromStr\<close> and \<open>TryFrom<&str>\<close>. Over any format that carries a string \<open>s\<close> as \<open>enc s\<close> and gives it to
  the visitor unchanged, deserializing what was serialized yields the same decimal or integer.
\<close>

theorem text_round_trip:
  assumes "u256_arith B" and "\<And>s. serialize_str s = Ok (enc s)"
    and "\<And>s visit. deserialize_dec (enc s) visit = visit s"
    and "\<And>s visit. deserialize_int (enc s) visit = visit s"
  shows "(\<exists>s. decimal256_to_string B d = Ok s \<and> decimal256_from_str B s = Ok d)
       \<and> (\<exists>x. decimal256_serialize B serialize_str d = Ok x
              \<and> decimal256_deserialize B (deserialize_dec x) = Ok d)
       \<and> uint256_from_str B (uint256_into_string B n) = Ok n
       \<and> uint256_try_from B (uint256_into_string B n) = Ok n
       \<and> (\<exists>x. uint256_serialize B serialize_str n = Ok x
              \<and> uint256_deserialize B (deserialize_int x) = Ok n)"
proof -
  have "u_from_dec_str B (show_nat (nval n)) = Some (uint_raw n)"
    by (simp add: u256_arith.from_dec_str_iff [OF assms(1)])
  then show ?thesis
    using u256_arith.to_string_text [OF assms(1), of d] u256_arith.from_str_text [OF assms(1), of d]
    by (simp add: assms(2-4) decimal256_serialize_def decimal256_deserialize_def
        decimal256_visit_str_def uint256_from_str_def uint256_try_from_def uint256_serialize_def
        uint256_deserialize_def uint256_visit_str_def uint256_into_string_def uint256_to_string_def
        u256_arith.to_string_eq [OF assms(1)])
qed

theorem text_round_trip_witness:
  "\<exists>x. decimal256_serialize ref_big (\<lambda>s. Ok (CHR 34 # s)) (Decimal256 (U256 1500000000000000000 0 0 0)) = Ok x
     \<and> decimal256_deserialize ref_big (\<lambda>visit. visit (tl x)) = Ok (Decimal256 (U256 1500000000000000000 0 0 0))"
  using text_round_trip [OF u256_arith_ref_big, of "\<lambda>s. Ok (CHR 34 # s)" "\<lambda>s. CHR 34 # s"
      "\<lambda>x visit. visit (tl x)" "\<lambda>x visit. visit (tl x)"] by simp

text \<open>
  C37: what reading a decimal does with every text. A text is accepted with a value exactly when it is a
  digit string, or two digit strings around one dot with at most 18 digits after it, whose number of
  \<open>10^-18\<close> units is that value; nothing is rounded. A text of any other form is an error value. A numeral
  of that form whose value needs more than 256 bits is an error value when its whole part alone does, and
  panics otherwise. The empty text and a missing whole part count as zero, although the comment of the
  function lists both as disallowed.
\<close>

theorem decimal256_from_str_value:
  assumes "u256_arith B"
  shows "(decimal256_from_str B s = Ok d \<longleftrightarrow> read_decimal s = Some (dval d))
       \<and> (case read_decimal s of
            None \<Rightarrow> is_err (decimal256_from_str B s)
          | Some n \<Rightarrow> if n < 2 ^ 256 then is_ok (decimal256_from_str B s)
                      else if 2 ^ 256 \<le> n div E18 then is_err (decimal256_from_str B s)
                      else is_panic (decimal256_from_str B s))
       \<and> decimal256_from_str B [] = Ok decimal256_zero
       \<and> decimal256_from_str B ''.5''
           = Ok (Decimal256 (U256 500000000000000000 0 0 0))"
proof (intro conjI)
  show "decimal256_from_str B s = Ok d \<longleftrightarrow> read_decimal s = Some (dval d)"
    by (rule u256_arith.from_str_iff [OF assms])
  show "case read_decimal s of
            None \<Rightarrow> is_err (decimal256_from_str B s)
          | Some n \<Rightarrow> if n < 2 ^ 256 then is_ok (decimal256_from_str B s)
                      else if 2 ^ 256 \<le> n div E18 then is_err (decimal256_from_str B s)
                      else is_panic (decimal256_from_str B s)"
  proof (cases "read_decimal s")
    case None
    then show ?thesis using u256_arith.from_str_malformed [OF assms] by simp
  next
    case (Some n)
    show ?thesis
    proof (cases "n < 2 ^ 256")
      case True
      then obtain d where "decimal256_from_str B s = Ok d"
        using u256_arith.from_str_fits [OF assms Some] by blast
      with Some True show ?thesis by simp
    next
      case False
      then have "2 ^ 256 \<le> n" by (rule leI)
      from u256_arith.from_str_too_big [OF assms Some this] show ?thesis
        by (simp only: Some option.case False if_False)
    qed
  qed
  show "decimal256_from_str B [] = Ok decimal256_zero"
    by (simp add: u256_arith.from_str_iff [OF assms] read_decimal_def decimal256_zero_def)
  show "decimal256_from_str B ''.5'' = Ok (Decimal256 (U256 500000000000000000 0 0 0))"
    by (simp add: u256_arith.from_str_iff [OF assms] read_decimal_def read_nat_def is_digit_char_def digit_val_def)
qed

theorem decimal256_from_str_value_witness:
  "decimal256_from_str ref_big ''1.2'' = Ok (Decimal256 (U256 1200000000000000000 0 0 0))
   \<and> is_err (decimal256_from_str ref_big ''1.2.3'')
   \<and> is_panic (decimal256_from_str ref_big (decimal_text (2 ^ 256)))"
proof (intro conjI)
  have "read_decimal ''1.2'' = Some (dval (Decimal256 (U256 1200000000000000000 0 0 0)))"
    by (simp add: read_decimal_def read_nat_def is_digit_char_def digit_val_def)
  then show "decimal256_from_str ref_big ''1.2'' = Ok (Decimal256 (U256 1200000000000000000 0 0 0))"
    using decimal256_from_str_value [OF u256_arith_ref_big] by blast
  have "read_decimal ''1.2.3'' = None" by (simp add: read_decimal_def)
  then show "is_err (decimal256_from_str ref_big ''1.2.3'')"
    using decimal256_from_str_value [OF u256_arith_ref_big, of "''1.2.3''"] by simp
  have "\<not> 2 ^ 256 \<le> 2 ^ 256 div E18" by simp
  then show "is_panic (decimal256_from_str ref_big (decimal_text (2 ^ 256)))"
    using decimal256_from_str_value [OF u256_arith_ref_big, of "decimal_text (2 ^ 256)"]
    by (simp only: read_decimal_text option.case less_irrefl if_False)
qed

text \<open>
  Conversion between the platform's 128-bit decimals and the 256-bit ones keeps the value. The
  way up always succeeds; the way down succeeds exactly when the value fits 128 bits and panics
  otherwise, so a round trip is the identity.
\<close>

lemma decimal_conversions:
  assumes "bignum B"
  shows "(\<exists>d. decimal256_from_decimal B x = Ok d \<and> dval d = units x
              \<and> decimal256_into_decimal B d = Ok x)
       \<and> (decimal256_into_decimal B d = Ok y \<longleftrightarrow> units y = dval d)
       \<and> (2 ^ 128 \<le> dval d \<longrightarrow> is_panic (decimal256_into_decimal B d))"
  using bignum.from_decimal_total [OF assms, of x] bignum.into_decimal_iff [OF assms]
    bignum.into_decimal_too_big [OF assms, of d]
  by auto

text \<open>
  C39: the arithmetic of 256-bit decimals. Sums and differences are exact, products and quotients
  are rounded down; an operation returns a value exactly when the result (for a product or a
  quotient, the unreduced product) fits 256 bits, the difference is not negative and the divisor is
  not zero, and no operation returns an error value.
\<close>

theorem decimal256_arithmetic:
  assumes "u256_arith B"
  shows "(decimal256_add B x y = Ok z \<longleftrightarrow> dval z = dval x + dval y)
       \<and> (decimal256_sub B x y = Ok z \<longleftrightarrow> dval x = dval y + dval z)
       \<and> (decimal256_mul B x y = Ok z \<longleftrightarrow>
            dval x * dval y < 2 ^ 256 \<and> dval z = dval x * dval y div E18)
       \<and> (decimal256_div B x y = Ok z \<longleftrightarrow>
            0 < dval y \<and> dval x * E18 < 2 ^ 256 \<and> dval z = dval x * E18 div dval y)
       \<and> \<not> is_err (decimal256_add B x y) \<and> \<not> is_err (decimal256_sub B x y)
       \<and> \<not> is_err (decimal256_mul B x y) \<and> \<not> is_err (decimal256_div B x y)"
  by (intro conjI u256_arith.decimal256_add_iff [OF assms] u256_arith.decimal256_sub_iff [OF assms]
      u256_arith.decimal256_mul_iff [OF assms] u256_arith.decimal256_div_iff [OF assms]
      u256_arith.decimal256_no_err [OF assms])

theorem decimal256_arithmetic_witness:
  "decimal256_mul ref_big (Decimal256 (U256 1500000000000000000 0 0 0))
     (Decimal256 (U256 2000000000000000001 0 0 0)) = Ok (Decimal256 (U256 3000000000000000001 0 0 0))
   \<and> \<not> is_err (decimal256_sub ref_big decimal256_zero decimal256_one)"
  using decimal256_arithmetic [OF u256_arith_ref_big, of "Decimal256 (U256 1500000000000000000 0 0 0)"
      "Decimal256 (U256 2000000000000000001 0 0 0)" "Decimal256 (U256 3000000000000000001 0 0 0)"]
    decimal256_arithmetic [OF u256_arith_ref_big, of decimal256_zero decimal256_one]
  by simp

text \<open>
  C40: scaling an integer by a decimal. The product is the exact product rounded down and the
  quotient the exact quotient rounded down; both return exactly when the unreduced product fits 256
  bits, division by zero panics, and dividing a product by the same decimal never gives more than
  the integer that was scaled. Both orders of the product agree.
\<close>

theorem uint256_scaling:
  assumes "u256_arith B"
  shows "(uint256_mul_decimal256 B n d = Ok m \<longleftrightarrow>
            nval n * dval d < 2 ^ 256 \<and> nval m = nval n * dval d div E18)
       \<and> (uint256_div_decimal256 B n d = Ok m \<longleftrightarrow>
            0 < dval d \<and> nval n * E18 < 2 ^ 256 \<and> nval m = nval n * E18 div dval d)
       \<and> is_panic (uint256_div_decimal256 B n decimal256_zero)
       \<and> (uint256_mul_decimal256 B n d = Ok m \<and> uint256_div_decimal256 B m d = Ok k \<longrightarrow>
            nval k \<le> nval n)
       \<and> decimal256_mul_uint256 B d n = uint256_mul_decimal256 B n d"
proof -
  have "is_panic (uint256_div_decimal256 B n decimal256_zero)"
    by (simp add: uint256_div_decimal256_def decimal256_is_zero_def decimal256_zero_def
        u256_arith.is_zero_iff [OF assms])
  moreover have "nval k \<le> nval n"
    if "uint256_mul_decimal256 B n d = Ok m" and "uint256_div_decimal256 B m d = Ok k"
    using that scale_down_up_le [of "dval d" "nval n" E18]
    by (simp add: u256_arith.uint256_mul_decimal256_iff [OF assms]
        u256_arith.uint256_div_decimal256_iff [OF assms])
  ultimately show ?thesis
    by (auto simp: decimal256_mul_uint256_def u256_arith.uint256_mul_decimal256_iff [OF assms]
        u256_arith.uint256_div_decimal256_iff [OF assms])
qed

theorem uint256_scaling_witness:
  "uint256_mul_decimal256 ref_big (Uint256 (U256 7 0 0 0)) (Decimal256 (U256 500000000000000000 0 0 0))
     = Ok (Uint256 (U256 3 0 0 0))
   \<and> nval (Uint256 (U256 6 0 0 0)) \<le> nval (Uint256 (U256 7 0 0 0))"
  using uint256_scaling [OF u256_arith_ref_big, of "Uint256 (U256 7 0 0 0)"
      "Decimal256 (U256 500000000000000000 0 0 0)" "Uint256 (U256 3 0 0 0)" "Uint256 (U256 6 0 0 0)"]
  by simp

text \<open>
  Conversion between \<open>u128\<close> and the 256-bit integer. Every \<open>u128\<close> keeps its value on the way
  up and comes back unchanged; the way down returns a value exactly when it fits 128 bits and
  panics otherwise, and the shifted limbs never overflow.
\<close>

lemma u128_conversions:
  "nval (uint256_from_u128 a) = unat a
   \<and> uint256_into_u128 (uint256_from_u128 a) = Ok a
   \<and> uint256_into_uint128 (uint256_from_uint128 a) = Ok a
   \<and> (uint256_into_u128 n = Ok b \<longleftrightarrow> nval n = unat b)
   \<and> (is_panic (uint256_into_u128 n) \<longleftrightarrow> 2 ^ 128 \<le> nval n)"
proof -
  have "is_panic (uint256_into_u128 n) \<longleftrightarrow> \<not> (\<exists>b. uint256_into_u128 n = Ok b)"
    using into_u128_no_err [of n] by (cases "uint256_into_u128 n") simp_all
  also have "\<dots> \<longleftrightarrow> 2 ^ 128 \<le> nval n"
    unfolding into_u128_iff using ex_unat_eq_iff [where 'a = 128, of "nval n"] by auto
  finally show ?thesis
    by (simp add: nval_from_u128 into_u128_iff uint256_into_uint128_def uint256_from_uint128_def
        and_then_eq_Ok)
qed

end
