(* ===== verification/HubMath256.thy ===== *)
theory HubMath256
  imports BigNumber
begin

text \<open>
  The 256-bit helpers of \<open>contracts/prism_hub/src/math.rs\<close>: product, sum and difference of two
  platform decimals, computed on 256-bit decimals and converted back.
\<close>

definition decimal_multiplication_in_256 :: "bignum_lib \<Rightarrow> decimal \<Rightarrow> decimal \<Rightarrow> decimal res" where
  "decimal_multiplication_in_256 B a b =
     and_then (decimal256_from_decimal B a) (\<lambda>a_u256.
     and_then (decimal256_from_decimal B b) (\<lambda>b_u256.
     and_then (decimal256_mul B b_u256 a_u256) (decimal256_into_decimal B)))"

definition decimal_summation_in_256 :: "bignum_lib \<Rightarrow> decimal \<Rightarrow> decimal \<Rightarrow> decimal res" where
  "decimal_summation_in_256 B a b =
     and_then (decimal256_from_decimal B a) (\<lambda>a_u256.
     and_then (decimal256_from_decimal B b) (\<lambda>b_u256.
     and_then (decimal256_add B b_u256 a_u256) (decimal256_into_decimal B)))"

definition decimal_subtraction_in_256 :: "bignum_lib \<Rightarrow> decimal \<Rightarrow> decimal \<Rightarrow> decimal res" where
  "decimal_subtraction_in_256 B a b =
     and_then (decimal256_from_decimal B a) (\<lambda>a_u256.
     and_then (decimal256_from_decimal B b) (\<lambda>b_u256.
     and_then (decimal256_sub B a_u256 b_u256) (decimal256_into_decimal B)))"

context bignum
begin

lemma ex_dval: "n < 2 ^ 256 \<Longrightarrow> \<exists>d. dval d = n"
  using ex_uval by (metis decimal256.sel)

text \<open>A step on 256-bit decimals between the two conversions.\<close>

lemma via_decimal256_iff:
  assumes step: "\<And>x y z. f x y = Ok z \<longleftrightarrow> R (dval x) (dval y) (dval z)"
  shows "and_then (decimal256_from_decimal B a) (\<lambda>x. and_then (decimal256_from_decimal B b) (\<lambda>y.
           and_then (f x y) (decimal256_into_decimal B))) = Ok c
         \<longleftrightarrow> R (units a) (units b) (units c)"
proof -
  obtain x y where x: "decimal256_from_decimal B a = Ok x" "dval x = units a"
    and y: "decimal256_from_decimal B b = Ok y" "dval y = units b"
    using from_decimal_total by metis
  have "units c < 2 ^ 256" by (rule less_trans [OF unat_less_exp]) simp
  then obtain z where z: "dval z = units c" using ex_dval by blast
  have "and_then (f x y) (decimal256_into_decimal B) = Ok c \<longleftrightarrow> R (units a) (units b) (units c)"
    using x y z by (auto simp: and_then_eq_Ok step into_decimal_iff intro!: exI [of _ z])
  with x y show ?thesis by simp
qed

lemma units_product_less: "units a * units b < 2 ^ 256"
proof -
  have "units a * units b < 2 ^ 128 * 2 ^ 128" by (rule mult_strict_mono) simp_all
  then show ?thesis by simp
qed

lemma multiplication_in_256_iff:
  "decimal_multiplication_in_256 B a b = Ok c \<longleftrightarrow> units c = units a * units b div E18"
  unfolding decimal_multiplication_in_256_def
  using units_product_less [of b a]
  by (subst via_decimal256_iff [where R = "\<lambda>x y z. y * x < 2 ^ 256 \<and> z = y * x div E18"])
    (simp_all add: decimal256_mul_iff mult.commute)

lemma summation_in_256_iff:
  "decimal_summation_in_256 B a b = Ok c \<longleftrightarrow> units c = units a + units b"
  unfolding decimal_summation_in_256_def
  by (subst via_decimal256_iff [where R = "\<lambda>x y z. z = y + x"])
    (simp_all add: decimal256_add_iff add.commute)

lemma subtraction_in_256_iff:
  "decimal_subtraction_in_256 B a b = Ok c \<longleftrightarrow> units a = units b + units c"
  unfolding decimal_subtraction_in_256_def
  by (rule via_decimal256_iff) (simp add: decimal256_sub_iff)

end

text \<open>
  C38: the 256-bit helpers return a decimal exactly when the result fits 128 bits (and, for the
  difference, is not negative): the product rounded down, the exact sum, the exact difference. The
  intermediate product never overflows.
\<close>

theorem decimal_helpers_in_256:
  assumes "bignum B"
  shows "(decimal_multiplication_in_256 B a b = Ok c \<longleftrightarrow> units c = units a * units b div E18)
       \<and> (decimal_summation_in_256 B a b = Ok c \<longleftrightarrow> units c = units a + units b)
       \<and> (decimal_subtraction_in_256 B a b = Ok c \<longleftrightarrow> units a = units b + units c)"
  by (intro conjI bignum.multiplication_in_256_iff [OF assms] bignum.summation_in_256_iff [OF assms]
      bignum.subtraction_in_256_iff [OF assms])

theorem decimal_helpers_in_256_witness:
  "decimal_multiplication_in_256 ref_big (Decimal 1500000000000000000) (Decimal 3) = Ok (Decimal 4)
   \<and> \<not> is_ok (decimal_subtraction_in_256 ref_big (Decimal 3) (Decimal 4))"
proof -
  have "decimal_subtraction_in_256 ref_big (Decimal 3) (Decimal 4) \<noteq> Ok c" for c
    using decimal_helpers_in_256 [OF bignum_ref_big, of "Decimal 3" "Decimal 4" c] by simp
  moreover have "decimal_multiplication_in_256 ref_big (Decimal 1500000000000000000) (Decimal 3) = Ok (Decimal 4)"
    using decimal_helpers_in_256 [OF bignum_ref_big, of "Decimal 1500000000000000000" "Decimal 3" "Decimal 4"]
    by simp
  ultimately show ?thesis by (auto simp: is_ok_iff)
qed

end
