(* ===== verification/Spec2Isabelle.thy ===== *)
theory Spec2Isabelle
  imports HubBacking HubProgress HubQueries Rewards HubMath256
begin

text \<open>
  A verification of the auto-compounding cAsset contracts of Prism: the hub, which takes deposits of a
  staking coin and issues a token against them, and the rewards contract, which collects the staking
  rewards and hands them back to the hub to be staked again.

  \<^bold>\<open>The program.\<close> The hub (\<open>src/contracts/prism_hub\<close>) mints tokens for a bond at its exchange rate
  and delegates the payment to a whitelisted validator. Tokens sent back to it (\<open>Receive\<close>) enter the
  current unbonding batch; after an epoch the batch is closed, its total is undelegated and filed in
  the history. After the unbonding period the matured batches are released at a withdraw rate that
  accounts for what the hub actually received, and the users withdraw. Anybody may start a reward
  cycle: the hub withdraws its staking rewards to the rewards contract (\<open>src/contracts/prism_rewards\<close>)
  and calls it, and that contract sends its balance to the hub's \<open>UpdateExchangeRate\<close>, which takes the
  protocol fee and delegates the rest. Signed differences and 256-bit numbers are packages of the
  repository (\<open>src/packages\<close>).

  \<^bold>\<open>Conventions.\<close> A function that returns \<open>StdResult\<close> is a HOL function into \<open>res\<close> with three outcomes,
  value, error and panic; \<open>and_then\<close> is the operator \<open>?\<close>. Machine integers are words of their width
  (\<open>u32\<close>, \<open>u64\<close>, \<open>u128\<close>); \<open>u64\<close> arithmetic panics on overflow as the release profile of the
  workspace has it. Storage is a record of optional cells and byte-keyed ordered stores, passed
  explicitly: a handler returns the new storage and the response. Code outside the repository is a
  parameter: the record \<open>cw_lib\<close> (\<open>Uint128\<close> and \<open>Decimal\<close> arithmetic, key encoding, the address API,
  the random index, the admin controller), the record \<open>querier\<close> (the answers of the chain during a
  message) and the record \<open>bignum_lib\<close> (the crate \<open>bigint\<close> and the text form of \<open>Decimal\<close>). Their
  documented behaviour is stated by the locales \<open>cosmwasm\<close> (of \<open>uint_decimal\<close>, \<open>key_codec\<close>,
  \<open>address_api\<close>, \<open>random_index\<close>, \<open>admin_controller\<close>) and \<open>bignum\<close> (of \<open>u256_arith\<close>,
  \<open>decimal_strings\<close>); \<open>ref_lib\<close> and \<open>ref_big\<close> are executable instances on which all of them are
  interpreted and on which the witnesses evaluate. Nothing is assumed of the \<open>querier\<close> but what a
  theorem says.

  \<^bold>\<open>Theories and the code they model.\<close>
  \<^item> Prelude: outcomes, fallible loops, checked \<open>u64\<close> arithmetic, floor division. ByteStore: storage
    buckets as sorted association lists behind the locale \<open>byte_store\<close>, and big-endian keys.
    DecimalText: digits of numbers. Cosmwasm: decimals, coins, environment. Protocol: the messages,
    structures and responses of \<open>packages/prism-protocol/src/hub.rs\<close> and \<open>rewards.rs\<close>, and the error
    type of \<open>contract_error.rs\<close>. Host: the parameters and their locales. Samples: the storages and chain answers that the witnesses use.
  \<^item> SignedInteger: \<open>packages/signed_integers\<close>. HubMath, HubMath256: \<open>math.rs\<close> of the hub. BigInt,
    BigNumber: \<open>packages/bignumber/src/math.rs\<close>, the conversions, text form and arithmetic of
    \<open>Decimal256\<close> and \<open>Uint256\<close> over four limbs.
  \<^item> HubStore: \<open>state.rs\<close>, the storage with its key encodings and the loops over a wait list, and
    \<open>State::update_exchange_rate\<close>. HubUtility: \<open>utility.rs\<close>. HubSlashing: \<open>slashing\<close> and
    \<open>query_total_issued\<close> of \<open>contract.rs\<close>. HubConfig: \<open>config.rs\<close>.
  \<^item> HubBond: \<open>bond.rs\<close>. HubCompound: \<open>autho_compounding.rs\<close>. HubUndelegate: \<open>pick_validator\<close>;
    HubUnbond: \<open>execute_unbond\<close>; HubWithdraw: \<open>process_withdraw_rate\<close> and
    \<open>execute_withdraw_unbonded\<close>, all of \<open>unbond.rs\<close>. Settlement: the settlement of batches as an
    abstract specification on numbers.
  \<^item> HubContract: the entry points of \<open>contract.rs\<close> (instantiate, execute, query, migrate) and
    \<open>migration.rs\<close>. Rewards: the rewards contract.
  \<^item> HubInvariant: the hub as a state machine (\<open>hub_step\<close>, \<open>hub_reachable\<close>) and the invariant
    \<open>hub_inv\<close>. HubSolvency: solvency under \<open>fair_chain\<close>. HubLedger: the abstract unbonding ledger, its
    invariant, the abstraction \<open>ledger_of\<close>, and the simulation of the hub by the ledger (locale
    \<open>simulation\<close>). HubProgress: when releases and withdrawals go through. HubAdmission: when bonds,
    unbonds and the compounding of rewards go through. HubBacking: the vault, an abstract account of the
    bonded amount and the exchange rate with the coins delegated, undelegated and slashed and the supply
    of the token as history variables, the abstraction \<open>vault_of\<close>, and its invariants over runs
    (\<open>account_run\<close>). HubQueries: what each query answers in reachable states, with the
    invariants that the cells it loads are filled (\<open>cells_ok\<close>) and that batches are filed in the order of
    time (\<open>times_ok\<close>). This theory: the reward cycle over both contracts.

  \<^bold>\<open>What is shown.\<close> The unbonding books balance in every reachable state; each query answers as
  specified there, with its errors and panics, and the reported withdrawable amount is what a withdrawal
  pays but for released batches that the query leaves out; released claims are covered by the recorded
  balance, and a withdrawal pays them; both loops of \<open>process_withdraw_rate\<close> refine the settlement specification. The hub as a whole refines
  the unbonding ledger: each message is a sequence of requests, closings, releases and collections, so
  that over any run a user is paid exactly the collected requests, each once, in full and at the rate
  its batch was released with, and the terms of a released batch never change. It also refines the vault:
  over any run the bonded amount is exactly what was delegated less what was undelegated and found
  slashed; and while the chain answers the token's supply as it is, the tokens and requests at the stored
  rate are worth at most the bond, and no message lowers the rate for the others by more than the digits
  a bond's division drops, unless a slash is found. Each handler's effect on the storage and its messages
  is characterised when it succeeds. For releases, bonds, unbonds and compounding the conditions of
  success are exact, and at or above the threshold an unbond never fails for want of bond or stake; the
  other error branches (paused, unauthorised, empty whitelist, the window between one and the threshold)
  are stated separately. Rates and fees have bounds: a peg fee never lifts the rate above one, compounding
  never lowers it, the division by a rate exceeds the exact quotient only through the nine digits of its
  divisor. Storing and reading, printing
  and parsing, and the conversions between widths are round trips.

  \<^bold>\<open>Loops.\<close> Every loop is a total function: over a list by structural recursion, over batch ids with
  the distance to the end of \<open>u64\<close> as its measure, over the delegations with their number as its
  measure. No fuel is used, so that a theorem about a result is a theorem about termination as well.

  \<^bold>\<open>Not modelled.\<close> The JSON encoding of messages, responses and stored values (only the encoding of
  storage keys matters to the code and is a parameter), the rendering of attributes as text, the
  execution of the returned messages by the chain (the reward cycle is composed by matching a message
  with the handler that receives it), and the token contract (its supply is a history
  variable of the vault). The mock querier of the protocol package is commented out, tests and schema
  generators are not part of the contracts, and the crate roots only declare modules. All other code of
  the repository is modelled; the lines that no definition covers are imports, attributes and unit tests.
\<close>

section \<open>The reward cycle\<close>

definition sample_rewards :: rewards_storage where
  "sample_rewards =
     \<lparr>RW_PAUSE = Some False, RW_ADMIN = Some (Some ''owner''),
      RW_CONFIG = Some \<lparr>hub_contract = map char_byte ''hub'', rc_underlying_coin_denom = ''uluna''\<rparr>\<rparr>"

text \<open>
  C25: the reward cycle over both contracts. Anybody's update of the global index makes the hub call
  the rewards contract, which hands its whole balance back to the hub and keeps its own storage; the
  hub sends out exactly that balance, the protocol fee to the collector and the rest to a validator,
  and the bonded amount grows by the balance less the fee. The exchange rate does not fall.
\<close>

theorem reward_cycle:
  assumes "cosmwasm L" and "STATE st = Some s" and "PARAMETERS st = Some p"
    and "hub_execute L Q st env info UpdateGlobalIndex = Ok (st1, r1)"
    and "WasmExecute a (RewardsMsg ProcessRewards) [] \<in> set (messages r1)"
    and "contract_address renv = a"
    and "rewards_execute L Q1 rst renv \<lparr>sender = contract_address env, funds = []\<rparr> ProcessRewards
           = Ok (rst', r2)"
    and "WasmExecute h (HubMsg UpdateExchangeRate) cs \<in> set (messages r2)"
    and "hub_execute L Q2 st1 env2 \<lparr>sender = a, funds = cs\<rparr> UpdateExchangeRate = Ok (st2, r3)"
  shows "\<exists>rcfg bal fee s2. h = contract_address env \<and> rst' = rst
    \<and> RW_CONFIG rst = Some rcfg
    \<and> query_balance Q1 a (rc_underlying_coin_denom rcfg) = Ok bal \<and> cs = [bal]
    \<and> fee = unat (coin_amount bal) * units (protocol_fee p) div E18
    \<and> (\<Sum>m\<leftarrow>messages r3. outgoing (underlying_coin_denom p) m) = unat (coin_amount bal)
    \<and> st2 = st\<lparr>STATE := Some s2\<rparr>
    \<and> unat (total_bond_amount s2) + fee = unat (total_bond_amount s) + unat (coin_amount bal)
    \<and> last_index_modification s2 = block_seconds env
    \<and> exchange_rate s \<le> exchange_rate s2"
proof -
  from assms(4) have st1: "st1 = st\<lparr>STATE := Some (s\<lparr>last_index_modification := block_seconds env\<rparr>)\<rparr>"
    by (auto simp: hub_execute_def execute_update_global_def res_simps assms(2))
  from assms(7) obtain rcfg bal where rw: "RW_CONFIG rst = Some rcfg" "rst' = rst"
    and "query_balance Q1 (contract_address renv) (rc_underlying_coin_denom rcfg) = Ok bal"
    and "messages r2 = [WasmExecute (sender \<lparr>sender = contract_address env, funds = []\<rparr>)
           (HubMsg UpdateExchangeRate) [bal]]"
    by (rule process_rewards_OkE)
  then have bal: "query_balance Q1 a (rc_underlying_coin_denom rcfg) = Ok bal"
    and "messages r2 = [WasmExecute (contract_address env) (HubMsg UpdateExchangeRate) [bal]]"
    by (simp_all add: assms(6))
  with assms(8) have h: "h = contract_address env" and cs: "cs = [bal]" by auto
  from assms(9) have upd: "execute_update_exchange_rate L Q2 st1 env2 \<lparr>sender = a, funds = cs\<rparr> = Ok (st2, r3)"
    by (auto simp: hub_execute_def)
  then obtain cfg where "CONFIG st1 = Some (CurrentConfig cfg)"
    by (rule execute_update_exchange_rate_OkE) blast
  moreover have "PARAMETERS st1 = Some p" by (simp add: st1 assms(3))
  moreover have "uint_decimal L" using assms(1) by (simp add: cosmwasm_def)
  ultimately obtain pay and fee rewards :: u128 and s2 where
    pay: "find_payment (underlying_coin_denom p) cs = Some pay"
    and fee: "unat fee = unat (coin_amount pay) * units (protocol_fee p) div E18"
      "unat fee + unat rewards = unat (coin_amount pay)"
    and out: "(\<Sum>m\<leftarrow>messages r3. outgoing (underlying_coin_denom p) m) = unat (coin_amount pay)"
    and st2: "st2 = st1\<lparr>STATE := Some s2\<rparr>"
    and bond: "unat (total_bond_amount s2)
      = unat (total_bond_amount (s\<lparr>last_index_modification := block_seconds env\<rparr>)) + unat rewards"
    and rate: "exchange_rate (s\<lparr>last_index_modification := block_seconds env\<rparr>) \<le> exchange_rate s2"
    and s2: "s2 = s\<lparr>last_index_modification := block_seconds env,
      total_bond_amount := total_bond_amount s2, exchange_rate := exchange_rate s2\<rparr>"
    using uint_decimal.compounding_effect [OF _ upd] by (fastforce simp: st1)
  have "last_index_modification s2 = block_seconds env" by (subst s2) simp
  moreover have "pay = bal" using pay by (auto simp: cs find_payment_def split: if_splits)
  ultimately show ?thesis
    using rw bal h cs fee out bond rate by (intro exI [of _ rcfg] exI [of _ bal] exI [of _ "unat fee"] exI [of _ s2])
      (simp add: st2 st1)
qed

theorem reward_cycle_witness:
  "\<exists>st1 r1 r2 st2 r3 s2.
      hub_execute ref_lib (sample_querier 1000 1000 0) sample_storage (sample_env 150)
        \<lparr>sender = ''anyone'', funds = []\<rparr> UpdateGlobalIndex = Ok (st1, r1)
    \<and> rewards_execute ref_lib (sample_querier 1000 1000 205) sample_rewards
        \<lparr>block_height = 7, block_seconds = 150, contract_address = ''rewards''\<rparr>
        \<lparr>sender = ''hub'', funds = []\<rparr> ProcessRewards = Ok (sample_rewards, r2)
    \<and> hub_execute ref_lib (sample_querier 1000 1000 205) st1 (sample_env 150)
        \<lparr>sender = ''rewards'', funds = [\<lparr>denom = ''uluna'', coin_amount = 205\<rparr>]\<rparr> UpdateExchangeRate
        = Ok (st2, r3)
    \<and> STATE st2 = Some s2 \<and> unat (total_bond_amount s2) + 20 = 1000 + 205"
proof -
  let ?Q = "sample_querier 1000 1000 0" and ?Q1 = "sample_querier 1000 1000 205"
  let ?renv = "\<lparr>block_height = 7, block_seconds = 150, contract_address = ''rewards''\<rparr>"
  let ?pay = "\<lparr>denom = ''uluna'', coin_amount = 205\<rparr>"
  obtain st1 r1 where hub1: "hub_execute ref_lib ?Q sample_storage (sample_env 150)
      \<lparr>sender = ''anyone'', funds = []\<rparr> UpdateGlobalIndex = Ok (st1, r1)"
    and call: "WasmExecute ''rewards'' (RewardsMsg ProcessRewards) [] \<in> set (messages r1)"
    and st1: "st1 = sample_storage\<lparr>STATE := Some (sample_state\<lparr>last_index_modification := 150\<rparr>)\<rparr>"
    by (simp add: eval_defs)
  obtain r2 where rw: "rewards_execute ref_lib ?Q1 sample_rewards ?renv
      \<lparr>sender = contract_address (sample_env 150), funds = []\<rparr> ProcessRewards = Ok (sample_rewards, r2)"
    and reply: "WasmExecute ''hub'' (HubMsg UpdateExchangeRate) [?pay] \<in> set (messages r2)"
    by (simp add: eval_defs sample_rewards_def)
  obtain st2 r3 where hub2: "hub_execute ref_lib ?Q1 st1 (sample_env 150)
      \<lparr>sender = ''rewards'', funds = [?pay]\<rparr> UpdateExchangeRate = Ok (st2, r3)"
    by (simp add: eval_defs Let_def st1 sample_state_def)
  have addr: "contract_address ?renv = ''rewards''" by simp
  from reward_cycle [OF cosmwasm_ref_lib sample_storage_sel(6,4) hub1 call addr rw reply hub2]
  obtain bal fee s2 where "[?pay] = [bal]" and "fee = unat (coin_amount bal) * units (protocol_fee sample_params) div E18"
    and "st2 = sample_storage\<lparr>STATE := Some s2\<rparr>"
    and "unat (total_bond_amount s2) + fee = unat (total_bond_amount sample_state) + unat (coin_amount bal)"
    by blast
  with hub1 rw hub2 show ?thesis by (auto simp: sample_state_def)
qed

end
